(* ===== verification/Paths.thy ===== *)
theory Paths
  imports Prelude
begin

text \<open>
  Slash-separated paths.  \<open>clean_rooted\<close> is \<open>filepath.Clean\<close> on an absolute path and
  \<open>join_path\<close> is \<open>filepath.Join\<close> of an absolute directory and a relative name, both as
  the Unix build of the Go library computes them.  The TFTP server and the artifact importer
  check the names they receive with two different functions that promise the same thing; the
  locale \<open>path_validator\<close> is that promise, and its lemmas say what a name that passed can
  reach when it is joined to a directory.
\<close>

abbreviation slash :: char where
  "slash \<equiv> CHR ''/''"

definition special_component :: "string \<Rightarrow> bool" where
  "special_component c \<longleftrightarrow> c = '''' \<or> c = ''.'' \<or> c = ''..''"

definition control_char :: "char \<Rightarrow> bool" where
  "control_char c \<longleftrightarrow> (of_char c :: nat) < 32 \<or> (of_char c :: nat) = 127"

subsection \<open>Clean and Join\<close>

text \<open>The component stack of \<open>filepath.Clean\<close>: empty and \<open>.\<close> components vanish,
  \<open>..\<close> removes the last one and stays at the root of an absolute path.\<close>

fun clean_comps :: "string list \<Rightarrow> string list \<Rightarrow> string list" where
  "clean_comps st [] = rev st"
| "clean_comps st (c # cs) =
     (if c = '''' \<or> c = ''.'' then clean_comps st cs
      else if c = ''..'' then clean_comps (tl st) cs
      else clean_comps (c # st) cs)"

definition path_comps :: "string \<Rightarrow> string list" where
  "path_comps p = clean_comps [] (split_on slash p)"

definition clean_rooted :: "string \<Rightarrow> string" where
  "clean_rooted p = slash # join_with slash (path_comps p)"

definition join_path :: "string \<Rightarrow> string \<Rightarrow> string" where
  "join_path dir name = clean_rooted (dir @ slash # name)"

definition clean_dir :: "string \<Rightarrow> bool" where
  "clean_dir d \<longleftrightarrow> d = clean_rooted d"

lemma clean_comps_append:
  "clean_comps st (xs @ ys) = clean_comps (rev (clean_comps st xs)) ys"
  by (induction st xs rule: clean_comps.induct) auto

lemma clean_comps_plain:
  "(\<And>c. c \<in> set cs \<Longrightarrow> \<not> special_component c) \<Longrightarrow> clean_comps st cs = rev st @ cs"
  by (induction cs arbitrary: st) (auto simp: special_component_def)

lemma clean_comps_not_special:
  "(\<And>c. c \<in> set st \<Longrightarrow> \<not> special_component c) \<Longrightarrow> d \<in> set (clean_comps st cs) \<Longrightarrow>
    \<not> special_component d"
proof (induction st cs rule: clean_comps.induct)
  case (2 st c cs)
  have "d \<in> set (tl st) \<Longrightarrow> d \<in> set st" for d
    by (cases st) auto
  with 2 show ?case
    by (auto simp: special_component_def split: if_splits)
qed auto

lemma clean_comps_subset: "set (clean_comps st cs) \<subseteq> set st \<union> set cs"
proof (induction st cs rule: clean_comps.induct)
  case (2 st c cs)
  have "set (tl st) \<subseteq> set st" by (cases st) auto
  with 2 show ?case by auto
qed simp

lemma split_on_join_path:
  "split_on slash (dir @ slash # name) = split_on slash dir @ split_on slash name"
proof (induction dir)
  case (Cons x xs)
  then show ?case
    by (cases "split_on slash xs") auto
qed simp

lemma path_comps_clean_rooted: "path_comps (clean_rooted p) = path_comps p"
proof -
  let ?cs = "path_comps p"
  have plain: "\<not> special_component c" if "c \<in> set ?cs" for c
    using that clean_comps_not_special [of "[]" c] by (auto simp: path_comps_def)
  have noslash: "slash \<notin> set c" if "c \<in> set ?cs" for c
    using that clean_comps_subset [of "[]" "split_on slash p"] split_on_parts [of c slash p]
    by (auto simp: path_comps_def)
  show ?thesis
  proof (cases "?cs = []")
    case True
    then show ?thesis
      by (simp add: clean_rooted_def path_comps_def [of "[slash]"])
  next
    case False
    then have "split_on slash (clean_rooted p) = [] # ?cs"
      using noslash by (simp add: clean_rooted_def split_join)
    then show ?thesis
      using plain by (simp add: path_comps_def [of "clean_rooted p"] clean_comps_plain)
  qed
qed

lemma path_comps_join:
  "path_comps (join_path dir name) = clean_comps (rev (path_comps dir)) (split_on slash name)"
  by (simp add: join_path_def path_comps_clean_rooted path_comps_def [of "dir @ slash # name"]
      split_on_join_path clean_comps_append flip: path_comps_def)

subsection \<open>What a name check promises\<close>

locale path_validator =
  fixes ok :: "string \<Rightarrow> bool"
  assumes ok_components: "ok p \<Longrightarrow> c \<in> set (split_on slash p) \<Longrightarrow> \<not> special_component c"
    and ok_printable: "ok p \<Longrightarrow> x \<in> set p \<Longrightarrow> \<not> control_char x"
begin

lemma ok_not_empty: "ok p \<Longrightarrow> p \<noteq> []"
  using ok_components [of p "[]"] by (auto simp: special_component_def)

lemma joined_below:
  assumes "ok p"
  shows "path_comps (join_path dir p) = path_comps dir @ split_on slash p"
  using assms ok_components by (simp add: path_comps_join clean_comps_plain)

lemma joined_no_traversal:
  assumes "ok p" and "c \<in> set (path_comps (join_path dir p))"
  shows "c \<noteq> ''..''"
proof -
  have "\<not> special_component c"
    using assms(2) clean_comps_not_special [of "[]" c]
    by (auto simp: path_comps_def)
  then show ?thesis by (simp add: special_component_def)
qed

lemma joined_inj:
  assumes "ok p" and "ok q" and "join_path dir p = join_path dir q"
  shows "p = q"
proof -
  have "split_on slash p = split_on slash q"
    using assms joined_below [of p dir] joined_below [of q dir] by simp
  then have "join_with slash (split_on slash p) = join_with slash (split_on slash q)"
    by simp
  then show ?thesis by simp
qed

lemma joined_literal:
  assumes "ok p" and "clean_dir dir" and "path_comps dir \<noteq> []"
  shows "join_path dir p = dir @ slash # p"
proof -
  have "join_with slash (xs @ ys) = join_with slash xs @ slash # join_with slash ys"
    if "xs \<noteq> []" and "ys \<noteq> []" for xs ys :: "string list"
    using that by (induction slash xs rule: join_with.induct) (auto simp: neq_Nil_conv)
  then show ?thesis
    using assms joined_below [of p dir] path_comps_clean_rooted
    by (simp add: join_path_def clean_rooted_def clean_dir_def)
qed

end

end
