(* ===== verification/Tftp.thy ===== *)
theory Tftp
  imports Paths
begin

text \<open>
  The read-only TFTP server (\<open>internal/tftp/server.go\<close>): the request parser, the name check,
  option negotiation, the packets, the acknowledged exchange with its retries, the transfer
  loop and the dispatch of one datagram by \<open>Serve\<close>.

  The network is explicit: what \<open>exchange\<close> meets in one attempt is an \<open>attempt\<close> (is the
  context done, does the send fail, which datagrams arrive before the deadline), and a whole
  transfer is given an attempt for every block and retry.  The end of an inbox is the read
  deadline.  The parameter \<open>lower\<close> is \<open>strings.ToLower\<close>, whose Unicode tables are not
  written out, and \<open>text_of\<close> renders an error as \<open>err.Error()\<close> does.
\<close>

subsection \<open>Constants and configuration\<close>

definition opcodeRRQ :: "16 word" where "opcodeRRQ = 1"
definition opcodeDATA :: "16 word" where "opcodeDATA = 3"
definition opcodeACK :: "16 word" where "opcodeACK = 4"
definition opcodeERROR :: "16 word" where "opcodeERROR = 5"
definition opcodeOACK :: "16 word" where "opcodeOACK = 6"

definition errorNotFound :: "16 word" where "errorNotFound = 1"
definition errorAccessViolation :: "16 word" where "errorAccessViolation = 2"
definition errorIllegalOp :: "16 word" where "errorIllegalOp = 4"
definition errorOption :: "16 word" where "errorOption = 8"

lemmas opcode_defs = opcodeRRQ_def opcodeDATA_def opcodeACK_def opcodeERROR_def opcodeOACK_def

record tftp_config =
  tc_listen :: string
  tc_retries :: int
  tc_timeout :: int \<comment> \<open>nanoseconds\<close>
  tc_max_block :: int

definition default_config :: tftp_config where
  "default_config = \<lparr>tc_listen = '':69'', tc_retries = 5, tc_timeout = 3 * 10 ^ 9,
     tc_max_block = 1468\<rparr>"

datatype listen_error = EmptyListen | BadRetries | BadTimeout | BadMaxBlock

definition check_config :: "tftp_config \<Rightarrow> listen_error option" where
  "check_config cfg = first_error
     [(tc_listen cfg = [], EmptyListen),
      (tc_retries cfg < 1, BadRetries),
      (tc_timeout cfg \<le> 0, BadTimeout),
      (tc_max_block cfg < 8 \<or> tc_max_block cfg > 65464, BadMaxBlock)]"

subsection \<open>Parsing a read request\<close>

datatype tftp_error =
    OnlyReadRequests
  | MalformedRequest
  | UnsafeFilename string
  | OnlyOctet
  | EmptyOptionName
  | DuplicateOption string
  | InvalidBlksize string
  | InvalidTimeout string
  | TsizeNotZero

record request =
  req_filename :: string
  req_options :: "string \<rightharpoonup> string"

definition splitZeroTerminated :: "byte list \<Rightarrow> string list" where
  "splitZeroTerminated data =
     (if data = [] \<or> last data \<noteq> 0 then []
      else (let fields = split_on 0 (butlast data) in
            if [] \<in> set fields then [] else map of_bytes fields))"

definition validateFilename :: "string \<Rightarrow> tftp_error option" where
  "validateFilename name = first_error
     [(name = [] \<or> length name > 1024 \<or> prefix ''/'' name
         \<or> CHR 0x5C \<in> set name \<or> CHR '':'' \<in> set name, UnsafeFilename name),
      (list_ex control_char name, UnsafeFilename name),
      (list_ex special_component (split_on slash name), UnsafeFilename name)]"

definition ascii_lower :: "char \<Rightarrow> char" where
  "ascii_lower c = (if 65 \<le> (of_char c :: nat) \<and> (of_char c :: nat) \<le> 90
     then char_of ((of_char c :: nat) + 32) else c)"

text \<open>\<open>strings.EqualFold(mode, "octet")\<close>: no letter of the word folds from outside ASCII, so
  only the ASCII case folding can make a mode equal to it.\<close>

definition is_octet :: "string \<Rightarrow> bool" where
  "is_octet mode \<longleftrightarrow> map ascii_lower mode = ''octet''"

fun parse_options :: "(string \<Rightarrow> string) \<Rightarrow> string list \<Rightarrow> (string \<rightharpoonup> string) \<Rightarrow>
    tftp_error + (string \<rightharpoonup> string)" where
  "parse_options lower (n # v # rest) options =
     (let name = lower n in
      if name = [] then Inl EmptyOptionName
      else if options name \<noteq> None then Inl (DuplicateOption name)
      else parse_options lower rest (options(name \<mapsto> v)))"
| "parse_options lower _ options = Inr options"

definition parseRequest :: "(string \<Rightarrow> string) \<Rightarrow> byte list \<Rightarrow> tftp_error + request" where
  "parseRequest lower packet =
     (if length packet < 4 \<or> get16 (packet ! 0) (packet ! 1) \<noteq> opcodeRRQ then Inl OnlyReadRequests
      else (let parts = splitZeroTerminated (drop 2 packet) in
        if length parts < 2 \<or> odd (length parts) then Inl MalformedRequest
        else (case validateFilename (parts ! 0) of
          Some e \<Rightarrow> Inl e
        | None \<Rightarrow>
            if \<not> is_octet (parts ! 1) then Inl OnlyOctet
            else (case parse_options lower (drop 2 parts) Map.empty of
              Inl e \<Rightarrow> Inl e
            | Inr options \<Rightarrow> Inr \<lparr>req_filename = parts ! 0, req_options = options\<rparr>))))"

subsection \<open>Option negotiation\<close>

record negotiated =
  ng_accepted :: "(string \<times> string) list"
  ng_block :: int
  ng_timeout :: int

definition negotiate_blksize :: "tftp_config \<Rightarrow> (string \<rightharpoonup> string) \<Rightarrow> negotiated \<Rightarrow>
    tftp_error + negotiated" where
  "negotiate_blksize cfg options ng =
     (case options ''blksize'' of
        None \<Rightarrow> Inr ng
      | Some value \<Rightarrow> (case atoi value of
          None \<Rightarrow> Inl (InvalidBlksize value)
        | Some requested \<Rightarrow>
            if requested < 8 \<or> requested > 65464 then Inl (InvalidBlksize value)
            else (let size = (if requested > tc_max_block cfg then tc_max_block cfg else requested)
                  in Inr (ng\<lparr>ng_block := size,
                             ng_accepted := ng_accepted ng @ [(''blksize'', itoa size)]\<rparr>))))"

definition negotiate_timeout :: "(string \<rightharpoonup> string) \<Rightarrow> negotiated \<Rightarrow> tftp_error + negotiated" where
  "negotiate_timeout options ng =
     (case options ''timeout'' of
        None \<Rightarrow> Inr ng
      | Some value \<Rightarrow> (case atoi value of
          None \<Rightarrow> Inl (InvalidTimeout value)
        | Some seconds \<Rightarrow>
            if seconds < 1 \<or> seconds > 255 then Inl (InvalidTimeout value)
            else Inr (ng\<lparr>ng_timeout := seconds * 10 ^ 9,
                         ng_accepted := ng_accepted ng @ [(''timeout'', itoa seconds)]\<rparr>)))"

definition negotiate_tsize :: "int \<Rightarrow> (string \<rightharpoonup> string) \<Rightarrow> negotiated \<Rightarrow>
    tftp_error + negotiated" where
  "negotiate_tsize fileSize options ng =
     (case options ''tsize'' of
        None \<Rightarrow> Inr ng
      | Some value \<Rightarrow>
          if value \<noteq> ''0'' then Inl TsizeNotZero
          else Inr (ng\<lparr>ng_accepted := ng_accepted ng @ [(''tsize'', itoa fileSize)]\<rparr>))"

definition negotiate :: "tftp_config \<Rightarrow> (string \<rightharpoonup> string) \<Rightarrow> int \<Rightarrow> tftp_error + negotiated" where
  "negotiate cfg options fileSize =
     (case negotiate_blksize cfg options
             \<lparr>ng_accepted = [], ng_block = 512, ng_timeout = tc_timeout cfg\<rparr> of
        Inl e \<Rightarrow> Inl e
      | Inr ng \<Rightarrow> (case negotiate_timeout options ng of
          Inl e \<Rightarrow> Inl e
        | Inr ng' \<Rightarrow> negotiate_tsize fileSize options ng'))"

subsection \<open>Packets\<close>

definition dataPacket :: "16 word \<Rightarrow> byte list \<Rightarrow> byte list" where
  "dataPacket block data = put16 opcodeDATA @ put16 block @ data"

definition optionAckPacket :: "(string \<times> string) list \<Rightarrow> byte list" where
  "optionAckPacket options = [0, 6]
     @ concat (map (\<lambda>(name, value). to_bytes name @ [0] @ to_bytes value @ [0]) options)"

definition errorPacket :: "16 word \<Rightarrow> string \<Rightarrow> byte list" where
  "errorPacket code message = put16 opcodeERROR @ put16 code
     @ to_bytes (filter (\<lambda>c. c \<noteq> CHR 0x00) message) @ [0]"

definition packetMessage :: "byte list \<Rightarrow> string" where
  "packetMessage packet = of_bytes (takeWhile (\<lambda>b. b \<noteq> 0) (drop 4 packet))"

subsection \<open>One acknowledged exchange\<close>

record peer =
  peer_ip :: "32 word"
  peer_port :: "16 word"

datatype recv = Datagram peer "byte list" | RecvFault | DeadlineFault

record attempt =
  at_ctx_done :: bool
  at_send_fault :: bool
  at_inbox :: "recv list"

datatype exchange_error =
    ContextDone
  | SendFault
  | ReceiveFault
  | SetDeadlineFault
  | ClientError "16 word" string
  | AckTimeout nat

datatype wait_result = Acked | Deadline | Broken exchange_error

definition is_ack :: "byte list \<Rightarrow> 16 word \<Rightarrow> bool" where
  "is_ack r expected \<longleftrightarrow> 4 \<le> length r \<and> get16 (r ! 0) (r ! 1) = opcodeACK
     \<and> get16 (r ! 2) (r ! 3) = expected"

definition is_error :: "byte list \<Rightarrow> bool" where
  "is_error r \<longleftrightarrow> 4 \<le> length r \<and> get16 (r ! 0) (r ! 1) = opcodeERROR"

text \<open>The inner loop: read until the deadline, skipping datagrams of other senders and
  packets that are neither the expected acknowledgement nor an error.\<close>

fun await_ack :: "peer \<Rightarrow> 16 word \<Rightarrow> recv list \<Rightarrow> wait_result" where
  "await_ack remote expected [] = Deadline"
| "await_ack remote expected (DeadlineFault # rest) = Broken SetDeadlineFault"
| "await_ack remote expected (RecvFault # rest) = Broken ReceiveFault"
| "await_ack remote expected (Datagram sender r # rest) =
     (if peer_ip sender \<noteq> peer_ip remote \<or> peer_port sender \<noteq> peer_port remote
      then await_ack remote expected rest
      else if is_ack r expected then Acked
      else if is_error r then Broken (ClientError (get16 (r ! 2) (r ! 3)) (packetMessage r))
      else await_ack remote expected rest)"

text \<open>The retry loop: the packets put on the wire, and the error if any.\<close>

fun exchange_loop :: "peer \<Rightarrow> byte list \<Rightarrow> 16 word \<Rightarrow> (nat \<Rightarrow> attempt) \<Rightarrow> nat \<Rightarrow> nat \<Rightarrow>
    byte list list \<times> exchange_error option" where
  "exchange_loop remote packet expected net retries 0 = ([], Some (AckTimeout retries))"
| "exchange_loop remote packet expected net retries (Suc left) =
     (let a = net (retries - Suc left) in
      if at_ctx_done a then ([], Some ContextDone)
      else if at_send_fault a then ([], Some SendFault)
      else (case await_ack remote expected (at_inbox a) of
              Acked \<Rightarrow> ([packet], None)
            | Broken e \<Rightarrow> ([packet], Some e)
            | Deadline \<Rightarrow>
                (let (sent, r) = exchange_loop remote packet expected net retries left
                 in (packet # sent, r))))"

definition exchange :: "peer \<Rightarrow> byte list \<Rightarrow> 16 word \<Rightarrow> nat \<Rightarrow> (nat \<Rightarrow> attempt) \<Rightarrow>
    byte list list \<times> exchange_error option" where
  "exchange remote packet expected retries net =
     exchange_loop remote packet expected net retries retries"

subsection \<open>Serving one request\<close>

datatype file_info = Missing | Regular "byte list" | Special

datatype failure =
    FileNotFound
  | NotRegularFile
  | CannotOpen
  | NoSocket
  | Negotiation tftp_error
  | Exchange exchange_error
  | Cancelled
  | ReadFault

datatype status = Started | Completed | Failed failure

record transfer_event =
  ev_filename :: string
  ev_remote :: peer
  ev_bytes :: int
  ev_status :: status

datatype action = Emit transfer_event | Send "byte list"

record transfer_env =
  te_lstat :: "string \<Rightarrow> file_info"
  te_open_fault :: bool
  te_socket_fault :: bool
  te_oack_net :: "nat \<Rightarrow> attempt"
  te_data_net :: "nat \<Rightarrow> nat \<Rightarrow> attempt"
  te_ctx_done :: "nat \<Rightarrow> bool"
  te_read_fault :: "nat \<Rightarrow> bool"

record transfer =
  tr_remote :: peer
  tr_file :: string
  tr_block :: nat
  tr_retries :: nat
  tr_env :: transfer_env

definition emit_event :: "string \<Rightarrow> peer \<Rightarrow> int \<Rightarrow> status \<Rightarrow> action" where
  "emit_event name remote n st = Emit \<lparr>ev_filename = name, ev_remote = remote, ev_bytes = n,
     ev_status = st\<rparr>"

definition transferFailure :: "transfer_env \<Rightarrow> string \<Rightarrow> peer \<Rightarrow> 16 word \<Rightarrow> string \<Rightarrow> failure \<Rightarrow>
    action list" where
  "transferFailure env name remote code message cause =
     (if te_socket_fault env then [] else [Send (errorPacket code message)])
     @ [emit_event name remote 0 (Failed cause)]"

text \<open>The transfer loop.  \<open>None\<close> is a loop that never ends.\<close>

partial_function (option) send_blocks :: "transfer \<Rightarrow> nat \<Rightarrow> 16 word \<Rightarrow> byte list \<Rightarrow> int \<Rightarrow>
    action list option" where
  "send_blocks tr i block rest transferred =
     (if te_ctx_done (tr_env tr) i
      then Some [emit_event (tr_file tr) (tr_remote tr) transferred (Failed Cancelled)]
      else if te_read_fault (tr_env tr) i
      then Some [emit_event (tr_file tr) (tr_remote tr) transferred (Failed ReadFault)]
      else (let chunk = take (tr_block tr) rest;
                (sent, err) = exchange (tr_remote tr) (dataPacket block chunk) block
                                (tr_retries tr) (te_data_net (tr_env tr) i) in
        case err of
          Some e \<Rightarrow> Some (map Send sent
            @ [emit_event (tr_file tr) (tr_remote tr) transferred (Failed (Exchange e))])
        | None \<Rightarrow>
            (if length chunk < tr_block tr
             then Some (map Send sent @ [emit_event (tr_file tr) (tr_remote tr)
                    (transferred + int (length chunk)) Completed])
             else Option.bind
                    (send_blocks tr (Suc i) (block + 1) (drop (tr_block tr) rest)
                      (transferred + int (length chunk)))
                    (\<lambda>outs. Some (map Send sent @ outs)))))"

declare send_blocks.simps [code]

definition serveRequest :: "(tftp_error \<Rightarrow> string) \<Rightarrow> tftp_config \<Rightarrow> string \<Rightarrow> transfer_env \<Rightarrow>
    peer \<Rightarrow> request \<Rightarrow> action list option" where
  "serveRequest text_of cfg root env remote req =
     (let name = req_filename req; path = join_path root name;
          start = [emit_event name remote 0 Started] in
      case te_lstat env path of
        Missing \<Rightarrow>
          Some (start @ transferFailure env name remote errorNotFound ''file not found''
                  FileNotFound)
      | Special \<Rightarrow>
          Some (start @ transferFailure env name remote errorAccessViolation
                  ''requested path is not a regular file'' NotRegularFile)
      | Regular content \<Rightarrow>
          if te_open_fault env
          then Some (start @ transferFailure env name remote errorAccessViolation
                       ''cannot open requested file'' CannotOpen)
          else if te_socket_fault env
          then Some (start @ [emit_event name remote 0 (Failed NoSocket)])
          else (case negotiate cfg (req_options req) (int (length content)) of
            Inl e \<Rightarrow> Some (start @ [Send (errorPacket errorOption (text_of e)),
                       emit_event name remote 0 (Failed (Negotiation e))])
          | Inr ng \<Rightarrow>
              (let tr = \<lparr>tr_remote = remote, tr_file = name, tr_block = nat (ng_block ng),
                         tr_retries = nat (tc_retries cfg), tr_env = env\<rparr>;
                   (sent, err) = (if ng_accepted ng = [] then ([], None)
                     else exchange remote (optionAckPacket (ng_accepted ng)) 0
                            (tr_retries tr) (te_oack_net env)) in
               case err of
                 Some e \<Rightarrow> Some (start @ map Send sent
                             @ [emit_event name remote 0 (Failed (Exchange e))])
               | None \<Rightarrow> Option.bind (send_blocks tr 0 1 content 0)
                             (\<lambda>outs. Some (start @ map Send sent @ outs)))))"

subsection \<open>Dispatching one datagram\<close>

record server =
  sv_allowed :: "32 word option"
  sv_active :: "(peer \<times> string) set"

datatype reaction =
    ControlError "byte list"
  | IgnoreDuplicate
  | StartTransfer request

definition handleDatagram :: "(string \<Rightarrow> string) \<Rightarrow> (tftp_error \<Rightarrow> string) \<Rightarrow> server \<Rightarrow> peer \<Rightarrow>
    byte list \<Rightarrow> reaction \<times> server" where
  "handleDatagram lower text_of sv remote packet =
     (if (case sv_allowed sv of None \<Rightarrow> False | Some ip \<Rightarrow> peer_ip remote \<noteq> ip)
      then (ControlError (errorPacket errorAccessViolation ''TFTP client IP is not allowed''), sv)
      else (case parseRequest lower packet of
        Inl e \<Rightarrow> (ControlError (errorPacket errorIllegalOp (text_of e)), sv)
      | Inr req \<Rightarrow>
          (let key = (remote, req_filename req) in
           if key \<in> sv_active sv then (IgnoreDuplicate, sv)
           else (StartTransfer req, sv\<lparr>sv_active := insert key (sv_active sv)\<rparr>))))"

definition finishTransfer :: "server \<Rightarrow> peer \<Rightarrow> string \<Rightarrow> server" where
  "finishTransfer sv remote name = sv\<lparr>sv_active := sv_active sv - {(remote, name)}\<rparr>"

subsection \<open>Names: the path contract\<close>

lemma validateFilename_None:
  "validateFilename name = None \<longleftrightarrow>
     name \<noteq> [] \<and> length name \<le> 1024 \<and> \<not> prefix ''/'' name \<and> CHR 0x5C \<notin> set name
     \<and> CHR '':'' \<notin> set name \<and> (\<forall>c \<in> set name. \<not> control_char c)
     \<and> (\<forall>c \<in> set (split_on slash name). \<not> special_component c)"
  by (auto simp: validateFilename_def list_ex_iff)

interpretation tftp_name: path_validator "\<lambda>name. validateFilename name = None"
  by unfold_locales (auto simp: validateFilename_None)

lemma parseRequest_InrD:
  assumes "parseRequest lower packet = Inr req"
  shows "validateFilename (req_filename req) = None"
    and "4 \<le> length packet \<and> get16 (packet ! 0) (packet ! 1) = opcodeRRQ"
    and "\<exists>mode rest. splitZeroTerminated (drop 2 packet) = req_filename req # mode # rest
           \<and> is_octet mode \<and> even (length rest)
           \<and> parse_options lower rest Map.empty = Inr (req_options req)"
proof -
  let ?parts = "splitZeroTerminated (drop 2 packet)"
  from assms have len: "4 \<le> length packet" and op: "get16 (packet ! 0) (packet ! 1) = opcodeRRQ"
    by (auto simp: parseRequest_def split: if_splits)
  with assms have parts: "2 \<le> length ?parts" "even (length ?parts)"
    and name: "validateFilename (?parts ! 0) = None" and oct: "is_octet (?parts ! 1)"
    and opts: "parse_options lower (drop 2 ?parts) Map.empty = Inr (req_options req)"
    and fn: "req_filename req = ?parts ! 0"
    by (auto simp: parseRequest_def Let_def split: if_splits option.splits sum.splits)
  obtain n mode rest where split: "?parts = n # mode # rest"
    using parts(1) by (cases ?parts; cases "tl ?parts") auto
  show "validateFilename (req_filename req) = None"
    using name fn by simp
  show "4 \<le> length packet \<and> get16 (packet ! 0) (packet ! 1) = opcodeRRQ"
    using len op by simp
  show "\<exists>mode rest. ?parts = req_filename req # mode # rest
           \<and> is_octet mode \<and> even (length rest)
           \<and> parse_options lower rest Map.empty = Inr (req_options req)"
    using split parts(2) oct opts fn by auto
qed

subsection \<open>Requests: what a client encodes is what the server parses\<close>

text \<open>The read request of RFC 1350 and RFC 2347 as a client writes it.\<close>

definition encode_fields :: "string list \<Rightarrow> byte list" where
  "encode_fields fs = concat (map (\<lambda>f. to_bytes f @ [0]) fs)"

definition encode_request :: "string \<Rightarrow> string \<Rightarrow> (string \<times> string) list \<Rightarrow> byte list" where
  "encode_request name mode opts = put16 opcodeRRQ
     @ encode_fields (name # mode # concat (map (\<lambda>(n, v). [n, v]) opts))"

definition plain_field :: "string \<Rightarrow> bool" where
  "plain_field f \<longleftrightarrow> f \<noteq> [] \<and> CHR 0x00 \<notin> set f"

lemma to_bytes_zero: "0 \<in> set (to_bytes f) \<longleftrightarrow> CHR 0x00 \<in> set f"
proof
  assume "0 \<in> set (to_bytes f)"
  then obtain c where c: "c \<in> set f" "(of_char c :: byte) = 0"
    by (auto simp: to_bytes_def)
  have "of_bytes (to_bytes [c]) = [c]" by simp
  then have "c = CHR 0x00"
    using c(2) by (simp add: to_bytes_def of_bytes_def char_of_def)
  with c show "CHR 0x00 \<in> set f" by simp
next
  assume "CHR 0x00 \<in> set f"
  then show "0 \<in> set (to_bytes f)" by (force simp: to_bytes_def)
qed

lemma encode_fields_join:
  "fs \<noteq> [] \<Longrightarrow> encode_fields fs = join_with 0 (map to_bytes fs) @ [0]"
  by (induction fs rule: induct_list012) (auto simp: encode_fields_def)

lemma split_encode_fields:
  assumes "fs \<noteq> []" and "\<And>f. f \<in> set fs \<Longrightarrow> plain_field f"
  shows "splitZeroTerminated (encode_fields fs) = fs"
proof -
  have "0 \<notin> set b" if "b \<in> set (map to_bytes fs)" for b
    using that assms(2) by (auto simp: to_bytes_zero plain_field_def)
  then have split: "split_on 0 (join_with 0 (map to_bytes fs)) = map to_bytes fs"
    using assms(1) by (intro split_join) auto
  moreover have "[] \<notin> set (map to_bytes fs)"
    using assms(2) by (force simp: plain_field_def to_bytes_def)
  ultimately show ?thesis
    using assms(1) by (simp add: encode_fields_join splitZeroTerminated_def comp_def map_idI)
qed

lemma parse_options_plain:
  assumes "distinct (map fst opts)" and "\<And>n v. (n, v) \<in> set opts \<Longrightarrow> lower n = n \<and> n \<noteq> []"
    and "\<And>n v. (n, v) \<in> set opts \<Longrightarrow> m n = None"
  shows "parse_options lower (concat (map (\<lambda>(n, v). [n, v]) opts)) m = Inr (m ++ map_of opts)"
  using assms
proof (induction opts arbitrary: m)
  case (Cons nv opts)
  obtain n v where nv: "nv = (n, v)" by (cases nv)
  have "parse_options lower (concat (map (\<lambda>(n, v). [n, v]) opts)) (m(n \<mapsto> v))
      = Inr (m(n \<mapsto> v) ++ map_of opts)"
  proof (rule Cons.IH)
    show "distinct (map fst opts)" using Cons.prems(1) by simp
  next
    fix n' v' assume in_opts: "(n', v') \<in> set opts"
    then show "lower n' = n' \<and> n' \<noteq> []" using Cons.prems(2) [of n' v'] by simp
    from in_opts have "n' \<in> fst ` set opts" by force
    then have "n' \<noteq> n" using Cons.prems(1) nv by auto
    then show "(m(n \<mapsto> v)) n' = None" using Cons.prems(3) [of n' v'] in_opts by simp
  qed
  moreover have "m(n \<mapsto> v) ++ map_of opts = m ++ map_of (nv # opts)"
    using Cons.prems(1) nv
    by (simp add: map_add_upd_left dom_map_of_conv_image_fst)
  moreover have "lower n = n \<and> n \<noteq> [] \<and> m n = None"
    using Cons.prems(2,3) [of n v] nv by simp
  ultimately show ?case using nv by (simp add: map_add_def fun_eq_iff)
qed simp

lemma opcode_put16 [simp]: "get16 (put16 w ! 0) (put16 w ! Suc 0) = w"
  by (simp add: put16_def get16_put16)

text \<open>C14: every well-formed read request a client encodes (a safe name, the octet mode in any
  letter case, options with distinct lower-case names) is accepted, and the server sees exactly
  the name and the options that were encoded.\<close>

theorem parse_encode_request:
  assumes "validateFilename name = None" and "is_octet mode"
    and "distinct (map fst opts)"
    and "\<And>n v. (n, v) \<in> set opts \<Longrightarrow> plain_field n \<and> plain_field v \<and> lower n = n"
  shows "parseRequest lower (encode_request name mode opts)
    = Inr \<lparr>req_filename = name, req_options = map_of opts\<rparr>"
proof -
  let ?fs = "name # mode # concat (map (\<lambda>(n, v). [n, v]) opts)"
  have name: "plain_field name"
    using assms(1) by (auto simp: validateFilename_None plain_field_def control_char_def)
  have "CHR 0x00 \<notin> set mode"
  proof
    assume "CHR 0x00 \<in> set mode"
    then have "ascii_lower (CHR 0x00) \<in> set (map ascii_lower mode)" by simp
    with assms(2) show False by (simp add: is_octet_def ascii_lower_def)
  qed
  then have mode: "plain_field mode"
    using assms(2) by (auto simp: plain_field_def is_octet_def)
  have "f \<in> set ?fs \<Longrightarrow> plain_field f" for f
    using name mode assms(4) by auto
  then have split: "splitZeroTerminated (encode_fields ?fs) = ?fs"
    by (intro split_encode_fields) auto
  have opts: "parse_options lower (concat (map (\<lambda>(n, v). [n, v]) opts)) Map.empty
      = Inr (map_of opts)"
    using parse_options_plain [of opts lower Map.empty] assms(3,4)
    by (force simp: plain_field_def)
  have long: "2 \<le> length (encode_fields ?fs)"
    by (simp add: encode_fields_def)
  have even: "even (length (concat (map (\<lambda>(n :: string, v :: string). [n, v]) opts)))"
    by (induction opts) auto
  show ?thesis
    using long split opts assms(1,2) even
    by (simp add: parseRequest_def encode_request_def nth_append)
qed

lemma parse_encode_request_witness:
  "parseRequest (map ascii_lower) (encode_request ''boot/a.bin'' ''Octet'' [(''blksize'', ''1468'')])
    = Inr \<lparr>req_filename = ''boot/a.bin'', req_options = map_of [(''blksize'', ''1468'')]\<rparr>"
proof (rule parse_encode_request)
  show "validateFilename ''boot/a.bin'' = None" by code_simp
  show "is_octet ''Octet''" by code_simp
  show "distinct (map fst [(''blksize'', ''1468'')])" by simp
  fix n v assume "(n, v) \<in> set [(''blksize'', ''1468'')]"
  then have nv: "n = ''blksize''" "v = ''1468''" by auto
  show "plain_field n \<and> plain_field v \<and> map ascii_lower n = n"
    unfolding nv by code_simp
qed

subsection \<open>Dispatch: who is served, and from where\<close>

text \<open>C6: a transfer only starts for an allowed client, for a name with no transfer of the same
  client in progress, and the file it opens lies strictly below the server root: the components
  of the opened path are those of the root followed by those of the name, with no \<open>..\<close> among
  the latter.\<close>

theorem started_transfer_is_contained:
  assumes "handleDatagram lower text_of sv remote packet = (StartTransfer req, sv')"
  shows "path_comps (join_path root (req_filename req))
      = path_comps root @ split_on slash (req_filename req)
    \<and> (\<forall>c \<in> set (split_on slash (req_filename req)). c \<notin> {'''', ''.'', ''..''})
    \<and> (\<forall>ip. sv_allowed sv = Some ip \<longrightarrow> peer_ip remote = ip)
    \<and> (remote, req_filename req) \<notin> sv_active sv
    \<and> sv_active sv' = insert (remote, req_filename req) (sv_active sv)"
proof -
  from assms have parsed: "parseRequest lower packet = Inr req"
    and rest: "(\<forall>ip. sv_allowed sv = Some ip \<longrightarrow> peer_ip remote = ip)
      \<and> (remote, req_filename req) \<notin> sv_active sv
      \<and> sv_active sv' = insert (remote, req_filename req) (sv_active sv)"
    by (auto simp: handleDatagram_def Let_def split: if_splits sum.splits option.splits)
  from parsed have ok: "validateFilename (req_filename req) = None"
    by (rule parseRequest_InrD)
  then have "\<forall>c \<in> set (split_on slash (req_filename req)). c \<notin> {'''', ''.'', ''..''}"
    by (auto simp: validateFilename_None special_component_def)
  with rest tftp_name.joined_below [OF ok] show ?thesis by simp
qed

lemma started_transfer_is_contained_witness:
  "\<exists>req sv'. handleDatagram (map ascii_lower) (\<lambda>_. '''')
      \<lparr>sv_allowed = Some 7, sv_active = {}\<rparr> \<lparr>peer_ip = 7, peer_port = 9\<rparr>
      (encode_request ''d/f'' ''octet'' []) = (StartTransfer req, sv')
    \<and> path_comps (join_path ''/srv/tftp'' (req_filename req)) = [''srv'', ''tftp'', ''d'', ''f'']"
proof -
  let ?req = "\<lparr>req_filename = ''d/f'', req_options = Map.empty\<rparr>"
  let ?p = "\<lparr>peer_ip = 7, peer_port = 9\<rparr>"
  let ?sv = "\<lparr>sv_allowed = Some 7, sv_active = {}\<rparr>"
  let ?packet = "encode_request ''d/f'' ''octet'' []"
  have "splitZeroTerminated (drop 2 ?packet) = [''d/f'', ''octet'']"
    and "length ?packet = 12" and "get16 (?packet ! 0) (?packet ! 1) = opcodeRRQ"
    and "validateFilename ''d/f'' = None" and "is_octet ''octet''"
    by code_simp+
  then have "parseRequest (map ascii_lower) ?packet = Inr ?req"
    by (simp add: parseRequest_def)
  then have start: "handleDatagram (map ascii_lower) (\<lambda>_. '''') ?sv ?p
      (encode_request ''d/f'' ''octet'' [])
      = (StartTransfer ?req, ?sv\<lparr>sv_active := {(?p, ''d/f'')}\<rparr>)"
    by (simp add: handleDatagram_def)
  have "path_comps ''/srv/tftp'' = [''srv'', ''tftp'']" by code_simp
  moreover have "split_on slash ''d/f'' = [''d'', ''f'']" by code_simp
  ultimately show ?thesis
    using start started_transfer_is_contained [OF start, of "''/srv/tftp''"] by auto
qed

subsection \<open>Negotiation\<close>

lemma negotiate_blksize_bounds:
  assumes "negotiate_blksize cfg options ng = Inr ng'"
    and "8 \<le> tc_max_block cfg" and "ng_block ng = 512"
  shows "8 \<le> ng_block ng' \<and> ng_block ng' \<le> max 512 (tc_max_block cfg)
    \<and> ng_timeout ng' = ng_timeout ng
    \<and> (\<forall>v. options ''blksize'' = Some v \<longrightarrow>
        (\<exists>r. atoi v = Some r \<and> ng_block ng' = min r (tc_max_block cfg)))
    \<and> (options ''blksize'' = None \<longrightarrow> ng_block ng' = 512)
    \<and> map fst (ng_accepted ng')
        = map fst (ng_accepted ng) @ filter (\<lambda>k. options k \<noteq> None) [''blksize'']"
  using assms
  by (auto simp: negotiate_blksize_def Let_def split: option.splits if_splits)

lemma negotiate_timeout_frame:
  assumes "negotiate_timeout options ng = Inr ng'"
  shows "ng_block ng' = ng_block ng
    \<and> (\<forall>v. options ''timeout'' = Some v \<longrightarrow>
        (\<exists>s. atoi v = Some s \<and> 1 \<le> s \<and> s \<le> 255 \<and> ng_timeout ng' = s * 10 ^ 9))
    \<and> (options ''timeout'' = None \<longrightarrow> ng_timeout ng' = ng_timeout ng)
    \<and> map fst (ng_accepted ng')
        = map fst (ng_accepted ng) @ filter (\<lambda>k. options k \<noteq> None) [''timeout'']"
  using assms by (auto simp: negotiate_timeout_def split: option.splits if_splits)

lemma negotiate_tsize_frame:
  assumes "negotiate_tsize n options ng = Inr ng'"
  shows "ng_block ng' = ng_block ng \<and> ng_timeout ng' = ng_timeout ng
    \<and> map fst (ng_accepted ng')
        = map fst (ng_accepted ng) @ filter (\<lambda>k. options k \<noteq> None) [''tsize'']"
  using assms by (auto simp: negotiate_tsize_def split: option.splits if_splits)

text \<open>C15: under a configuration \<open>Listen\<close> accepts, a successful negotiation never yields a
  block size under 8 or over what the configuration (or the 512-byte default) allows, never one
  larger than the client asked for, a timeout of 1 to 255 seconds or the configured one, and
  acknowledges exactly the supported options the client sent, in a fixed order.\<close>

theorem negotiate_bounds:
  assumes "check_config cfg = None" and "negotiate cfg options fileSize = Inr ng"
  shows "8 \<le> ng_block ng \<and> ng_block ng \<le> 65464
    \<and> (\<forall>v. options ''blksize'' = Some v \<longrightarrow>
        (\<exists>r. atoi v = Some r \<and> ng_block ng = min r (tc_max_block cfg)))
    \<and> (options ''blksize'' = None \<longrightarrow> ng_block ng = 512)
    \<and> (ng_timeout ng = tc_timeout cfg \<or> (\<exists>s \<in> {1..255}. ng_timeout ng = s * 10 ^ 9))
    \<and> map fst (ng_accepted ng)
        = filter (\<lambda>k. options k \<noteq> None) [''blksize'', ''timeout'', ''tsize'']"
proof -
  let ?ng0 = "\<lparr>ng_accepted = [], ng_block = 512, ng_timeout = tc_timeout cfg\<rparr>"
  from assms(2) obtain ng1 ng2
    where 1: "negotiate_blksize cfg options ?ng0 = Inr ng1"
      and 2: "negotiate_timeout options ng1 = Inr ng2"
      and 3: "negotiate_tsize fileSize options ng2 = Inr ng"
    by (auto simp: negotiate_def split: sum.splits)
  from assms(1) have cfg: "8 \<le> tc_max_block cfg" "tc_max_block cfg \<le> 65464"
    by (auto simp: check_config_def split: if_splits)
  note b = negotiate_blksize_bounds [OF 1 cfg(1)] and t = negotiate_timeout_frame [OF 2]
    and z = negotiate_tsize_frame [OF 3]
  have accepted: "map fst (ng_accepted ng)
      = filter (\<lambda>k. options k \<noteq> None) [''blksize'', ''timeout'', ''tsize'']"
    using b t z
    by (cases "options ''blksize''"; cases "options ''timeout''"; cases "options ''tsize''") simp_all
  have timeout: "ng_timeout ng = tc_timeout cfg \<or> (\<exists>s \<in> {1..255}. ng_timeout ng = s * 10 ^ 9)"
    using b t z by (cases "options ''timeout''") auto
  have "max 512 (tc_max_block cfg) \<le> 65464"
    using cfg by simp
  then have "8 \<le> ng_block ng \<and> ng_block ng \<le> 65464"
    using b t z by (auto intro: order_trans)
  moreover have "(\<forall>v. options ''blksize'' = Some v \<longrightarrow>
        (\<exists>r. atoi v = Some r \<and> ng_block ng = min r (tc_max_block cfg)))
    \<and> (options ''blksize'' = None \<longrightarrow> ng_block ng = 512)"
    using b t z by simp
  ultimately show ?thesis
    using accepted timeout by simp
qed

lemma negotiate_bounds_witness:
  "\<exists>ng. negotiate default_config [''blksize'' \<mapsto> ''9000'', ''tsize'' \<mapsto> ''0''] 77 = Inr ng
    \<and> ng_block ng = 1468 \<and> map fst (ng_accepted ng) = [''blksize'', ''tsize'']"
proof -
  let ?opts = "[''blksize'' \<mapsto> ''9000'', ''tsize'' \<mapsto> ''0'']"
  have nine: "atoi ''9000'' = Some 9000" by code_simp
  have ok: "check_config default_config = None" by code_simp
  obtain ng where ng: "negotiate default_config ?opts 77 = Inr ng"
    by (simp add: negotiate_def negotiate_blksize_def negotiate_timeout_def negotiate_tsize_def
        nine default_config_def)
  show ?thesis
    using ng negotiate_bounds [OF ok ng] nine by (auto simp: default_config_def)
qed

subsection \<open>The acknowledged exchange\<close>

text \<open>What one attempt is worth, said without the loop: a datagram is skipped when it comes
  from another sender or is neither the expected acknowledgement nor an error; an attempt is
  quiet when everything it receives is skipped, and acknowledged when the first datagram that
  is not skipped is the acknowledgement.\<close>

fun skipped :: "peer \<Rightarrow> 16 word \<Rightarrow> recv \<Rightarrow> bool" where
  "skipped remote b (Datagram sender r) \<longleftrightarrow> sender \<noteq> remote \<or> (\<not> is_ack r b \<and> \<not> is_error r)"
| "skipped remote b _ \<longleftrightarrow> False"

definition can_send :: "attempt \<Rightarrow> bool" where
  "can_send a \<longleftrightarrow> \<not> at_ctx_done a \<and> \<not> at_send_fault a"

definition quiet :: "peer \<Rightarrow> 16 word \<Rightarrow> attempt \<Rightarrow> bool" where
  "quiet remote b a \<longleftrightarrow> can_send a \<and> (\<forall>d \<in> set (at_inbox a). skipped remote b d)"

definition acknowledged :: "peer \<Rightarrow> 16 word \<Rightarrow> attempt \<Rightarrow> bool" where
  "acknowledged remote b a \<longleftrightarrow> can_send a \<and>
     (\<exists>pre r post. at_inbox a = pre @ Datagram remote r # post \<and> is_ack r b
        \<and> (\<forall>d \<in> set pre. skipped remote b d))"

lemma same_peer: "(peer_ip s \<noteq> peer_ip r \<or> peer_port s \<noteq> peer_port r) \<longleftrightarrow> s \<noteq> (r :: peer)"
  by auto

lemma await_ack_Deadline:
  "await_ack remote b inbox = Deadline \<longleftrightarrow> (\<forall>d \<in> set inbox. skipped remote b d)"
  by (induction inbox rule: await_ack.induct [of _ remote b]) (auto simp: same_peer)

lemma await_ack_skip:
  "(\<forall>d \<in> set pre. skipped remote b d) \<Longrightarrow>
    await_ack remote b (pre @ rest) = await_ack remote b rest"
  by (induction pre rule: await_ack.induct [of _ remote b]) (auto simp: same_peer)

lemma await_ack_Acked:
  "await_ack remote b inbox = Acked \<longleftrightarrow>
     (\<exists>pre r post. inbox = pre @ Datagram remote r # post \<and> is_ack r b
        \<and> (\<forall>d \<in> set pre. skipped remote b d))" (is "?l inbox \<longleftrightarrow> ?r inbox")
proof
  assume acked: "?l inbox"
  then have "\<exists>d \<in> set inbox. \<not> skipped remote b d"
    using await_ack_Deadline [of remote b inbox] by auto
  then obtain pre d post where split: "inbox = pre @ d # post" "\<not> skipped remote b d"
      and pre: "\<forall>d \<in> set pre. skipped remote b d"
    using split_list_first_prop [of inbox "\<lambda>d. \<not> skipped remote b d"] by auto
  then have "await_ack remote b (d # post) = Acked"
    using acked by (simp add: await_ack_skip)
  then obtain r where "d = Datagram remote r" "is_ack r b"
    using split(2) by (cases d) (auto split: if_splits)
  with split pre show "?r inbox" by blast
next
  show "?r inbox \<Longrightarrow> ?l inbox" by (auto simp: await_ack_skip)
qed

lemma await_ack_not_timeout: "await_ack remote b inbox \<noteq> Broken (AckTimeout n)"
  by (induction inbox rule: await_ack.induct [of _ remote b]) auto

lemma quiet_iff:
  "quiet remote b a \<longleftrightarrow> can_send a \<and> await_ack remote b (at_inbox a) = Deadline"
  by (simp add: quiet_def await_ack_Deadline)

lemma acknowledged_iff:
  "acknowledged remote b a \<longleftrightarrow> can_send a \<and> await_ack remote b (at_inbox a) = Acked"
  by (simp add: acknowledged_def await_ack_Acked)

lemma exchange_loop_step:
  assumes "left < retries"
  shows "exchange_loop remote packet b net retries (Suc left) =
    (let a = net (retries - Suc left) in
     if quiet remote b a
     then (let (sent, r) = exchange_loop remote packet b net retries left in (packet # sent, r))
     else if acknowledged remote b a then ([packet], None)
     else if can_send a then ([packet], Some (case await_ack remote b (at_inbox a) of Broken e \<Rightarrow> e))
     else ([], Some (if at_ctx_done a then ContextDone else SendFault)))"
  by (auto simp: quiet_iff acknowledged_iff can_send_def Let_def split: wait_result.splits)

lemma exchange_loop_spec:
  assumes "left \<le> retries"
    and "exchange_loop remote packet b net retries left = (sent, err)"
  shows "set sent \<subseteq> {packet} \<and> length sent \<le> left
    \<and> (err = None \<longleftrightarrow> (\<exists>k<left. (\<forall>j<k. quiet remote b (net (retries - left + j)))
          \<and> acknowledged remote b (net (retries - left + k)) \<and> length sent = Suc k))
    \<and> (err = Some (AckTimeout retries) \<longleftrightarrow> (\<forall>j<left. quiet remote b (net (retries - left + j))))"
  using assms
proof (induction left arbitrary: sent err)
  case (Suc left)
  let ?a = "net (retries - Suc left)"
  have exclusive: "quiet remote b a \<Longrightarrow> \<not> acknowledged remote b a" for a
    by (simp add: quiet_iff acknowledged_iff)
  from Suc.prems(1) have shift: "retries - left + j = retries - Suc left + Suc j" for j
    by simp
  note step = exchange_loop_step [of left retries remote packet b net]
  show ?case
  proof (cases "quiet remote b ?a")
    case True
    obtain sent' where rec: "exchange_loop remote packet b net retries left = (sent', err)"
      and sent: "sent = packet # sent'"
      using Suc.prems step True by (auto simp: Let_def split: prod.splits)
    have "(\<exists>k<Suc left. (\<forall>j<k. quiet remote b (net (retries - Suc left + j)))
          \<and> acknowledged remote b (net (retries - Suc left + k)) \<and> length sent = Suc k)
      \<longleftrightarrow> (\<exists>k<left. (\<forall>j<k. quiet remote b (net (retries - left + j)))
          \<and> acknowledged remote b (net (retries - left + k)) \<and> length sent' = Suc k)"
      using True exclusive [OF True] sent
      by (simp add: Ex_less_Suc2 All_less_Suc2 shift)
    moreover have "(\<forall>j<Suc left. quiet remote b (net (retries - Suc left + j)))
      \<longleftrightarrow> (\<forall>j<left. quiet remote b (net (retries - left + j)))"
      using True by (simp add: All_less_Suc2 shift)
    ultimately show ?thesis
      using Suc.IH [OF _ rec] Suc.prems(1) sent by simp
  next
    case False
    have first: "(\<exists>k<Suc left. (\<forall>j<k. quiet remote b (net (retries - Suc left + j)))
          \<and> acknowledged remote b (net (retries - Suc left + k)) \<and> length sent = Suc k)
      \<longleftrightarrow> acknowledged remote b ?a \<and> length sent = 1"
      using False by (auto simp: Ex_less_Suc2 All_less_Suc2)
    have no_timeout: "(case await_ack remote b (at_inbox ?a) of Broken e \<Rightarrow> e) \<noteq> AckTimeout retries"
      if "can_send ?a" "\<not> acknowledged remote b ?a"
      using that False await_ack_not_timeout [of remote b "at_inbox ?a"]
      by (auto simp: quiet_iff acknowledged_iff split: wait_result.splits)
    have "\<not> (\<forall>j<Suc left. quiet remote b (net (retries - Suc left + j)))"
      using False by (auto simp: All_less_Suc2)
    then show ?thesis
      unfolding first
      using Suc.prems step False no_timeout by (auto simp: Let_def split: if_splits)
  qed
qed auto

text \<open>C16: the exchange of one packet sends only that packet, at most as often as there are
  retries; it succeeds exactly when some attempt before which every attempt stayed quiet is
  acknowledged by the client itself with the expected block number, and it reports a timeout
  exactly when every attempt stayed quiet.\<close>

theorem exchange_spec:
  assumes "exchange remote packet b retries net = (sent, err)"
  shows "set sent \<subseteq> {packet} \<and> length sent \<le> retries
    \<and> (err = None \<longleftrightarrow> (\<exists>k<retries. (\<forall>j<k. quiet remote b (net j))
          \<and> acknowledged remote b (net k) \<and> length sent = Suc k))
    \<and> (err = Some (AckTimeout retries) \<longleftrightarrow> (\<forall>j<retries. quiet remote b (net j)))"
  using exchange_loop_spec [of retries retries remote packet b net sent err] assms
  by (simp add: exchange_def)

lemma exchange_spec_witness:
  "\<exists>sent. exchange \<lparr>peer_ip = 7, peer_port = 9\<rparr> [0, 3, 0, 1, 65] 1 3
      (\<lambda>k. \<lparr>at_ctx_done = False, at_send_fault = False,
         at_inbox = (if k = 0 then [Datagram \<lparr>peer_ip = 8, peer_port = 9\<rparr> [0, 4, 0, 1]]
           else [Datagram \<lparr>peer_ip = 7, peer_port = 9\<rparr> [0, 4, 0, 0],
                 Datagram \<lparr>peer_ip = 7, peer_port = 9\<rparr> [0, 4, 0, 1]])\<rparr>) = (sent, None)
    \<and> length sent = 2 \<and> set sent \<subseteq> {[0, 3, 0, 1, 65]}"
proof -
  let ?p = "\<lparr>peer_ip = 7, peer_port = 9\<rparr>"
  let ?net = "\<lambda>k. \<lparr>at_ctx_done = False, at_send_fault = False,
         at_inbox = (if k = 0 then [Datagram \<lparr>peer_ip = 8, peer_port = 9\<rparr> [0, 4, 0, 1]]
           else [Datagram ?p [0, 4, 0, 0], Datagram ?p [0, 4, 0, 1]])\<rparr> :: attempt"
  have "exchange ?p [0, 3, 0, 1, 65] 1 3 ?net = ([[0, 3, 0, 1, 65], [0, 3, 0, 1, 65]], None)"
    by code_simp
  with exchange_spec [OF this] show ?thesis by simp
qed

lemma exchange_sent_success:
  assumes "exchange remote packet b retries net = (sent, None)"
  shows "\<exists>k. sent = replicate (Suc k) packet"
proof -
  have "set sent \<subseteq> {packet}" and "\<exists>k. length sent = Suc k"
    using exchange_loop_spec [of retries retries remote packet b net sent None] assms
    by (auto simp: exchange_def)
  then show ?thesis
    by (metis replicate_length_same singletonD subsetD)
qed

lemma exchange_sent_replicate:
  assumes "exchange remote packet b retries net = (sent, err)"
  shows "\<exists>k. sent = replicate k packet"
proof -
  have "set sent \<subseteq> {packet}"
    using exchange_loop_spec [of retries retries remote packet b net sent err] assms
    by (auto simp: exchange_def)
  then show ?thesis
    by (metis replicate_length_same singletonD subsetD)
qed

subsection \<open>The transfer against a reference client\<close>

text \<open>A client of RFC 1350: it takes the data packet it expects next, appends the payload,
  stops at the first packet shorter than the block size, and drops everything else
  (retransmissions, option acknowledgements, errors).\<close>

record tftp_client =
  cl_next :: "16 word"
  cl_data :: "byte list"
  cl_done :: bool

definition client_start :: tftp_client where
  "client_start = \<lparr>cl_next = 1, cl_data = [], cl_done = False\<rparr>"

definition client_step :: "nat \<Rightarrow> byte list \<Rightarrow> tftp_client \<Rightarrow> tftp_client" where
  "client_step bs p cl =
     (if \<not> cl_done cl \<and> 4 \<le> length p \<and> get16 (p ! 0) (p ! 1) = opcodeDATA
         \<and> get16 (p ! 2) (p ! 3) = cl_next cl
      then \<lparr>cl_next = cl_next cl + 1, cl_data = cl_data cl @ drop 4 p,
             cl_done = (length (drop 4 p) < bs)\<rparr>
      else cl)"

fun packets_of :: "action list \<Rightarrow> byte list list" where
  "packets_of [] = []"
| "packets_of (Send p # acts) = p # packets_of acts"
| "packets_of (Emit e # acts) = packets_of acts"

definition client_run :: "nat \<Rightarrow> action list \<Rightarrow> tftp_client" where
  "client_run bs acts = fold (client_step bs) (packets_of acts) client_start"

lemma packets_of_append [simp]: "packets_of (xs @ ys) = packets_of xs @ packets_of ys"
  by (induction xs rule: packets_of.induct) auto

lemma packets_of_Send [simp]: "packets_of (map Send ps) = ps"
  by (induction ps) auto

lemma packets_of_emit [simp]: "packets_of [emit_event f r n st] = []"
  by (simp add: emit_event_def)

lemma put16_bytes: "get16 (put16 w ! 0) (put16 w ! Suc 0) = w"
  by (rule opcode_put16)

lemma dataPacket_fields:
  "4 \<le> length (dataPacket b d)" "get16 (dataPacket b d ! 0) (dataPacket b d ! 1) = opcodeDATA"
  "get16 (dataPacket b d ! 2) (dataPacket b d ! 3) = b" "drop 4 (dataPacket b d) = d"
  "length (dataPacket b d) = length d + 4"
  by (simp_all add: dataPacket_def put16_def get16_put16 numeral_2_eq_2 numeral_3_eq_3)

lemma client_step_data:
  "client_step bs (dataPacket b d) cl =
     (if \<not> cl_done cl \<and> b = cl_next cl
      then \<lparr>cl_next = b + 1, cl_data = cl_data cl @ d, cl_done = (length d < bs)\<rparr> else cl)"
  using dataPacket_fields [of b d] by (auto simp: client_step_def)

lemma client_fold_data:
  "fold (client_step bs) (replicate (Suc k) (dataPacket b d))
     \<lparr>cl_next = b, cl_data = got, cl_done = False\<rparr>
   = \<lparr>cl_next = b + 1, cl_data = got @ d, cl_done = (length d < bs)\<rparr>"
proof -
  let ?cl = "\<lparr>cl_next = b + 1, cl_data = got @ d, cl_done = (length d < bs)\<rparr>"
  have "fold (client_step bs) (replicate k (dataPacket b d)) ?cl = ?cl"
    by (induction k) (simp_all add: client_step_data)
  then show ?thesis by (simp add: client_step_data)
qed

lemma send_blocks_run:
  assumes "0 < tr_block tr"
  shows "\<exists>pkts n st. send_blocks tr i block rest transferred
        = Some (map Send pkts @ [emit_event (tr_file tr) (tr_remote tr) n st])
      \<and> st \<noteq> Started
      \<and> (\<exists>part. cl_data (fold (client_step (tr_block tr)) pkts
                  \<lparr>cl_next = block, cl_data = got, cl_done = False\<rparr>) = got @ part
            \<and> prefix part rest \<and> transferred \<le> n \<and> n \<le> transferred + int (length part)
            \<and> (st = Completed \<longrightarrow> part = rest \<and> n = transferred + int (length rest)
                \<and> cl_done (fold (client_step (tr_block tr)) pkts
                     \<lparr>cl_next = block, cl_data = got, cl_done = False\<rparr>)))"
proof (induction "length rest" arbitrary: i block rest transferred got rule: less_induct)
  case less
  let ?cl = "\<lparr>cl_next = block, cl_data = got, cl_done = False\<rparr>"
  let ?chunk = "take (tr_block tr) rest"
  let ?fold = "fold (client_step (tr_block tr))"
  obtain sent err where ex: "exchange (tr_remote tr) (dataPacket block ?chunk) block
      (tr_retries tr) (te_data_net (tr_env tr) i) = (sent, err)"
    by fastforce
  note unfold = send_blocks.simps [of tr i block rest transferred]
  consider (early) "te_ctx_done (tr_env tr) i \<or> te_read_fault (tr_env tr) i"
    | (broken) e where "\<not> te_ctx_done (tr_env tr) i" "\<not> te_read_fault (tr_env tr) i" "err = Some e"
    | (last) "\<not> te_ctx_done (tr_env tr) i" "\<not> te_read_fault (tr_env tr) i" "err = None"
        "length ?chunk < tr_block tr"
    | (more) "\<not> te_ctx_done (tr_env tr) i" "\<not> te_read_fault (tr_env tr) i" "err = None"
        "\<not> length ?chunk < tr_block tr"
    by (cases err) auto
  then show ?case
  proof cases
    case early
    then show ?thesis
      by (subst unfold) (force simp: Let_def intro: exI [of _ "[]"])
  next
    case broken
    obtain k where k: "sent = replicate k (dataPacket block ?chunk)"
      using exchange_sent_replicate [OF ex] by blast
    obtain part where part: "cl_data (?fold sent ?cl) = got @ part" "prefix part rest"
    proof (cases k)
      case 0
      with k show ?thesis by (intro that [of "[]"]) simp_all
    next
      case (Suc m)
      with k client_fold_data [of "tr_block tr" m block ?chunk got] show ?thesis
        by (intro that [of ?chunk]) (simp_all add: take_is_prefix)
    qed
    have "send_blocks tr i block rest transferred = Some (map Send sent
        @ [emit_event (tr_file tr) (tr_remote tr) transferred (Failed (Exchange e))])"
      using broken ex by (subst unfold) (simp add: Let_def)
    with part show ?thesis
      by (intro exI [of _ sent] exI [of _ transferred] exI [of _ "Failed (Exchange e)"] conjI
          exI [of _ part]) simp_all
  next
    case last
    obtain k where k: "sent = replicate (Suc k) (dataPacket block ?chunk)"
      using exchange_sent_success [of "tr_remote tr" "dataPacket block ?chunk" block] ex last by blast
    have whole: "?chunk = rest" using last by auto
    have run: "?fold sent ?cl = \<lparr>cl_next = block + 1, cl_data = got @ rest, cl_done = True\<rparr>"
      using client_fold_data [of "tr_block tr" k block ?chunk got] k whole last by simp
    have "send_blocks tr i block rest transferred = Some (map Send sent
        @ [emit_event (tr_file tr) (tr_remote tr) (transferred + int (length rest)) Completed])"
      using last ex whole by (subst unfold) (simp add: Let_def)
    then show ?thesis
      unfolding run [symmetric] using run
      by (intro exI [of _ sent] exI [of _ "transferred + int (length rest)"] exI [of _ Completed]
          conjI exI [of _ rest]) simp_all
  next
    case more
    let ?rest = "drop (tr_block tr) rest"
    obtain k where k: "sent = replicate (Suc k) (dataPacket block ?chunk)"
      using exchange_sent_success [of "tr_remote tr" "dataPacket block ?chunk" block] ex more by blast
    have len: "length ?chunk = tr_block tr" using more by auto
    then have "length ?rest < length rest" using assms more by auto
    from less [OF this, of "Suc i" "block + 1" "transferred + int (length ?chunk)" "got @ ?chunk"]
    obtain pkts n st part where
        rec: "send_blocks tr (Suc i) (block + 1) ?rest (transferred + int (length ?chunk))
          = Some (map Send pkts @ [emit_event (tr_file tr) (tr_remote tr) n st])" "st \<noteq> Started"
      and data: "cl_data (?fold pkts \<lparr>cl_next = block + 1, cl_data = got @ ?chunk, cl_done = False\<rparr>)
          = (got @ ?chunk) @ part" "prefix part ?rest"
        "transferred + int (length ?chunk) \<le> n"
        "n \<le> transferred + int (length ?chunk) + int (length part)"
      and fin: "st = Completed \<longrightarrow> part = ?rest
          \<and> n = transferred + int (length ?chunk) + int (length ?rest)
          \<and> cl_done (?fold pkts \<lparr>cl_next = block + 1, cl_data = got @ ?chunk, cl_done = False\<rparr>)"
      by blast
    have run: "?fold (sent @ pkts) ?cl
        = ?fold pkts \<lparr>cl_next = block + 1, cl_data = got @ ?chunk, cl_done = False\<rparr>"
      using client_fold_data [of "tr_block tr" k block ?chunk got] more k by simp
    have res: "send_blocks tr i block rest transferred
        = Some (map Send (sent @ pkts) @ [emit_event (tr_file tr) (tr_remote tr) n st])"
      using more ex rec by (subst unfold) (simp add: Let_def)
    have "prefix (?chunk @ part) rest"
      using data(2) append_take_drop_id [of "tr_block tr" rest]
      by (metis same_prefix_prefix)
    moreover have "st = Completed \<longrightarrow> ?chunk @ part = rest \<and> n = transferred + int (length rest)"
      using fin len by auto
    ultimately show ?thesis
      using res rec(2) run data fin
      by (intro exI [of _ "sent @ pkts"] exI [of _ n] exI [of _ st] conjI exI [of _ "?chunk @ part"])
        simp_all
  qed
qed

lemma negotiate_block_pos:
  assumes "check_config cfg = None" and "negotiate cfg options n = Inr ng"
  shows "8 \<le> ng_block ng"
proof -
  from assms(1) have "8 \<le> tc_max_block cfg"
    by (auto simp: check_config_def split: if_splits)
  moreover obtain ng1 ng2
    where "negotiate_blksize cfg options
        \<lparr>ng_accepted = [], ng_block = 512, ng_timeout = tc_timeout cfg\<rparr> = Inr ng1"
      and "negotiate_timeout options ng1 = Inr ng2" and "negotiate_tsize n options ng2 = Inr ng"
    using assms(2) by (auto simp: negotiate_def split: sum.splits)
  ultimately show ?thesis
    using negotiate_blksize_bounds negotiate_timeout_frame negotiate_tsize_frame
    by (metis negotiated.select_convs(2))
qed

lemma oack_ignored:
  "cl_next cl \<noteq> 0 \<Longrightarrow> fold (client_step bs) (replicate k (optionAckPacket opts)) cl = cl"
proof -
  have "get16 (optionAckPacket opts ! 0) (optionAckPacket opts ! 1) \<noteq> opcodeDATA"
    by (simp add: optionAckPacket_def get16_def opcodeDATA_def)
  then have "client_step bs (optionAckPacket opts) cl = cl"
    by (simp add: client_step_def)
  then show ?thesis by (induction k) auto
qed

text \<open>The request gets as far as its first packet.\<close>

definition ready :: "tftp_config \<Rightarrow> string \<Rightarrow> transfer_env \<Rightarrow> request \<Rightarrow> byte list \<Rightarrow> negotiated \<Rightarrow> bool"
where
  "ready cfg root env req content ng \<longleftrightarrow>
     te_lstat env (join_path root (req_filename req)) = Regular content
     \<and> \<not> te_open_fault env \<and> \<not> te_socket_fault env
     \<and> negotiate cfg (req_options req) (int (length content)) = Inr ng"

definition trace_of :: "request \<Rightarrow> peer \<Rightarrow> byte list list \<Rightarrow> int \<Rightarrow> status \<Rightarrow> action list" where
  "trace_of req remote pkts n st = emit_event (req_filename req) remote 0 Started # map Send pkts
     @ [emit_event (req_filename req) remote n st]"

lemma transferFailure_trace:
  "\<exists>pkts. [emit_event (req_filename req) remote 0 Started]
     @ transferFailure env (req_filename req) remote code msg cause
   = trace_of req remote pkts 0 (Failed cause)"
proof (cases "te_socket_fault env")
  case True
  then show ?thesis
    by (intro exI [of _ "[]"]) (simp add: transferFailure_def trace_of_def)
next
  case False
  then show ?thesis
    by (intro exI [of _ "[errorPacket code msg]"]) (simp add: transferFailure_def trace_of_def)
qed

lemma serveRequest_refused:
  assumes "\<And>content ng. \<not> ready cfg root env req content ng"
  shows "\<exists>pkts cause. serveRequest text_of cfg root env remote req
      = Some (trace_of req remote pkts 0 (Failed cause))"
proof (cases "te_lstat env (join_path root (req_filename req))")
  case Missing
  then show ?thesis
    using transferFailure_trace [of req remote env] by (simp add: serveRequest_def Let_def) blast
next
  case Special
  then show ?thesis
    using transferFailure_trace [of req remote env] by (simp add: serveRequest_def Let_def) blast
next
  case (Regular content)
  consider (cannot_open) "te_open_fault env" | (sock) "\<not> te_open_fault env" "te_socket_fault env"
    | (opts) e where "\<not> te_open_fault env" "\<not> te_socket_fault env"
        "negotiate cfg (req_options req) (int (length content)) = Inl e"
    using assms [of content] Regular
    by (cases "negotiate cfg (req_options req) (int (length content))") (auto simp: ready_def)
  then show ?thesis
  proof cases
    case cannot_open
    with Regular show ?thesis
      using transferFailure_trace [of req remote env] by (simp add: serveRequest_def Let_def) blast
  next
    case sock
    with Regular show ?thesis
      by (intro exI [of _ "[]"] exI [of _ NoSocket]) (simp add: serveRequest_def trace_of_def Let_def)
  next
    case opts
    with Regular show ?thesis
      by (intro exI [of _ "[errorPacket errorOption (text_of e)]"] exI [of _ "Negotiation e"])
        (simp add: serveRequest_def trace_of_def Let_def)
  qed
qed

lemma serveRequest_ready:
  assumes cfg: "check_config cfg = None" and ready: "ready cfg root env req content ng"
  shows "\<exists>pkts n st. serveRequest text_of cfg root env remote req
      = Some (trace_of req remote pkts n st) \<and> st \<noteq> Started
    \<and> (let cl = fold (client_step (nat (ng_block ng))) pkts client_start in
         prefix (cl_data cl) content \<and> 0 \<le> n \<and> n \<le> int (length (cl_data cl))
         \<and> (st = Completed \<longrightarrow> cl_data cl = content \<and> n = int (length content) \<and> cl_done cl))"
proof -
  define tr where "tr = \<lparr>tr_remote = remote, tr_file = req_filename req,
    tr_block = nat (ng_block ng), tr_retries = nat (tc_retries cfg), tr_env = env\<rparr>"
  define first where "first = (if ng_accepted ng = [] then ([], None)
    else exchange remote (optionAckPacket (ng_accepted ng)) 0 (tr_retries tr) (te_oack_net env))"
  have ng: "8 \<le> ng_block ng"
    using negotiate_block_pos cfg ready by (auto simp: ready_def)
  obtain sent err where first_eq: "first = (sent, err)" by (cases first)
  then have run: "serveRequest text_of cfg root env remote req = (case err of
      Some e \<Rightarrow> Some (trace_of req remote sent 0 (Failed (Exchange e)))
    | None \<Rightarrow> Option.bind (send_blocks tr 0 1 content 0)
        (\<lambda>outs. Some ([emit_event (req_filename req) remote 0 Started] @ map Send sent @ outs)))"
    using ready unfolding serveRequest_def ready_def first_def tr_def trace_of_def
    by (simp add: Let_def split: option.splits)
  have quiet_client: "fold (client_step (nat (ng_block ng))) sent client_start = client_start"
  proof (cases "ng_accepted ng = []")
    case True
    with first_eq show ?thesis by (simp add: first_def)
  next
    case False
    then obtain k where "sent = replicate k (optionAckPacket (ng_accepted ng))"
      using first_eq exchange_sent_replicate by (fastforce simp: first_def)
    then show ?thesis
      using oack_ignored [of client_start "nat (ng_block ng)" k "ng_accepted ng"]
      by (simp add: client_start_def)
  qed
  show ?thesis
  proof (cases err)
    case None
    have "0 < tr_block tr" using ng by (simp add: tr_def)
    from send_blocks_run [OF this, of 0 1 content 0 "[]"]
    obtain pkts n st where blocks: "send_blocks tr 0 1 content 0
          = Some (map Send pkts @ [emit_event (req_filename req) remote n st])" "st \<noteq> Started"
      and data: "let cl = fold (client_step (nat (ng_block ng))) pkts client_start in
         prefix (cl_data cl) content \<and> 0 \<le> n \<and> n \<le> int (length (cl_data cl))
         \<and> (st = Completed \<longrightarrow> cl_data cl = content \<and> n = int (length content) \<and> cl_done cl)"
      by (auto simp: tr_def client_start_def Let_def)
    have "serveRequest text_of cfg root env remote req
        = Some (trace_of req remote (sent @ pkts) n st)"
      using run None blocks by (simp add: trace_of_def)
    with blocks(2) data quiet_client show ?thesis
      by (intro exI [of _ "sent @ pkts"] exI [of _ n] exI [of _ st]) (simp add: Let_def)
  next
    case (Some e)
    with run quiet_client show ?thesis
      by (intro exI [of _ sent] exI [of _ 0] exI [of _ "Failed (Exchange e)"])
        (simp add: client_start_def Let_def)
  qed
qed



text \<open>C2: the client of RFC 1350 that sees the packets of a transfer, every retransmission
  included, ends with exactly the bytes of the file when the server reports the transfer as
  completed, for files of any length (the block number wraps after 65535 blocks); otherwise it
  holds a prefix of the file, and the server never reports more bytes than were delivered.\<close>

theorem completed_transfer_delivers:
  assumes "check_config cfg = None" and "ready cfg root env req content ng"
    and "serveRequest text_of cfg root env remote req = Some (start # outs @ [Emit final])"
  shows "prefix (cl_data (client_run (nat (ng_block ng)) outs)) content
    \<and> 0 \<le> ev_bytes final
    \<and> ev_bytes final \<le> int (length (cl_data (client_run (nat (ng_block ng)) outs)))
    \<and> (ev_status final = Completed \<longrightarrow>
        client_run (nat (ng_block ng)) outs
          = \<lparr>cl_next = cl_next (client_run (nat (ng_block ng)) outs), cl_data = content,
             cl_done = True\<rparr>
        \<and> ev_bytes final = int (length content))"
proof -
  obtain pkts n st where run: "serveRequest text_of cfg root env remote req
      = Some (trace_of req remote pkts n st)"
    and data: "let cl = fold (client_step (nat (ng_block ng))) pkts client_start in
         prefix (cl_data cl) content \<and> 0 \<le> n \<and> n \<le> int (length (cl_data cl))
         \<and> (st = Completed \<longrightarrow> cl_data cl = content \<and> n = int (length content) \<and> cl_done cl)"
    using serveRequest_ready [OF assms(1,2)] by blast
  from run assms(3) have "outs = map Send pkts" and "ev_bytes final = n" and "ev_status final = st"
    by (auto simp: trace_of_def emit_event_def)
  moreover have "client_run (nat (ng_block ng)) (map Send pkts)
      = fold (client_step (nat (ng_block ng))) pkts client_start"
    by (simp add: client_run_def)
  ultimately show ?thesis using data by (auto simp: Let_def)
qed

lemma completed_transfer_delivers_witness:
  "client_run 8 [Send [0, 6, 98, 108, 107, 115, 105, 122, 101, 0, 56, 0],
       Send [0, 3, 0, 1, 1, 2, 3, 4, 5, 6, 7, 8], Send [0, 3, 0, 2, 9]]
     = \<lparr>cl_next = 3, cl_data = [1, 2, 3, 4, 5, 6, 7, 8, 9], cl_done = True\<rparr>"
proof -
  let ?p = "\<lparr>peer_ip = 7, peer_port = 9\<rparr>"
  let ?ok = "\<lambda>b. \<lparr>at_ctx_done = False, at_send_fault = False,
      at_inbox = [Datagram ?p [0, 4, 0, b]]\<rparr> :: attempt"
  let ?env = "\<lparr>te_lstat = (\<lambda>_. Regular [1, 2, 3, 4, 5, 6, 7, 8, 9]), te_open_fault = False,
      te_socket_fault = False, te_oack_net = (\<lambda>_. ?ok 0),
      te_data_net = (\<lambda>i _. if i = 0 then ?ok 1 else ?ok 2),
      te_ctx_done = (\<lambda>_. False), te_read_fault = (\<lambda>_. False)\<rparr> :: transfer_env"
  let ?req = "\<lparr>req_filename = ''f'', req_options = [''blksize'' \<mapsto> ''8'']\<rparr>"
  let ?ng = "\<lparr>ng_accepted = [(''blksize'', ''8'')], ng_block = 8, ng_timeout = 3 * 10 ^ 9\<rparr>"
  have cfg: "check_config default_config = None" by code_simp
  have ng: "negotiate default_config (req_options ?req) 9 = Inr ?ng" by code_simp
  then have ready: "ready default_config ''/srv'' ?env ?req [1, 2, 3, 4, 5, 6, 7, 8, 9] ?ng"
    by (simp add: ready_def)
  have "serveRequest (\<lambda>_. '''') default_config ''/srv'' ?env ?p ?req
    = Some (emit_event ''f'' ?p 0 Started
        # [Send [0, 6, 98, 108, 107, 115, 105, 122, 101, 0, 56, 0],
           Send [0, 3, 0, 1, 1, 2, 3, 4, 5, 6, 7, 8], Send [0, 3, 0, 2, 9]]
        @ [Emit \<lparr>ev_filename = ''f'', ev_remote = ?p, ev_bytes = 9, ev_status = Completed\<rparr>])"
    by code_simp
  from completed_transfer_delivers [OF cfg ready this]
  have "client_run 8 [Send [0, 6, 98, 108, 107, 115, 105, 122, 101, 0, 56, 0],
       Send [0, 3, 0, 1, 1, 2, 3, 4, 5, 6, 7, 8], Send [0, 3, 0, 2, 9]]
    = \<lparr>cl_next = cl_next (client_run 8 [Send [0, 6, 98, 108, 107, 115, 105, 122, 101, 0, 56, 0],
       Send [0, 3, 0, 1, 1, 2, 3, 4, 5, 6, 7, 8], Send [0, 3, 0, 2, 9]]),
       cl_data = [1, 2, 3, 4, 5, 6, 7, 8, 9], cl_done = True\<rparr>"
    by simp
  moreover have "cl_next (client_run 8 [Send [0, 6, 98, 108, 107, 115, 105, 122, 101, 0, 56, 0],
       Send [0, 3, 0, 1, 1, 2, 3, 4, 5, 6, 7, 8], Send [0, 3, 0, 2, 9]]) = 3"
    by code_simp
  ultimately show ?thesis by simp
qed

end
