(* ===== verification/Manifest.thy ===== *)
theory Manifest
  imports Paths
begin

text \<open>
  The artifact manifest (\<open>internal/artifact/manifest.go\<close>): the structures, the decoder as
  \<open>encoding/json\<close> drives it, the duplicate-key walk over the token stream, \<open>Validate\<close> and
  \<open>ValidatePayload\<close>.

  A Go map is an association list: its order is the order one iteration happens to take, so a
  statement for every list is a statement for every iteration order.  The parameter
  \<open>parse_json\<close> turns the bytes of a document into its syntax tree, \<open>None\<close> for a text that is not
  exactly one JSON value; what \<open>encoding/json\<close> does with the tree (case-insensitive field names,
  \<open>null\<close>, type errors, unknown fields) is written out.
\<close>

subsection \<open>Data\<close>

definition SchemaName :: string where "SchemaName = ''mnc-station-artifact''"
definition FormatVersion :: int where "FormatVersion = 2"
definition ManifestName :: string where "ManifestName = ''manifest.json''"
definition SignatureName :: string where "SignatureName = ''manifest.sig''"
definition ManifestMaxBytes :: int where "ManifestMaxBytes = 2 ^ 20"

record artifact_metadata =
  am_name :: string
  am_vendor :: string
  am_operation :: string
  am_product :: string
  am_machine :: string
  am_version :: string
  am_build_id :: string
  am_created_utc :: string

record executor_metadata =
  xm_type :: string
  xm_entrypoint :: string
  xm_tftp_root :: string

record file_descriptor =
  fd_size :: int
  fd_sha256 :: string
  fd_mode :: string

record manifest =
  mf_schema :: string
  mf_format_version :: int
  mf_artifact :: artifact_metadata
  mf_executor :: executor_metadata
  mf_files :: "(string \<times> file_descriptor) list"

text \<open>\<open>ActualFile\<close> has the fields of \<open>FileDescriptor\<close>.\<close>

type_synonym actual_file = file_descriptor

definition empty_manifest :: manifest where
  "empty_manifest = \<lparr>mf_schema = [], mf_format_version = 0,
     mf_artifact = \<lparr>am_name = [], am_vendor = [], am_operation = [], am_product = [],
       am_machine = [], am_version = [], am_build_id = [], am_created_utc = []\<rparr>,
     mf_executor = \<lparr>xm_type = [], xm_entrypoint = [], xm_tftp_root = []\<rparr>, mf_files = []\<rparr>"

subsection \<open>Patterns\<close>

definition is_letter :: "char \<Rightarrow> bool" where
  "is_letter c \<longleftrightarrow> (let n = (of_char c :: nat) in (65 \<le> n \<and> n \<le> 90) \<or> (97 \<le> n \<and> n \<le> 122))"

definition identifierPattern :: "string \<Rightarrow> bool" where
  "identifierPattern s \<longleftrightarrow> (case s of [] \<Rightarrow> False
     | c # cs \<Rightarrow> (is_letter c \<or> is_digit c)
         \<and> list_all (\<lambda>d. is_letter d \<or> is_digit d \<or> d \<in> set ''._+-'') cs)"

definition is_lower_hex :: "char \<Rightarrow> bool" where
  "is_lower_hex c \<longleftrightarrow> is_digit c \<or> c \<in> set ''abcdef''"

definition sha256Pattern :: "string \<Rightarrow> bool" where
  "sha256Pattern s \<longleftrightarrow> length s = 64 \<and> list_all is_lower_hex s"

datatype path_error = PathEmpty | PathNotPortable string | PathControl string | PathComponent string

definition ValidateRelativePath :: "string \<Rightarrow> path_error option" where
  "ValidateRelativePath value = first_error
     [(value = [], PathEmpty),
      (prefix ''/'' value \<or> CHR 0x5C \<in> set value \<or> CHR '':'' \<in> set value, PathNotPortable value),
      (list_ex control_char value, PathControl value),
      (list_ex special_component (split_on slash value), PathComponent value)]"

lemma ValidateRelativePath_None:
  "ValidateRelativePath value = None \<longleftrightarrow>
     value \<noteq> [] \<and> \<not> prefix ''/'' value \<and> CHR 0x5C \<notin> set value \<and> CHR '':'' \<notin> set value
     \<and> (\<forall>c \<in> set value. \<not> control_char c)
     \<and> (\<forall>c \<in> set (split_on slash value). \<not> special_component c)"
  by (auto simp: ValidateRelativePath_def list_ex_iff)

interpretation artifact_path: path_validator "\<lambda>value. ValidateRelativePath value = None"
  by unfold_locales (auto simp: ValidateRelativePath_None)

datatype text_error = TextEmpty string | TextControl string

definition validateText :: "string \<Rightarrow> string \<Rightarrow> text_error option" where
  "validateText label value = first_error
     [(value = [], TextEmpty label), (list_ex control_char value, TextControl label)]"

subsection \<open>Time stamps\<close>

text \<open>\<open>time.Parse(time.RFC3339, s)\<close> restricted to texts ending in \<open>Z\<close>, which the caller also
  requires: a numeric zone cannot end in \<open>Z\<close>.  The general parser of the library, to which
  the strict one falls back, takes one or two digits for the hour and an optional fraction after
  a full stop or a comma.\<close>

fun two_digits :: "string \<Rightarrow> (nat \<times> string) option" where
  "two_digits (a # b # rest) =
     (if is_digit a \<and> is_digit b then Some (10 * digit_value a + digit_value b, rest) else None)"
| "two_digits _ = None"

fun hour_digits :: "string \<Rightarrow> (nat \<times> string) option" where
  "hour_digits (a # b # rest) =
     (if \<not> is_digit a then None
      else if is_digit b then Some (10 * digit_value a + digit_value b, rest)
      else Some (digit_value a, b # rest))"
| "hour_digits [a] = (if is_digit a then Some (digit_value a, []) else None)"
| "hour_digits [] = None"

definition four_digits :: "string \<Rightarrow> (nat \<times> string) option" where
  "four_digits s = (case two_digits s of None \<Rightarrow> None
     | Some (hi, rest) \<Rightarrow> (case two_digits rest of None \<Rightarrow> None
         | Some (lo, rest') \<Rightarrow> Some (100 * hi + lo, rest')))"

definition literal :: "char \<Rightarrow> string \<Rightarrow> string option" where
  "literal c s = (case s of [] \<Rightarrow> None | d # rest \<Rightarrow> if d = c then Some rest else None)"

definition fraction :: "string \<Rightarrow> string" where
  "fraction s = (case s of
       p # d # rest \<Rightarrow> (if (p = CHR ''.'' \<or> p = CHR '','') \<and> is_digit d
                      then dropWhile is_digit rest else s)
     | _ \<Rightarrow> s)"

definition leap_year :: "nat \<Rightarrow> bool" where
  "leap_year y \<longleftrightarrow> y mod 4 = 0 \<and> (y mod 100 \<noteq> 0 \<or> y mod 400 = 0)"

definition days_in :: "nat \<Rightarrow> nat \<Rightarrow> nat" where
  "days_in y m = (if m = 2 then (if leap_year y then 29 else 28)
     else if m \<in> {4, 6, 9, 11} then 30 else 31)"

record civil_time =
  ct_year :: nat
  ct_month :: nat
  ct_day :: nat
  ct_hour :: nat
  ct_minute :: nat
  ct_second :: nat

definition civil_ok :: "civil_time \<Rightarrow> bool" where
  "civil_ok t \<longleftrightarrow> 1 \<le> ct_month t \<and> ct_month t \<le> 12 \<and> 1 \<le> ct_day t
     \<and> ct_day t \<le> days_in (ct_year t) (ct_month t)
     \<and> ct_hour t < 24 \<and> ct_minute t < 60 \<and> ct_second t < 60"

definition parse_date :: "string \<Rightarrow> (nat \<times> nat \<times> nat \<times> string) option" where
  "parse_date s = Option.bind (four_digits s) (\<lambda>(y, s1).
     Option.bind (literal (CHR ''-'') s1) (\<lambda>s2.
     Option.bind (two_digits s2) (\<lambda>(mo, s3).
     Option.bind (literal (CHR ''-'') s3) (\<lambda>s4.
     Option.bind (two_digits s4) (\<lambda>(d, s5). Some (y, mo, d, s5))))))"

definition parse_clock :: "string \<Rightarrow> (nat \<times> nat \<times> nat \<times> string) option" where
  "parse_clock s = Option.bind (hour_digits s) (\<lambda>(h, s1).
     Option.bind (literal (CHR '':'') s1) (\<lambda>s2.
     Option.bind (two_digits s2) (\<lambda>(mi, s3).
     Option.bind (literal (CHR '':'') s3) (\<lambda>s4.
     Option.bind (two_digits s4) (\<lambda>(se, s5). Some (h, mi, se, fraction s5))))))"

definition parse_rfc3339_utc :: "string \<Rightarrow> civil_time option" where
  "parse_rfc3339_utc s = Option.bind (parse_date s) (\<lambda>(y, mo, d, s1).
     Option.bind (literal (CHR ''T'') s1) (\<lambda>s2.
     Option.bind (parse_clock s2) (\<lambda>(h, mi, se, s3).
       (let t = \<lparr>ct_year = y, ct_month = mo, ct_day = d, ct_hour = h, ct_minute = mi,
                 ct_second = se\<rparr>
        in if s3 = ''Z'' \<and> civil_ok t then Some t else None))))"

subsection \<open>Validate\<close>

datatype manifest_error =
    BadSchema string
  | BadFormatVersion int
  | BadIdentifier string string
  | BadText text_error
  | BadCreatedUTC
  | BadEntrypoint path_error
  | BadTFTPRoot path_error
  | NoFiles
  | ReservedPath string
  | BadPath string path_error
  | NegativeSize string
  | BadSHA256 string
  | BadMode string
  | EntrypointAbsent
  | EntrypointMode
  | TFTPRootEmpty

definition identifiers :: "manifest \<Rightarrow> (string \<times> string) list" where
  "identifiers m =
     [(''artifact.name'', am_name (mf_artifact m)),
      (''artifact.vendor'', am_vendor (mf_artifact m)),
      (''artifact.operation'', am_operation (mf_artifact m)),
      (''artifact.product'', am_product (mf_artifact m)),
      (''artifact.machine'', am_machine (mf_artifact m)),
      (''artifact.buildId'', am_build_id (mf_artifact m)),
      (''executor.type'', xm_type (mf_executor m))]"

definition check_file :: "string \<times> file_descriptor \<Rightarrow> manifest_error option" where
  "check_file pd = (case pd of (path, d) \<Rightarrow>
     if path = ManifestName \<or> path = SignatureName then Some (ReservedPath path)
     else (case ValidateRelativePath path of
       Some e \<Rightarrow> Some (BadPath path e)
     | None \<Rightarrow>
         if fd_size d < 0 then Some (NegativeSize path)
         else if \<not> sha256Pattern (fd_sha256 d) then Some (BadSHA256 path)
         else if fd_mode d \<noteq> ''0644'' \<and> fd_mode d \<noteq> ''0755'' then Some (BadMode path)
         else None))"

fun check_files :: "(string \<times> file_descriptor) list \<Rightarrow> manifest_error option" where
  "check_files [] = None"
| "check_files (pd # rest) = (case check_file pd of Some e \<Rightarrow> Some e | None \<Rightarrow> check_files rest)"

definition validate_metadata :: "manifest \<Rightarrow> manifest_error option" where
  "validate_metadata m =
     (if mf_schema m \<noteq> SchemaName then Some (BadSchema (mf_schema m))
      else if mf_format_version m \<noteq> FormatVersion then Some (BadFormatVersion (mf_format_version m))
      else (case first_error (map (\<lambda>(l, v). (\<not> identifierPattern v, BadIdentifier l v))
                 (identifiers m)) of
        Some e \<Rightarrow> Some e
      | None \<Rightarrow> (case validateText ''artifact.version'' (am_version (mf_artifact m)) of
          Some e \<Rightarrow> Some (BadText e)
        | None \<Rightarrow>
            if parse_rfc3339_utc (am_created_utc (mf_artifact m)) = None then Some BadCreatedUTC
            else (case ValidateRelativePath (xm_entrypoint (mf_executor m)) of
              Some e \<Rightarrow> Some (BadEntrypoint e)
            | None \<Rightarrow>
                if xm_tftp_root (mf_executor m) = [] then None
                else map_option BadTFTPRoot
                  (ValidateRelativePath (xm_tftp_root (mf_executor m)))))))"

definition validate_entrypoint :: "manifest \<Rightarrow> manifest_error option" where
  "validate_entrypoint m =
     (case map_of (mf_files m) (xm_entrypoint (mf_executor m)) of
        None \<Rightarrow> Some EntrypointAbsent
      | Some d \<Rightarrow>
          if fd_mode d \<noteq> ''0755'' then Some EntrypointMode
          else (let root = xm_tftp_root (mf_executor m) in
            if root \<noteq> [] \<and> \<not> list_ex (\<lambda>(path, _). prefix (root @ ''/'') path) (mf_files m)
            then Some TFTPRootEmpty else None))"

definition Validate :: "manifest \<Rightarrow> manifest_error option" where
  "Validate m = (case validate_metadata m of
       Some e \<Rightarrow> Some e
     | None \<Rightarrow>
         if mf_files m = [] then Some NoFiles
         else (case check_files (mf_files m) of
           Some e \<Rightarrow> Some e
         | None \<Rightarrow> validate_entrypoint m))"

lemma check_files_None: "check_files fs = None \<longleftrightarrow> (\<forall>pd \<in> set fs. check_file pd = None)"
  by (induction fs) (auto split: option.splits)

lemma check_file_None:
  "check_file (path, d) = None \<longleftrightarrow>
     path \<noteq> ManifestName \<and> path \<noteq> SignatureName \<and> ValidateRelativePath path = None
     \<and> 0 \<le> fd_size d \<and> sha256Pattern (fd_sha256 d) \<and> fd_mode d \<in> {''0644'', ''0755''}"
  by (auto simp: check_file_def split: option.splits)

lemma Validate_None:
  "Validate m = None \<longleftrightarrow> validate_metadata m = None \<and> mf_files m \<noteq> []
     \<and> (\<forall>pd \<in> set (mf_files m). check_file pd = None) \<and> validate_entrypoint m = None"
  by (auto simp: Validate_def check_files_None [symmetric] split: option.splits)

lemma validate_metadata_files: "validate_metadata (m\<lparr>mf_files := fs\<rparr>) = validate_metadata m"
  by (simp add: validate_metadata_def identifiers_def cong: if_cong option.case_cong)

text \<open>C18: whether a manifest is accepted does not depend on the order in which the iteration
  over its files happens to visit them.\<close>

theorem Validate_order_independent:
  assumes "distinct (map fst fs)" and "distinct (map fst fs')" and "set fs = set fs'"
  shows "(Validate (m\<lparr>mf_files := fs\<rparr>) = None) = (Validate (m\<lparr>mf_files := fs'\<rparr>) = None)"
proof -
  have "map_of fs = map_of fs'"
    using assms by (simp add: map_of_inject_set)
  then have "validate_entrypoint (m\<lparr>mf_files := fs\<rparr>) = None
      \<longleftrightarrow> validate_entrypoint (m\<lparr>mf_files := fs'\<rparr>) = None"
    using assms(3) by (simp add: validate_entrypoint_def Let_def list_ex_iff split: option.splits)
  moreover have "fs = [] \<longleftrightarrow> fs' = []"
    using assms(3) by (metis set_empty)
  ultimately show ?thesis
    using assms(3) by (simp add: Validate_None validate_metadata_files)
qed

text \<open>A manifest with two payload files, for the examples below.\<close>

definition sample_file :: "nat \<Rightarrow> string \<Rightarrow> file_descriptor" where
  "sample_file n mode = \<lparr>fd_size = int n, fd_sha256 = replicate 64 (CHR ''0''), fd_mode = mode\<rparr>"

definition sample_manifest :: manifest where
  "sample_manifest = \<lparr>mf_schema = ''mnc-station-artifact'', mf_format_version = 2,
     mf_artifact = \<lparr>am_name = ''fw'', am_vendor = ''mnc'', am_operation = ''flash'',
       am_product = ''board'', am_machine = ''zynq'', am_version = ''1.0'', am_build_id = ''b1'',
       am_created_utc = ''2026-02-28T09:00:00Z''\<rparr>,
     mf_executor = \<lparr>xm_type = ''xsdb'', xm_entrypoint = ''run.tcl'', xm_tftp_root = ''tftp''\<rparr>,
     mf_files = [(''run.tcl'', sample_file 1 ''0755''), (''tftp/boot.bin'', sample_file 2 ''0644'')]\<rparr>"

lemma Validate_order_independent_witness:
  "Validate sample_manifest = None
    \<and> Validate (sample_manifest\<lparr>mf_files := rev (mf_files sample_manifest)\<rparr>) = None"
proof -
  let ?fs = "mf_files sample_manifest"
  have valid: "Validate (sample_manifest\<lparr>mf_files := ?fs\<rparr>) = None"
    by code_simp
  have "distinct (map fst ?fs)" and "distinct (map fst (rev ?fs))" and "set ?fs = set (rev ?fs)"
    by (auto simp: sample_manifest_def)
  from Validate_order_independent [OF this, of sample_manifest] valid show ?thesis by simp
qed

subsection \<open>The payload\<close>

datatype payload_error =
    PayloadSet "string list" "string list"
  | PayloadSize string
  | PayloadSHA256 string
  | PayloadMode string

definition SortedPayloadPaths :: "manifest \<Rightarrow> string list" where
  "SortedPayloadPaths m = sort (map fst (mf_files m))"

definition payloadSetError :: "(string \<times> file_descriptor) list \<Rightarrow>
    (string \<times> actual_file) list \<Rightarrow> payload_error" where
  "payloadSetError expected actual = PayloadSet
     (sort (filter (\<lambda>p. map_of actual p = None) (map fst expected)))
     (sort (filter (\<lambda>p. map_of expected p = None) (map fst actual)))"

fun payload_files :: "(string \<times> file_descriptor) list \<Rightarrow> (string \<times> actual_file) list \<Rightarrow>
    (string \<times> file_descriptor) list \<Rightarrow> payload_error option" where
  "payload_files files actual [] = None"
| "payload_files files actual ((path, expected) # rest) =
     (case map_of actual path of
        None \<Rightarrow> Some (payloadSetError files actual)
      | Some observed \<Rightarrow>
          if fd_size observed \<noteq> fd_size expected then Some (PayloadSize path)
          else if fd_sha256 observed \<noteq> fd_sha256 expected then Some (PayloadSHA256 path)
          else if fd_mode observed \<noteq> fd_mode expected then Some (PayloadMode path)
          else payload_files files actual rest)"

definition ValidatePayload :: "manifest \<Rightarrow> (string \<times> actual_file) list \<Rightarrow> payload_error option" where
  "ValidatePayload m actual =
     (if length actual \<noteq> length (mf_files m) then Some (payloadSetError (mf_files m) actual)
      else payload_files (mf_files m) actual (mf_files m))"

lemma payload_files_None:
  "payload_files files actual rest = None
    \<longleftrightarrow> (\<forall>(path, d) \<in> set rest. map_of actual path = Some d)"
  by (induction files actual rest rule: payload_files.induct) (auto split: option.splits)

lemma same_length_sub_map:
  assumes "distinct (map fst xs)" and "distinct (map fst ys)" and "length xs = length ys"
    and "\<forall>(k, v) \<in> set xs. map_of ys k = Some v"
  shows "map_of xs = map_of ys"
proof -
  have "set xs \<subseteq> set ys"
    using assms(4) by (auto dest: map_of_SomeD)
  moreover have "card (set xs) = card (set ys)"
    using assms(1-3) by (metis distinct_card distinct_map)
  ultimately have "set xs = set ys"
    by (simp add: card_subset_eq)
  with assms(1,2) show ?thesis by (simp add: map_of_inject_set)
qed

lemma ValidatePayload_None:
  assumes "distinct (map fst (mf_files m))" and "distinct (map fst actual)"
  shows "ValidatePayload m actual = None \<longleftrightarrow> map_of actual = map_of (mf_files m)"
proof -
  let ?files = "mf_files m"
  have keys: "map_of actual = map_of ?files \<Longrightarrow> length actual = length ?files"
    using assms by (metis distinct_card distinct_map length_map map_of_inject_set)
  have "ValidatePayload m actual = None \<longleftrightarrow>
      length actual = length ?files \<and> (\<forall>(path, d) \<in> set ?files. map_of actual path = Some d)"
    by (auto simp: ValidatePayload_def payload_files_None)
  also have "\<dots> \<longleftrightarrow> map_of actual = map_of ?files"
    using same_length_sub_map [of ?files actual] assms keys by (auto simp: map_of_inject_set)
  finally show ?thesis .
qed

text \<open>The payload check accepts exactly when the files observed are the files of the
  manifest, each with its size, digest and mode; when only the sets of paths can be at fault the
  error names, sorted, the paths that are missing and the ones that are extra.\<close>

theorem ValidatePayload_spec:
  assumes "distinct (map fst (mf_files m))" and "distinct (map fst actual)"
  shows "(ValidatePayload m actual = None) = (map_of actual = map_of (mf_files m))
    \<and> (\<forall>missing extra. ValidatePayload m actual = Some (PayloadSet missing extra) \<longrightarrow>
        sorted missing \<and> sorted extra
        \<and> set missing = fst ` set (mf_files m) - fst ` set actual
        \<and> set extra = fst ` set actual - fst ` set (mf_files m)
        \<and> (missing \<noteq> [] \<or> extra \<noteq> []))"
proof -
  let ?files = "mf_files m"
  have missing_some: "payload_files ?files actual rest = Some (PayloadSet ms es) \<Longrightarrow>
      PayloadSet ms es = payloadSetError ?files actual
      \<and> (\<exists>p \<in> fst ` set rest. map_of actual p = None)" for rest ms es
    by (induction ?files actual rest rule: payload_files.induct)
      (auto split: option.splits if_splits)
  have sets: "set (filter (\<lambda>p. map_of ys p = None) (map fst xs)) = fst ` set xs - fst ` set ys"
    for xs ys :: "(string \<times> file_descriptor) list"
    by (auto simp: map_of_eq_None_iff)
  have "\<forall>ms es. ValidatePayload m actual = Some (PayloadSet ms es) \<longrightarrow>
      sorted ms \<and> sorted es \<and> set ms = fst ` set ?files - fst ` set actual
      \<and> set es = fst ` set actual - fst ` set ?files \<and> (ms \<noteq> [] \<or> es \<noteq> [])"
  proof (intro allI impI)
    fix ms es assume err: "ValidatePayload m actual = Some (PayloadSet ms es)"
    then have eq: "PayloadSet ms es = payloadSetError ?files actual"
      using missing_some by (auto simp: ValidatePayload_def split: if_splits)
    then have "set ms = fst ` set ?files - fst ` set actual"
      and "set es = fst ` set actual - fst ` set ?files" and "sorted ms" and "sorted es"
      using sets by (simp_all add: payloadSetError_def)
    moreover have "fst ` set ?files - fst ` set actual \<noteq> {} \<or> fst ` set actual - fst ` set ?files \<noteq> {}"
    proof (cases "length actual = length ?files")
      case True
      then have "\<exists>p \<in> fst ` set ?files. map_of actual p = None"
        using err missing_some [of ?files ms es] by (simp add: ValidatePayload_def)
      then show ?thesis by (auto simp: map_of_eq_None_iff)
    next
      case False
      then have "card (fst ` set actual) \<noteq> card (fst ` set ?files)"
        using assms by (metis distinct_card length_map list.set_map)
      then have "fst ` set actual \<noteq> fst ` set ?files" by auto
      then show ?thesis by auto
    qed
    ultimately show "sorted ms \<and> sorted es \<and> set ms = fst ` set ?files - fst ` set actual
        \<and> set es = fst ` set actual - fst ` set ?files \<and> (ms \<noteq> [] \<or> es \<noteq> [])"
      by auto
  qed
  with ValidatePayload_None [OF assms] show ?thesis by blast
qed

lemma ValidatePayload_spec_witness:
  "ValidatePayload sample_manifest (rev (mf_files sample_manifest)) = None"
proof -
  have "distinct (map fst (mf_files sample_manifest))"
    and "distinct (map fst (rev (mf_files sample_manifest)))"
    and "map_of (rev (mf_files sample_manifest)) = map_of (mf_files sample_manifest)"
    by (auto simp: sample_manifest_def fun_eq_iff)
  with ValidatePayload_spec [OF this(1,2)] show ?thesis by blast
qed

subsection \<open>Duplicate keys: the walk over the token stream\<close>

datatype json =
    JNull
  | JBool bool
  | JNum string
  | JStr string
  | JArr "json list"
  | JObj "(string \<times> json) list"

datatype token = OpenBrace | CloseBrace | OpenBracket | CloseBracket | Text string | Scalar | Bad

text \<open>What \<open>decoder.Token\<close> yields, token by token, for a value.\<close>

fun tokens :: "json \<Rightarrow> token list"
  and member_tokens :: "(string \<times> json) list \<Rightarrow> token list"
  and element_tokens :: "json list \<Rightarrow> token list" where
  "tokens JNull = [Scalar]"
| "tokens (JBool b) = [Scalar]"
| "tokens (JNum s) = [Scalar]"
| "tokens (JStr s) = [Text s]"
| "tokens (JArr vs) = OpenBracket # element_tokens vs @ [CloseBracket]"
| "tokens (JObj kvs) = OpenBrace # member_tokens kvs @ [CloseBrace]"
| "member_tokens [] = []"
| "member_tokens ((k, v) # kvs) = Text k # tokens v @ member_tokens kvs"
| "element_tokens [] = []"
| "element_tokens (v # vs) = tokens v @ element_tokens vs"

datatype walk_error = DecodeToken | KeyNotString | DuplicateKey string | UnexpectedDelim | TrailingData

datatype walk = Rest "token list" | Err walk_error | OutOfFuel

definition more :: "token list \<Rightarrow> bool" where
  "more ts \<longleftrightarrow> (case ts of [] \<Rightarrow> False | t # _ \<Rightarrow> t \<noteq> CloseBrace \<and> t \<noteq> CloseBracket)"

fun walkValue :: "nat \<Rightarrow> token list \<Rightarrow> walk"
  and walkObject :: "nat \<Rightarrow> string list \<Rightarrow> token list \<Rightarrow> walk"
  and walkArray :: "nat \<Rightarrow> token list \<Rightarrow> walk" where
  "walkValue 0 ts = OutOfFuel"
| "walkValue (Suc n) [] = Err DecodeToken"
| "walkValue (Suc n) (t # ts) = (case t of
     Bad \<Rightarrow> Err DecodeToken
   | Text _ \<Rightarrow> Rest ts
   | Scalar \<Rightarrow> Rest ts
   | OpenBrace \<Rightarrow> walkObject n [] ts
   | OpenBracket \<Rightarrow> walkArray n ts
   | _ \<Rightarrow> Err UnexpectedDelim)"
| "walkObject 0 seen ts = OutOfFuel"
| "walkObject (Suc n) seen ts =
     (if more ts
      then (case hd ts of
          Bad \<Rightarrow> Err DecodeToken
        | Text key \<Rightarrow>
            if key \<in> set seen then Err (DuplicateKey key)
            else (case walkValue n (tl ts) of
                Rest ts' \<Rightarrow> walkObject n (key # seen) ts'
              | stop \<Rightarrow> stop)
        | _ \<Rightarrow> Err KeyNotString)
      else if ts \<noteq> [] \<and> hd ts = CloseBrace then Rest (tl ts) else Err DecodeToken)"
| "walkArray 0 ts = OutOfFuel"
| "walkArray (Suc n) ts =
     (if more ts then (case walkValue n ts of Rest ts' \<Rightarrow> walkArray n ts' | stop \<Rightarrow> stop)
      else if ts \<noteq> [] \<and> hd ts = CloseBracket then Rest (tl ts) else Err DecodeToken)"

definition rejectDuplicateJSONKeys :: "token list \<Rightarrow> walk_error option" where
  "rejectDuplicateJSONKeys ts = (case walkValue (2 * length ts + 2) ts of
       Rest rest \<Rightarrow> (if more rest then Some TrailingData else None)
     | Err e \<Rightarrow> Some e
     | OutOfFuel \<Rightarrow> Some DecodeToken)"

text \<open>The recursive reading of the same check: no object, at any depth, has a key twice.\<close>

fun distinct_keys :: "json \<Rightarrow> bool" where
  "distinct_keys (JArr vs) = (\<forall>v \<in> set vs. distinct_keys v)"
| "distinct_keys (JObj kvs) = (distinct (map fst kvs) \<and> (\<forall>kv \<in> set kvs. distinct_keys (snd kv)))"
| "distinct_keys _ = True"

text \<open>The walk always ends within the fuel it is given, on any token stream.\<close>

lemma walk_fuel:
  "2 * length ts < n \<Longrightarrow> walkValue n ts \<noteq> OutOfFuel \<and> (\<forall>r. walkValue n ts = Rest r \<longrightarrow> length r < length ts)"
  "2 * length ts < n \<Longrightarrow> walkObject n seen ts \<noteq> OutOfFuel
    \<and> (\<forall>r. walkObject n seen ts = Rest r \<longrightarrow> length r < length ts)"
  "2 * length ts + 1 < n \<Longrightarrow> walkArray n ts \<noteq> OutOfFuel
    \<and> (\<forall>r. walkArray n ts = Rest r \<longrightarrow> length r < length ts)"
proof (induction n ts and n seen ts and n ts rule: walkValue_walkObject_walkArray.induct)
  case (5 n seen ts)
  show ?case
  proof (cases "more ts")
    case True
    then obtain t ts' where ts: "ts = t # ts'" by (cases ts) (auto simp: more_def)
    with 5 True show ?thesis
      by (auto split: token.splits walk.splits) fastforce+
  qed (use 5 in \<open>auto simp: neq_Nil_conv\<close>)
next
  case (7 n ts)
  show ?case
  proof (cases "more ts")
    case True
    with 7 show ?thesis by (auto split: walk.splits)
  qed (use 7 in \<open>auto simp: neq_Nil_conv\<close>)
qed (auto split: token.splits)

definition walk_verdict :: "bool \<Rightarrow> walk \<Rightarrow> token list \<Rightarrow> bool" where
  "walk_verdict ok w rest \<longleftrightarrow> (if ok then w = Rest rest else (\<exists>k. w = Err (DuplicateKey k)))"

lemma more_tokens [simp]: "more (tokens v @ rest)"
  by (cases v) (auto simp: more_def)

lemma walk_tokens:
  "length (tokens v) < n \<Longrightarrow> walk_verdict (distinct_keys v) (walkValue n (tokens v @ rest)) rest"
  "length (member_tokens kvs) + 1 < n \<Longrightarrow> walk_verdict
     (distinct (map fst kvs) \<and> set (map fst kvs) \<inter> set seen = {} \<and> (\<forall>kv \<in> set kvs. distinct_keys (snd kv)))
     (walkObject n seen (member_tokens kvs @ CloseBrace # rest)) rest"
  "length (element_tokens vs) + 1 < n \<Longrightarrow> walk_verdict (\<forall>v \<in> set vs. distinct_keys v)
     (walkArray n (element_tokens vs @ CloseBracket # rest)) rest"
proof (induction v and kvs and vs arbitrary: n rest and n seen rest and n rest
    rule: tokens_member_tokens_element_tokens.induct)
  case (5 vs)
  then obtain m where n: "n = Suc m" by (cases n) auto
  with 5 5(1) [of m rest] show ?case by simp
next
  case (6 kvs)
  then obtain m where n: "n = Suc m" by (cases n) auto
  with 6 6(1) [of m "[]" rest] show ?case by simp
next
  case (7 n seen rest)
  then show ?case by (cases n) (simp_all add: more_def walk_verdict_def)
next
  case (8 k v kvs)
  then obtain m where n: "n = Suc m" by (cases n) auto
  have more: "more (Text k # xs)" for xs by (simp add: more_def)
  have v: "walk_verdict (distinct_keys v)
      (walkValue m (tokens v @ member_tokens kvs @ CloseBrace # rest))
      (member_tokens kvs @ CloseBrace # rest)"
    using 8 n by simp
  have kvs: "walk_verdict (distinct (map fst kvs) \<and> set (map fst kvs) \<inter> set (k # seen) = {}
        \<and> (\<forall>kv \<in> set kvs. distinct_keys (snd kv)))
      (walkObject m (k # seen) (member_tokens kvs @ CloseBrace # rest)) rest"
    using 8(2) [of m "k # seen" rest] 8(3) n by simp
  show ?case
  proof (cases "k \<in> set seen")
    case True
    then show ?thesis by (simp add: n more walk_verdict_def)
  next
    case False
    show ?thesis
    proof (cases "distinct_keys v")
      case True
      with v have "walkValue m (tokens v @ member_tokens kvs @ CloseBrace # rest)
          = Rest (member_tokens kvs @ CloseBrace # rest)"
        by (simp add: walk_verdict_def)
      with kvs True False show ?thesis
        by (simp add: n more walk_verdict_def split: if_splits)
    next
      case no: False
      with v obtain k' where "walkValue m (tokens v @ member_tokens kvs @ CloseBrace # rest)
          = Err (DuplicateKey k')"
        by (auto simp: walk_verdict_def)
      with no False show ?thesis by (simp add: n more walk_verdict_def)
    qed
  qed
next
  case (9 n rest)
  then show ?case by (cases n) (simp_all add: more_def walk_verdict_def)
next
  case (10 v vs)
  then obtain m where n: "n = Suc m" by (cases n) auto
  have "length (tokens v) \<ge> 1" by (cases v) auto
  then have "length (element_tokens vs) + 1 < m" and "length (tokens v) < m"
    using 10(3) unfolding n by simp_all
  then have v: "walk_verdict (distinct_keys v) (walkValue m (tokens v @ element_tokens vs @ CloseBracket # rest))
      (element_tokens vs @ CloseBracket # rest)"
    and vs: "walk_verdict (\<forall>v \<in> set vs. distinct_keys v)
      (walkArray m (element_tokens vs @ CloseBracket # rest)) rest"
    using 10(1) [of m] 10(2) [of m rest] by simp_all
  then show ?case by (auto simp: n walk_verdict_def split: if_splits)
qed (auto simp: walk_verdict_def elim: Suc_lessE less_natE)

text \<open>C19: on the tokens of one JSON value the duplicate-key check passes exactly when no object of
  the value, at any depth, has a key twice, and otherwise reports a duplicate key; on any other
  token stream it still ends.\<close>

theorem rejectDuplicateJSONKeys_spec:
  "(rejectDuplicateJSONKeys (tokens v) = None) = distinct_keys v
   \<and> (\<not> distinct_keys v \<longrightarrow> (\<exists>k. rejectDuplicateJSONKeys (tokens v) = Some (DuplicateKey k)))
   \<and> walkValue (2 * length ts + 2) ts \<noteq> OutOfFuel"
proof -
  have "walk_verdict (distinct_keys v) (walkValue (2 * length (tokens v) + 2) (tokens v)) []"
    using walk_tokens(1) [of v "2 * length (tokens v) + 2" "[]"] by simp
  moreover have "walkValue (2 * length ts + 2) ts \<noteq> OutOfFuel"
    using walk_fuel(1) [of ts "2 * length ts + 2"] by simp
  ultimately show ?thesis
    by (auto simp: rejectDuplicateJSONKeys_def walk_verdict_def more_def split: if_splits)
qed

lemma rejectDuplicateJSONKeys_spec_witness:
  "rejectDuplicateJSONKeys (tokens (JObj [(''a'', JArr [JObj [(''b'', JNull), (''b'', JNull)]])])) \<noteq> None
   \<and> rejectDuplicateJSONKeys (tokens (JObj [(''a'', JNull), (''b'', JNull)])) = None"
  using rejectDuplicateJSONKeys_spec [of "JObj [(''a'', JArr [JObj [(''b'', JNull), (''b'', JNull)]])]"]
    rejectDuplicateJSONKeys_spec [of "JObj [(''a'', JNull), (''b'', JNull)]"]
  by simp

subsection \<open>Decoding\<close>

text \<open>A key selects the field with its exact name, and failing that the field whose folded name
  is the folded key.  Folding upper-cases ASCII letters; two letters outside ASCII fold to ASCII
  ones, U+017F to \<open>S\<close> and U+212A to \<open>K\<close>.\<close>

definition ascii_upper :: "char \<Rightarrow> char" where
  "ascii_upper c = (if 97 \<le> (of_char c :: nat) \<and> (of_char c :: nat) \<le> 122
     then char_of ((of_char c :: nat) - 32) else c)"

fun fold_name :: "string \<Rightarrow> string" where
  "fold_name (a # b # c # rest) =
     (if a = CHR 0xE2 \<and> b = CHR 0x84 \<and> c = CHR 0xAA then CHR ''K'' # fold_name rest
      else if a = CHR 0xC5 \<and> b = CHR 0xBF then CHR ''S'' # fold_name (c # rest)
      else ascii_upper a # fold_name (b # c # rest))"
| "fold_name [a, b] =
     (if a = CHR 0xC5 \<and> b = CHR 0xBF then ''S'' else [ascii_upper a, ascii_upper b])"
| "fold_name [a] = [ascii_upper a]"
| "fold_name [] = []"

type_synonym 'r fields = "(string \<times> (json \<Rightarrow> 'r \<Rightarrow> 'r option)) list"

definition find_field :: "'r fields \<Rightarrow> string \<Rightarrow> (json \<Rightarrow> 'r \<Rightarrow> 'r option) option" where
  "find_field fs key = (case map_of fs key of
       Some set_it \<Rightarrow> Some set_it
     | None \<Rightarrow> map_of (map (\<lambda>(n, f). (fold_name n, f)) fs) (fold_name key))"

fun decode_members :: "'r fields \<Rightarrow> (string \<times> json) list \<Rightarrow> 'r \<Rightarrow> 'r option" where
  "decode_members fs [] r = Some r"
| "decode_members fs ((key, v) # kvs) r = (case find_field fs key of
       None \<Rightarrow> None
     | Some set_it \<Rightarrow> Option.bind (set_it v r) (decode_members fs kvs))"

definition decode_struct :: "'r fields \<Rightarrow> json \<Rightarrow> 'r \<Rightarrow> 'r option" where
  "decode_struct fs v r = (case v of
       JNull \<Rightarrow> Some r
     | JObj kvs \<Rightarrow> decode_members fs kvs r
     | _ \<Rightarrow> None)"

definition decode_string :: "json \<Rightarrow> string \<Rightarrow> string option" where
  "decode_string v old = (case v of JNull \<Rightarrow> Some old | JStr s \<Rightarrow> Some s | _ \<Rightarrow> None)"

definition decode_int :: "json \<Rightarrow> int \<Rightarrow> int option" where
  "decode_int v old = (case v of JNull \<Rightarrow> Some old | JNum t \<Rightarrow> atoi t | _ \<Rightarrow> None)"

definition artifact_fields :: "artifact_metadata fields" where
  "artifact_fields =
     [(''name'', \<lambda>v r. map_option (\<lambda>s. r\<lparr>am_name := s\<rparr>) (decode_string v (am_name r))),
      (''vendor'', \<lambda>v r. map_option (\<lambda>s. r\<lparr>am_vendor := s\<rparr>) (decode_string v (am_vendor r))),
      (''operation'', \<lambda>v r. map_option (\<lambda>s. r\<lparr>am_operation := s\<rparr>) (decode_string v (am_operation r))),
      (''product'', \<lambda>v r. map_option (\<lambda>s. r\<lparr>am_product := s\<rparr>) (decode_string v (am_product r))),
      (''machine'', \<lambda>v r. map_option (\<lambda>s. r\<lparr>am_machine := s\<rparr>) (decode_string v (am_machine r))),
      (''version'', \<lambda>v r. map_option (\<lambda>s. r\<lparr>am_version := s\<rparr>) (decode_string v (am_version r))),
      (''buildId'', \<lambda>v r. map_option (\<lambda>s. r\<lparr>am_build_id := s\<rparr>) (decode_string v (am_build_id r))),
      (''createdUtc'', \<lambda>v r. map_option (\<lambda>s. r\<lparr>am_created_utc := s\<rparr>)
         (decode_string v (am_created_utc r)))]"

definition executor_fields :: "executor_metadata fields" where
  "executor_fields =
     [(''type'', \<lambda>v r. map_option (\<lambda>s. r\<lparr>xm_type := s\<rparr>) (decode_string v (xm_type r))),
      (''entrypoint'', \<lambda>v r. map_option (\<lambda>s. r\<lparr>xm_entrypoint := s\<rparr>)
         (decode_string v (xm_entrypoint r))),
      (''tftpRoot'', \<lambda>v r. map_option (\<lambda>s. r\<lparr>xm_tftp_root := s\<rparr>)
         (decode_string v (xm_tftp_root r)))]"

definition descriptor_fields :: "file_descriptor fields" where
  "descriptor_fields =
     [(''size'', \<lambda>v r. map_option (\<lambda>s. r\<lparr>fd_size := s\<rparr>) (decode_int v (fd_size r))),
      (''sha256'', \<lambda>v r. map_option (\<lambda>s. r\<lparr>fd_sha256 := s\<rparr>) (decode_string v (fd_sha256 r))),
      (''mode'', \<lambda>v r. map_option (\<lambda>s. r\<lparr>fd_mode := s\<rparr>) (decode_string v (fd_mode r)))]"

definition zero_descriptor :: file_descriptor where
  "zero_descriptor = \<lparr>fd_size = 0, fd_sha256 = [], fd_mode = []\<rparr>"

definition put_file :: "string \<Rightarrow> file_descriptor \<Rightarrow> (string \<times> file_descriptor) list \<Rightarrow>
    (string \<times> file_descriptor) list" where
  "put_file path d fs = filter (\<lambda>pd. fst pd \<noteq> path) fs @ [(path, d)]"

fun decode_file_map :: "(string \<times> json) list \<Rightarrow> (string \<times> file_descriptor) list \<Rightarrow>
    (string \<times> file_descriptor) list option" where
  "decode_file_map [] fs = Some fs"
| "decode_file_map ((path, v) # kvs) fs =
     Option.bind (decode_struct descriptor_fields v zero_descriptor)
       (\<lambda>d. decode_file_map kvs (put_file path d fs))"

definition decode_files :: "json \<Rightarrow> (string \<times> file_descriptor) list \<Rightarrow>
    (string \<times> file_descriptor) list option" where
  "decode_files v fs = (case v of
       JNull \<Rightarrow> Some []
     | JObj kvs \<Rightarrow> decode_file_map kvs fs
     | _ \<Rightarrow> None)"

definition manifest_fields :: "manifest fields" where
  "manifest_fields =
     [(''schema'', \<lambda>v r. map_option (\<lambda>s. r\<lparr>mf_schema := s\<rparr>) (decode_string v (mf_schema r))),
      (''formatVersion'', \<lambda>v r. map_option (\<lambda>n. r\<lparr>mf_format_version := n\<rparr>)
         (decode_int v (mf_format_version r))),
      (''artifact'', \<lambda>v r. map_option (\<lambda>a. r\<lparr>mf_artifact := a\<rparr>)
         (decode_struct artifact_fields v (mf_artifact r))),
      (''executor'', \<lambda>v r. map_option (\<lambda>x. r\<lparr>mf_executor := x\<rparr>)
         (decode_struct executor_fields v (mf_executor r))),
      (''files'', \<lambda>v r. map_option (\<lambda>fs. r\<lparr>mf_files := fs\<rparr>) (decode_files v (mf_files r)))]"

datatype decode_error =
    ManifestSize
  | MalformedJSON
  | RejectedKeys walk_error
  | DecodeFailed
  | Invalid manifest_error

definition DecodeManifest :: "(byte list \<Rightarrow> json option) \<Rightarrow> byte list \<Rightarrow> decode_error + manifest"
where
  "DecodeManifest parse_json data =
     (if data = [] \<or> int (length data) > ManifestMaxBytes then Inl ManifestSize
      else (case parse_json data of
        None \<Rightarrow> Inl MalformedJSON
      | Some v \<Rightarrow> (case rejectDuplicateJSONKeys (tokens v) of
          Some e \<Rightarrow> Inl (RejectedKeys e)
        | None \<Rightarrow> (case decode_struct manifest_fields v empty_manifest of
            None \<Rightarrow> Inl DecodeFailed
          | Some m \<Rightarrow> (case Validate m of
              Some e \<Rightarrow> Inl (Invalid e)
            | None \<Rightarrow> Inr m)))))"

text \<open>The document a producer writes for a manifest.\<close>

definition descriptor_json :: "file_descriptor \<Rightarrow> json" where
  "descriptor_json d = JObj [(''size'', JNum (itoa (fd_size d))), (''sha256'', JStr (fd_sha256 d)),
     (''mode'', JStr (fd_mode d))]"

definition manifest_json :: "manifest \<Rightarrow> json" where
  "manifest_json m = JObj
     [(''schema'', JStr (mf_schema m)),
      (''formatVersion'', JNum (itoa (mf_format_version m))),
      (''artifact'', JObj
         [(''name'', JStr (am_name (mf_artifact m))), (''vendor'', JStr (am_vendor (mf_artifact m))),
          (''operation'', JStr (am_operation (mf_artifact m))),
          (''product'', JStr (am_product (mf_artifact m))),
          (''machine'', JStr (am_machine (mf_artifact m))),
          (''version'', JStr (am_version (mf_artifact m))),
          (''buildId'', JStr (am_build_id (mf_artifact m))),
          (''createdUtc'', JStr (am_created_utc (mf_artifact m)))]),
      (''executor'', JObj
         ([(''type'', JStr (xm_type (mf_executor m))),
           (''entrypoint'', JStr (xm_entrypoint (mf_executor m)))]
          @ (if xm_tftp_root (mf_executor m) = [] then []
             else [(''tftpRoot'', JStr (xm_tftp_root (mf_executor m)))]))),
      (''files'', JObj (map (\<lambda>(p, d). (p, descriptor_json d)) (mf_files m)))]"

lemma put_file_distinct: "distinct (map fst fs) \<Longrightarrow> distinct (map fst (put_file path d fs))"
  by (auto simp: put_file_def distinct_map_filter)

lemma decode_file_map_distinct:
  "decode_file_map kvs fs = Some fs' \<Longrightarrow> distinct (map fst fs) \<Longrightarrow> distinct (map fst fs')"
proof (induction kvs fs rule: decode_file_map.induct)
  case (2 path v kvs fs)
  then obtain d where "decode_struct descriptor_fields v zero_descriptor = Some d"
    and "decode_file_map kvs (put_file path d fs) = Some fs'"
    by (auto split: bind_splits)
  with 2 put_file_distinct show ?case by blast
qed simp

lemma find_manifest_field:
  "find_field manifest_fields key = Some g \<Longrightarrow> g \<in> snd ` set manifest_fields"
  by (auto simp: find_field_def split: option.splits dest!: map_of_SomeD) force+

lemma decode_members_distinct:
  "decode_members manifest_fields kvs r = Some r' \<Longrightarrow> distinct (map fst (mf_files r)) \<Longrightarrow>
    distinct (map fst (mf_files r'))"
proof (induction manifest_fields kvs r rule: decode_members.induct)
  case (2 key v kvs r)
  then obtain g r1 where g: "find_field manifest_fields key = Some g" "g v r = Some r1"
    and rest: "decode_members manifest_fields kvs r1 = Some r'"
    by (auto split: option.splits bind_splits)
  have "distinct (map fst (mf_files r1))"
    using find_manifest_field [OF g(1)] g(2) 2(3)
    by (auto simp: manifest_fields_def decode_files_def decode_file_map_distinct split: json.splits)
  with 2(1) [OF g(1) _ rest] g rest show ?case by blast
qed simp

lemma DecodeManifest_InrD:
  assumes "DecodeManifest parse_json data = Inr m"
  shows "Validate m = None" and "distinct (map fst (mf_files m))"
    and "\<exists>v. parse_json data = Some v \<and> distinct_keys v
      \<and> decode_struct manifest_fields v empty_manifest = Some m"
proof -
  from assms obtain v where v: "parse_json data = Some v" "rejectDuplicateJSONKeys (tokens v) = None"
      "decode_struct manifest_fields v empty_manifest = Some m" and valid: "Validate m = None"
    by (auto simp: DecodeManifest_def split: if_splits option.splits)
  show "Validate m = None" by (rule valid)
  show "distinct (map fst (mf_files m))"
    using v(3) decode_members_distinct [of _ empty_manifest m]
    by (auto simp: decode_struct_def empty_manifest_def split: json.splits)
  have "walk_verdict (distinct_keys v) (walkValue (2 * length (tokens v) + 2) (tokens v)) []"
    using walk_tokens(1) [of v "2 * length (tokens v) + 2" "[]"] by simp
  with v(2) have "distinct_keys v"
    by (auto simp: rejectDuplicateJSONKeys_def walk_verdict_def split: if_splits)
  with v show "\<exists>v. parse_json data = Some v \<and> distinct_keys v
      \<and> decode_struct manifest_fields v empty_manifest = Some m"
    by blast
qed

lemma decode_descriptor_json:
  "int64_ok (fd_size d) \<Longrightarrow>
    decode_struct descriptor_fields (descriptor_json d) zero_descriptor = Some d"
  by (simp add: decode_struct_def descriptor_json_def descriptor_fields_def find_field_def
      decode_string_def decode_int_def atoi_itoa zero_descriptor_def)

lemma decode_files_json:
  assumes "distinct (map fst (acc @ fs))" and "\<forall>(p, d) \<in> set fs. int64_ok (fd_size d)"
  shows "decode_file_map (map (\<lambda>(p, d). (p, descriptor_json d)) fs) acc = Some (acc @ fs)"
  using assms
proof (induction fs arbitrary: acc)
  case (Cons pd fs)
  obtain p d where pd: "pd = (p, d)" by (cases pd)
  have "p \<notin> fst ` set acc" using Cons.prems(1) pd by auto
  then have "put_file p d acc = acc @ [(p, d)]"
    by (force simp: put_file_def filter_id_conv)
  moreover have "decode_file_map (map (\<lambda>(p, d). (p, descriptor_json d)) fs) (acc @ [(p, d)])
      = Some ((acc @ [(p, d)]) @ fs)"
    by (rule Cons.IH) (use Cons.prems pd in auto)
  ultimately show ?case
    using Cons.prems(2) pd by (simp add: decode_descriptor_json)
qed simp

lemma decode_manifest_json:
  assumes "distinct (map fst (mf_files m))" and "\<forall>(p, d) \<in> set (mf_files m). int64_ok (fd_size d)"
    and "int64_ok (mf_format_version m)"
  shows "decode_struct manifest_fields (manifest_json m) empty_manifest = Some m"
proof -
  have "decode_file_map (map (\<lambda>(p, d). (p, descriptor_json d)) (mf_files m)) [] = Some (mf_files m)"
    using decode_files_json [of "[]" "mf_files m"] assms(1,2) by simp
  then show ?thesis
    using assms(3)
    by (simp add: decode_struct_def manifest_json_def manifest_fields_def artifact_fields_def
        executor_fields_def find_field_def decode_string_def decode_int_def decode_files_def
        atoi_itoa empty_manifest_def)
qed

lemma distinct_keys_manifest_json:
  "distinct (map fst (mf_files m)) \<Longrightarrow> distinct_keys (manifest_json m)"
  by (auto simp: manifest_json_def descriptor_json_def comp_def case_prod_beta)

text \<open>C20: a valid manifest written as a JSON document of at most 1 MiB is decoded to itself.\<close>

theorem DecodeManifest_roundtrip:
  assumes "Validate m = None" and "distinct (map fst (mf_files m))"
    and "\<forall>(p, d) \<in> set (mf_files m). int64_ok (fd_size d)"
    and "data \<noteq> []" and "int (length data) \<le> ManifestMaxBytes"
    and "parse_json data = Some (manifest_json m)"
  shows "DecodeManifest parse_json data = Inr m"
proof -
  have "mf_format_version m = 2"
    using assms(1)
    by (auto simp: Validate_None validate_metadata_def FormatVersion_def split: if_splits)
  then have "decode_struct manifest_fields (manifest_json m) empty_manifest = Some m"
    using assms(2,3) by (intro decode_manifest_json) (simp_all add: int64_ok_def)
  moreover have "rejectDuplicateJSONKeys (tokens (manifest_json m)) = None"
  proof -
    let ?v = "manifest_json m"
    have "walk_verdict (distinct_keys ?v) (walkValue (2 * length (tokens ?v) + 2) (tokens ?v)) []"
      using walk_tokens(1) [of ?v "2 * length (tokens ?v) + 2" "[]"] by simp
    then show ?thesis
      using distinct_keys_manifest_json [OF assms(2)]
      by (simp add: rejectDuplicateJSONKeys_def walk_verdict_def more_def)
  qed
  ultimately show ?thesis
    using assms by (simp add: DecodeManifest_def)
qed

lemma DecodeManifest_roundtrip_witness:
  "DecodeManifest (\<lambda>_. Some (manifest_json sample_manifest)) [123, 125] = Inr sample_manifest"
proof (rule DecodeManifest_roundtrip)
  show "Validate sample_manifest = None" by code_simp
  show "distinct (map fst (mf_files sample_manifest))" by (simp add: sample_manifest_def)
  show "\<forall>(p, d) \<in> set (mf_files sample_manifest). int64_ok (fd_size d)"
    by (simp add: sample_manifest_def sample_file_def int64_ok_def)
qed (simp_all add: ManifestMaxBytes_def)

text \<open>The duplicate-key check compares keys byte for byte while the decoder matches field
  names without regard to case, so a document can pass the check and still give one field twice:
  whatever two version numbers it carries, the manifest gets the second.\<close>

theorem case_variant_key_overrides:
  "rejectDuplicateJSONKeys (tokens (JObj [(''formatVersion'', JNum (itoa a)), (''formatversion'', JNum (itoa b))]))
     = None
   \<and> (int64_ok a \<and> int64_ok b \<longrightarrow>
      decode_struct manifest_fields
        (JObj [(''formatVersion'', JNum (itoa a)), (''formatversion'', JNum (itoa b))]) empty_manifest
      = Some (empty_manifest\<lparr>mf_format_version := b\<rparr>))"
proof -
  have folded: "fold_name ''formatversion'' = fold_name ''formatVersion''"
    "fold_name ''schema'' \<noteq> fold_name ''formatVersion''"
    by code_simp+
  have exact: "find_field manifest_fields ''formatVersion'' = Some (\<lambda>v r.
      map_option (\<lambda>n. r\<lparr>mf_format_version := n\<rparr>) (decode_int v (mf_format_version r)))"
    by (simp add: find_field_def manifest_fields_def)
  have other: "find_field manifest_fields ''formatversion'' = Some (\<lambda>v r.
      map_option (\<lambda>n. r\<lparr>mf_format_version := n\<rparr>) (decode_int v (mf_format_version r)))"
    using folded by (simp add: find_field_def manifest_fields_def)
  show ?thesis
    using exact other
    by (simp add: rejectDuplicateJSONKeys_def more_def decode_struct_def decode_int_def atoi_itoa
        eval_nat_numeral)
qed

lemma case_variant_key_overrides_witness:
  "decode_struct manifest_fields
     (JObj [(''formatVersion'', JNum (itoa 1)), (''formatversion'', JNum (itoa 2))]) empty_manifest
   = Some (empty_manifest\<lparr>mf_format_version := 2\<rparr>)"
proof -
  have "int64_ok 1" and "int64_ok 2" by (simp_all add: int64_ok_def)
  with case_variant_key_overrides [of 1 2] show ?thesis by blast
qed

end
