(* ===== verification/Archive.thy ===== *)
theory Archive
  imports Manifest
begin

unbundle bit_operations_syntax

text \<open>
  The artifact archive (\<open>internal/artifact/archive.go\<close>): \<open>validateAndExtract\<close> reads the members of
  a tar stream one by one, checks and writes each, and finally compares what it wrote with the
  manifest.

  A \<open>member\<close> is what one turn of the loop meets: the header, the content the tar reader then
  yields, whether the context is done, and the first operation of the turn that fails, if any.
  The digest, the JSON reader and the growth check of the storage budget are parameters; the
  growth check is a state transformer, so that the store can pass the budget itself.
\<close>

subsection \<open>Limits\<close>

record limits =
  lm_compressed :: int
  lm_uncompressed :: int
  lm_file :: int
  lm_files :: int

definition signatureMaxBytes :: int where "signatureMaxBytes = 2 ^ 20"

definition DefaultLimits :: limits where
  "DefaultLimits = \<lparr>lm_compressed = 2 * 2 ^ 30, lm_uncompressed = 8 * 2 ^ 30,
     lm_file = 6 * 2 ^ 30, lm_files = 256\<rparr>"

definition validateLimits :: "limits \<Rightarrow> bool" where
  "validateLimits l \<longleftrightarrow> \<not> (lm_compressed l \<le> 0 \<or> lm_uncompressed l \<le> 0 \<or> lm_file l \<le> 0
     \<or> lm_files l \<le> 0)"

subsection \<open>Tar members\<close>

datatype typeflag = TypeReg | TypeRegA | TypeOther

datatype fault = MkdirFault | CreateFault | CopyFault | CloseFault | ChmodFault | ReadBackFault

record member =
  mb_ctx_done :: bool
  mb_next_fault :: bool
  mb_name :: string
  mb_type :: typeflag
  mb_uid :: int
  mb_gid :: int
  mb_uname :: string
  mb_gname :: string
  mb_extended :: bool \<comment> \<open>PAX records or extended attributes are present\<close>
  mb_size :: int
  mb_mode :: int
  mb_content :: "byte list"
  mb_fault :: "fault option"

datatype 'e archive_error =
    LimitsNotPositive
  | OpenFault
  | ArchiveContextDone
  | TarStream
  | TooManyFiles
  | MemberPath path_error
  | DuplicatePath string
  | NotRegular string
  | Ownership string
  | ExtendedMetadata string
  | PerFileLimit string
  | SignatureTooLarge
  | UncompressedLimit
  | NonNormalMode string
  | WrongMode string
  | ManifestNotFirst
  | SignatureNotSecond
  | Growth 'e
  | Os fault string
  | EndedEarly string
  | ManifestTooLarge
  | Padding
  | ManifestMissing
  | PayloadNotSorted
  | ManifestError decode_error
  | PayloadError payload_error

text \<open>\<open>fmt.Sprintf("%04o", mode)\<close> for a mode of at most nine bits.\<close>

definition octal4 :: "int \<Rightarrow> string" where
  "octal4 mode = map (\<lambda>k. digit_char (nat (mode div 8 ^ k) mod 8)) [3, 2, 1, 0]"

record extraction_state =
  xs_seen :: "string list"
  xs_actual :: "(string \<times> actual_file) list"
  xs_ordered :: "string list"
  xs_manifest :: "byte list"
  xs_total :: int
  xs_signature :: bool
  xs_index :: int
  xs_written :: "(string \<times> byte list) list" \<comment> \<open>the files created under the destination\<close>

definition extraction_start :: extraction_state where
  "extraction_start = \<lparr>xs_seen = [], xs_actual = [], xs_ordered = [], xs_manifest = [],
     xs_total = 0, xs_signature = False, xs_index = 0, xs_written = []\<rparr>"

definition check_header :: "limits \<Rightarrow> member \<Rightarrow> extraction_state \<Rightarrow> 'e archive_error option" where
  "check_header lim m st = first_error
     [(i64 (xs_index st + 1) > i64 (lm_files lim + 2), TooManyFiles),
      (ValidateRelativePath (mb_name m) \<noteq> None, MemberPath (the (ValidateRelativePath (mb_name m)))),
      (mb_name m \<in> set (xs_seen st), DuplicatePath (mb_name m)),
      (mb_type m \<noteq> TypeReg \<and> mb_type m \<noteq> TypeRegA, NotRegular (mb_name m)),
      (mb_uid m \<noteq> 0 \<or> mb_gid m \<noteq> 0 \<or> mb_uname m \<noteq> [] \<or> mb_gname m \<noteq> [], Ownership (mb_name m)),
      (mb_extended m, ExtendedMetadata (mb_name m)),
      (mb_size m < 0 \<or> mb_size m > lm_file lim, PerFileLimit (mb_name m)),
      (mb_name m = SignatureName \<and> mb_size m > signatureMaxBytes, SignatureTooLarge),
      (xs_total st > i64 (lm_uncompressed lim - mb_size m), UncompressedLimit)]"

definition check_placement :: "member \<Rightarrow> int \<Rightarrow> 'e archive_error option" where
  "check_placement m index =
     (if mb_mode m AND NOT 511 \<noteq> 0 then Some (NonNormalMode (mb_name m))
      else (let mode = octal4 (mb_mode m); name = mb_name m in
        if (name = ManifestName \<or> name = SignatureName) \<and> mode \<noteq> ''0644'' then Some (WrongMode name)
        else if \<not> (name = ManifestName \<or> name = SignatureName)
             \<and> mode \<noteq> ''0644'' \<and> mode \<noteq> ''0755'' then Some (WrongMode name)
        else if index = 1 \<and> name \<noteq> ManifestName then Some ManifestNotFirst
        else if name = SignatureName \<and> index \<noteq> 2 then Some SignatureNotSecond
        else None))"

text \<open>Writing the file: the operations in order, then the number of bytes copied.\<close>

definition write_member :: "member \<Rightarrow> 'e archive_error option" where
  "write_member m = (case mb_fault m of
       Some ReadBackFault \<Rightarrow> if int (length (mb_content m)) \<noteq> mb_size m
                             then Some (EndedEarly (mb_name m)) else None
     | Some ChmodFault \<Rightarrow> if int (length (mb_content m)) \<noteq> mb_size m
                             then Some (EndedEarly (mb_name m)) else Some (Os ChmodFault (mb_name m))
     | Some f \<Rightarrow> Some (Os f (mb_name m))
     | None \<Rightarrow> if int (length (mb_content m)) \<noteq> mb_size m then Some (EndedEarly (mb_name m)) else None)"

definition record_member :: "(byte list \<Rightarrow> string) \<Rightarrow> member \<Rightarrow> extraction_state \<Rightarrow>
    'e archive_error + extraction_state" where
  "record_member sha m st =
     (let name = mb_name m; written = (name, mb_content m) in
      if name = ManifestName
      then if mb_size m > ManifestMaxBytes then Inl ManifestTooLarge
           else if mb_fault m = Some ReadBackFault then Inl (Os ReadBackFault name)
           else Inr (st\<lparr>xs_manifest := mb_content m, xs_written := xs_written st @ [written]\<rparr>)
      else if name = SignatureName then Inr (st\<lparr>xs_written := xs_written st @ [written]\<rparr>)
      else Inr (st\<lparr>xs_actual := xs_actual st @ [(name, \<lparr>fd_size = int (length (mb_content m)),
                      fd_sha256 = sha (mb_content m), fd_mode = octal4 (mb_mode m)\<rparr>)],
                   xs_written := xs_written st @ [written]\<rparr>))"

definition extract_member :: "(byte list \<Rightarrow> string) \<Rightarrow> limits \<Rightarrow> (int \<Rightarrow> 'g \<Rightarrow> 'e option \<times> 'g) \<Rightarrow> member \<Rightarrow>
    'g \<Rightarrow> extraction_state \<Rightarrow> ('e archive_error + extraction_state) \<times> 'g" where
  "extract_member sha lim grow m g st =
     (if mb_ctx_done m then (Inl ArchiveContextDone, g)
      else if mb_next_fault m then (Inl TarStream, g)
      else (case check_header lim m st of
        Some e \<Rightarrow> (Inl e, g)
      | None \<Rightarrow>
          (let index = i64 (xs_index st + 1);
               st1 = st\<lparr>xs_index := index, xs_seen := mb_name m # xs_seen st,
                        xs_total := i64 (xs_total st + mb_size m)\<rparr> in
           case check_placement m index of
             Some e \<Rightarrow> (Inl e, g)
           | None \<Rightarrow>
               (let st2 = (if mb_name m = SignatureName then st1\<lparr>xs_signature := True\<rparr>
                           else if mb_name m \<noteq> ManifestName
                           then st1\<lparr>xs_ordered := xs_ordered st1 @ [mb_name m]\<rparr> else st1) in
                case grow (mb_size m) g of
                  (Some e, g') \<Rightarrow> (Inl (Growth e), g')
                | (None, g') \<Rightarrow> (case write_member m of
                    Some e \<Rightarrow> (Inl e, g')
                  | None \<Rightarrow> (record_member sha m st2, g'))))))"

fun extract_members :: "(byte list \<Rightarrow> string) \<Rightarrow> limits \<Rightarrow> (int \<Rightarrow> 'g \<Rightarrow> 'e option \<times> 'g) \<Rightarrow> member list \<Rightarrow>
    'g \<Rightarrow> extraction_state \<Rightarrow> ('e archive_error + extraction_state) \<times> 'g" where
  "extract_members sha lim grow [] g st = (Inr st, g)"
| "extract_members sha lim grow (m # ms) g st = (case extract_member sha lim grow m g st of
       (Inl e, g') \<Rightarrow> (Inl e, g')
     | (Inr st', g') \<Rightarrow> extract_members sha lim grow ms g' st')"

subsection \<open>Padding and the whole archive\<close>

text \<open>One read of the padding: the bytes returned and the error that came with them.\<close>

datatype read_result = ReadMore "byte list" | ReadEnd "byte list" | ReadFail "byte list"

fun read_bytes :: "read_result \<Rightarrow> byte list" where
  "read_bytes (ReadMore bs) = bs" | "read_bytes (ReadEnd bs) = bs" | "read_bytes (ReadFail bs) = bs"

fun validateTarPadding :: "int \<Rightarrow> read_result list \<Rightarrow> bool" where
  "validateTarPadding n [] = False"
| "validateTarPadding n (r # rs) =
     (let n' = n + int (length (read_bytes r)) in
      if list_ex (\<lambda>b. b \<noteq> 0) (read_bytes r) then False
      else if n' > 2 ^ 20 then False
      else (case r of ReadEnd _ \<Rightarrow> True | ReadFail _ \<Rightarrow> False
              | ReadMore _ \<Rightarrow> validateTarPadding n' rs))"

record extraction =
  xt_manifest :: manifest
  xt_manifest_bytes :: "byte list"
  xt_signature :: bool
  xt_uncompressed :: int
  xt_payload_files :: nat

record archive =
  ar_open_fault :: bool
  ar_members :: "member list"
  ar_end_ctx_done :: bool
  ar_end_fault :: bool
  ar_padding :: "read_result list"

definition finish_extraction :: "(byte list \<Rightarrow> json option) \<Rightarrow> archive \<Rightarrow> extraction_state \<Rightarrow>
    'e archive_error + extraction" where
  "finish_extraction parse_json ar st =
     (if \<not> validateTarPadding 0 (ar_padding ar) then Inl Padding
      else if xs_manifest st = [] then Inl ManifestMissing
      else if \<not> sorted (xs_ordered st) then Inl PayloadNotSorted
      else (case DecodeManifest parse_json (xs_manifest st) of
        Inl e \<Rightarrow> Inl (ManifestError e)
      | Inr m \<Rightarrow> (case ValidatePayload m (xs_actual st) of
          Some e \<Rightarrow> Inl (PayloadError e)
        | None \<Rightarrow> Inr \<lparr>xt_manifest = m, xt_manifest_bytes = xs_manifest st,
                      xt_signature = xs_signature st, xt_uncompressed = xs_total st,
                      xt_payload_files = length (xs_actual st)\<rparr>)))"

definition validateAndExtract :: "(byte list \<Rightarrow> string) \<Rightarrow> (byte list \<Rightarrow> json option) \<Rightarrow> limits \<Rightarrow>
    (int \<Rightarrow> 'g \<Rightarrow> 'e option \<times> 'g) \<Rightarrow> archive \<Rightarrow> 'g \<Rightarrow>
    ('e archive_error + extraction \<times> (string \<times> byte list) list) \<times> 'g" where
  "validateAndExtract sha parse_json lim grow ar g =
     (if \<not> validateLimits lim then (Inl LimitsNotPositive, g)
      else if ar_open_fault ar then (Inl OpenFault, g)
      else (case extract_members sha lim grow (ar_members ar) g extraction_start of
        (Inl e, g') \<Rightarrow> (Inl e, g')
      | (Inr st, g') \<Rightarrow>
          if ar_end_ctx_done ar then (Inl ArchiveContextDone, g')
          else if ar_end_fault ar then (Inl TarStream, g')
          else (case finish_extraction parse_json ar st of
            Inl e \<Rightarrow> (Inl e, g')
          | Inr x \<Rightarrow> (Inr (x, xs_written st), g'))))"

subsection \<open>What an accepted archive contains\<close>

definition payload_member :: "member \<Rightarrow> bool" where
  "payload_member m \<longleftrightarrow> mb_name m \<noteq> ManifestName \<and> mb_name m \<noteq> SignatureName"

definition payload_entry :: "(byte list \<Rightarrow> string) \<Rightarrow> member \<Rightarrow> string \<times> actual_file" where
  "payload_entry sha m = (mb_name m, \<lparr>fd_size = int (length (mb_content m)),
     fd_sha256 = sha (mb_content m), fd_mode = octal4 (mb_mode m)\<rparr>)"

definition member_ok :: "limits \<Rightarrow> member \<Rightarrow> bool" where
  "member_ok lim m \<longleftrightarrow> ValidateRelativePath (mb_name m) = None \<and> mb_type m \<in> {TypeReg, TypeRegA}
     \<and> mb_uid m = 0 \<and> mb_gid m = 0 \<and> mb_uname m = [] \<and> mb_gname m = [] \<and> \<not> mb_extended m
     \<and> 0 \<le> mb_size m \<and> mb_size m \<le> lm_file lim
     \<and> int (length (mb_content m)) = mb_size m
     \<and> octal4 (mb_mode m) \<in> (if payload_member m then {''0644'', ''0755''} else {''0644''})"

text \<open>The limits are 64-bit values, and the member limit leaves room for the two extra members.\<close>

definition limits_ok :: "limits \<Rightarrow> bool" where
  "limits_ok lim \<longleftrightarrow> validateLimits lim \<and> int64_ok (lm_compressed lim)
     \<and> int64_ok (lm_uncompressed lim) \<and> int64_ok (lm_file lim)
     \<and> lm_files lim < 2 ^ 62"

definition extracted :: "(byte list \<Rightarrow> string) \<Rightarrow> limits \<Rightarrow> member list \<Rightarrow> extraction_state \<Rightarrow> bool"
where
  "extracted sha lim ms st \<longleftrightarrow>
     xs_index st = int (length ms) \<and> int (length ms) \<le> lm_files lim + 2
     \<and> xs_seen st = rev (map mb_name ms) \<and> distinct (map mb_name ms)
     \<and> xs_total st = sum_list (map mb_size ms) \<and> 0 \<le> xs_total st
     \<and> xs_total st \<le> lm_uncompressed lim
     \<and> xs_actual st = map (payload_entry sha) (filter payload_member ms)
     \<and> xs_ordered st = map mb_name (filter payload_member ms)
     \<and> xs_signature st = (SignatureName \<in> mb_name ` set ms)
     \<and> (xs_manifest st \<noteq> [] \<longrightarrow> ManifestName \<in> mb_name ` set ms)
     \<and> (\<forall>m \<in> set ms. mb_name m = ManifestName \<longrightarrow> xs_manifest st = mb_content m)
     \<and> xs_written st = map (\<lambda>m. (mb_name m, mb_content m)) ms
     \<and> (\<forall>m \<in> set ms. member_ok lim m)
     \<and> (ms \<noteq> [] \<longrightarrow> mb_name (ms ! 0) = ManifestName)
     \<and> (\<forall>i < length ms. mb_name (ms ! i) = SignatureName \<longrightarrow> i = 1)"

lemma check_header_None:
  "check_header lim m st = None \<longleftrightarrow>
     i64 (xs_index st + 1) \<le> i64 (lm_files lim + 2) \<and> ValidateRelativePath (mb_name m) = None
     \<and> mb_name m \<notin> set (xs_seen st) \<and> mb_type m \<in> {TypeReg, TypeRegA}
     \<and> mb_uid m = 0 \<and> mb_gid m = 0 \<and> mb_uname m = [] \<and> mb_gname m = [] \<and> \<not> mb_extended m
     \<and> 0 \<le> mb_size m \<and> mb_size m \<le> lm_file lim
     \<and> (mb_name m = SignatureName \<longrightarrow> mb_size m \<le> signatureMaxBytes)
     \<and> xs_total st \<le> i64 (lm_uncompressed lim - mb_size m)"
  by (auto simp: check_header_def not_less)

lemma names_distinct [simp]: "ManifestName \<noteq> SignatureName" "SignatureName \<noteq> ManifestName"
  by (simp_all add: ManifestName_def SignatureName_def)

lemma check_placement_None:
  assumes "check_placement m index = None"
  shows "octal4 (mb_mode m) \<in> (if payload_member m then {''0644'', ''0755''} else {''0644''})"
    and "index = 1 \<longrightarrow> mb_name m = ManifestName"
    and "mb_name m = SignatureName \<longrightarrow> index = 2"
  using assms by (auto simp: check_placement_def payload_member_def Let_def split: if_splits)

lemma write_member_None: "write_member m = None \<Longrightarrow> int (length (mb_content m)) = mb_size m"
  by (auto simp: write_member_def split: option.splits fault.splits if_splits)

lemma record_member_Inr:
  assumes "record_member sha m st = Inr st'"
  shows "st' = st\<lparr>xs_manifest := (if mb_name m = ManifestName then mb_content m else xs_manifest st),
      xs_actual := xs_actual st @ (if payload_member m then [payload_entry sha m] else []),
      xs_written := xs_written st @ [(mb_name m, mb_content m)]\<rparr>"
  using assms
  by (auto simp: record_member_def payload_member_def payload_entry_def Let_def split: if_splits)

lemma extract_member_Inr:
  fixes grow :: "int \<Rightarrow> 'g \<Rightarrow> 'e option \<times> 'g"
  assumes "extract_member sha lim grow m g st = (Inr st', g')"
  shows "(check_header lim m st :: 'e archive_error option) = None" and "(check_placement m (i64 (xs_index st + 1)) :: 'e archive_error option) = None"
    and "(write_member m :: 'e archive_error option) = None" and "grow (mb_size m) g = (None, g')"
    and "st' = \<lparr>xs_seen = mb_name m # xs_seen st,
      xs_actual = xs_actual st @ (if payload_member m then [payload_entry sha m] else []),
      xs_ordered = xs_ordered st @ (if payload_member m then [mb_name m] else []),
      xs_manifest = (if mb_name m = ManifestName then mb_content m else xs_manifest st),
      xs_total = i64 (xs_total st + mb_size m),
      xs_signature = (mb_name m = SignatureName \<or> xs_signature st),
      xs_index = i64 (xs_index st + 1),
      xs_written = xs_written st @ [(mb_name m, mb_content m)]\<rparr>"
proof -
  define st1 where "st1 = st\<lparr>xs_index := i64 (xs_index st + 1), xs_seen := mb_name m # xs_seen st,
    xs_total := i64 (xs_total st + mb_size m)\<rparr>"
  define st2 where "st2 = (if mb_name m = SignatureName then st1\<lparr>xs_signature := True\<rparr>
    else if mb_name m \<noteq> ManifestName then st1\<lparr>xs_ordered := xs_ordered st1 @ [mb_name m]\<rparr> else st1)"
  from assms have "(check_header lim m st :: 'e archive_error option) = None
      \<and> (check_placement m (i64 (xs_index st + 1)) :: 'e archive_error option) = None \<and> (write_member m :: 'e archive_error option) = None
      \<and> grow (mb_size m) g = (None, g')
      \<and> (record_member sha m st2 :: 'e archive_error + extraction_state) = Inr st'"
    unfolding extract_member_def Let_def st1_def [symmetric] st2_def [symmetric]
    by (auto split: if_splits option.splits sum.splits prod.splits)
  then show "(check_header lim m st :: 'e archive_error option) = None" "(check_placement m (i64 (xs_index st + 1)) :: 'e archive_error option) = None"
    "(write_member m :: 'e archive_error option) = None" "grow (mb_size m) g = (None, g')"
    and "st' = \<lparr>xs_seen = mb_name m # xs_seen st,
      xs_actual = xs_actual st @ (if payload_member m then [payload_entry sha m] else []),
      xs_ordered = xs_ordered st @ (if payload_member m then [mb_name m] else []),
      xs_manifest = (if mb_name m = ManifestName then mb_content m else xs_manifest st),
      xs_total = i64 (xs_total st + mb_size m),
      xs_signature = (mb_name m = SignatureName \<or> xs_signature st),
      xs_index = i64 (xs_index st + 1),
      xs_written = xs_written st @ [(mb_name m, mb_content m)]\<rparr>"
    by (auto dest!: record_member_Inr simp: st2_def st1_def payload_member_def)
qed

lemma extract_member_extracted:
  assumes "extract_member sha lim grow m g st = (Inr st', g')"
    and "extracted sha lim ms st" and "limits_ok lim"
  shows "extracted sha lim (ms @ [m]) st'"
proof -
  note step = extract_member_Inr [OF assms(1)]
  note head = step(1) [unfolded check_header_None]
  have lim: "0 < lm_files lim" "lm_files lim < 2 ^ 62" "lm_uncompressed lim < 2 ^ 63"
      "0 < lm_uncompressed lim" "lm_file lim < 2 ^ 63"
    using assms(3) by (auto simp: limits_ok_def validateLimits_def int64_ok_def)
  have index: "xs_index st = int (length ms)" "int (length ms) \<le> lm_files lim + 2"
    and total: "0 \<le> xs_total st" "xs_total st \<le> lm_uncompressed lim"
    using assms(2) by (auto simp: extracted_def)
  have next_index: "i64 (xs_index st + 1) = int (length ms) + 1"
    and bound: "i64 (lm_files lim + 2) = lm_files lim + 2"
    using index lim by (simp_all add: int64_ok_def)
  have "i64 (lm_uncompressed lim - mb_size m) = lm_uncompressed lim - mb_size m"
    using head lim by (intro i64_id) (auto simp: int64_ok_def)
  then have room: "xs_total st + mb_size m \<le> lm_uncompressed lim" "0 \<le> mb_size m"
    using head by auto
  then have next_total: "i64 (xs_total st + mb_size m) = xs_total st + mb_size m"
    using total lim by (simp add: int64_ok_def)
  have ok: "member_ok lim m"
    using head check_placement_None(1) [OF step(2)] write_member_None [OF step(3)]
    by (simp add: member_ok_def)
  have new: "mb_name m \<notin> mb_name ` set ms"
    using head assms(2) by (auto simp: extracted_def)
  have place: "ms = [] \<longrightarrow> mb_name m = ManifestName" "mb_name m = SignatureName \<longrightarrow> length ms = 1"
    using check_placement_None(2,3) [OF step(2)] next_index by auto
  have first: "mb_name ((ms @ [m]) ! 0) = ManifestName"
    using assms(2) place(1) by (cases ms) (auto simp: extracted_def)
  have sig: "\<forall>i < length (ms @ [m]). mb_name ((ms @ [m]) ! i) = SignatureName \<longrightarrow> i = 1"
    using assms(2) place(2) by (auto simp: extracted_def nth_append less_Suc_eq)
  have man: "\<forall>x \<in> set (ms @ [m]). mb_name x = ManifestName \<longrightarrow> xs_manifest st' = mb_content x"
  proof (intro ballI impI)
    fix x assume x: "x \<in> set (ms @ [m])" "mb_name x = ManifestName"
    show "xs_manifest st' = mb_content x"
    proof (cases "x \<in> set ms")
      case True
      then have "mb_name m \<noteq> mb_name x" using new by (metis image_eqI)
      with True x assms(2) show ?thesis by (auto simp: extracted_def step(5))
    next
      case False
      with x show ?thesis by (auto simp: step(5))
    qed
  qed
  have index': "xs_index st' = int (length (ms @ [m]))" "int (length (ms @ [m])) \<le> lm_files lim + 2"
    using head bound next_index by (simp_all add: step(5))
  have total': "xs_total st' = sum_list (map mb_size (ms @ [m]))" "0 \<le> xs_total st'"
      "xs_total st' \<le> lm_uncompressed lim"
    using assms(2) room total next_total by (simp_all add: extracted_def step(5))
  have lists: "xs_seen st' = rev (map mb_name (ms @ [m]))"
      "xs_actual st' = map (payload_entry sha) (filter payload_member (ms @ [m]))"
      "xs_ordered st' = map mb_name (filter payload_member (ms @ [m]))"
      "xs_written st' = map (\<lambda>m. (mb_name m, mb_content m)) (ms @ [m])"
      "xs_signature st' = (SignatureName \<in> mb_name ` set (ms @ [m]))"
      "xs_manifest st' \<noteq> [] \<longrightarrow> ManifestName \<in> mb_name ` set (ms @ [m])"
    using assms(2) by (auto simp: extracted_def step(5))
  have "distinct (map mb_name (ms @ [m]))" "\<forall>x \<in> set (ms @ [m]). member_ok lim x"
    using assms(2) new ok by (auto simp: extracted_def)
  with index' total' lists first sig man show ?thesis
    unfolding extracted_def by blast
qed

lemma extract_members_extracted:
  "extract_members sha lim grow ms g st = (Inr st', g') \<Longrightarrow> limits_ok lim \<Longrightarrow>
    extracted sha lim done st \<Longrightarrow> extracted sha lim (done @ ms) st'"
proof (induction sha lim grow ms g st arbitrary: "done" rule: extract_members.induct)
  case (2 sha lim grow m ms g st)
  then obtain g1 st1 where step: "extract_member sha lim grow m g st = (Inr st1, g1)"
    and rest: "extract_members sha lim grow ms g1 st1 = (Inr st', g')"
    by (auto split: sum.splits prod.splits)
  from 2(1) [OF step [symmetric] refl rest 2(3) extract_member_extracted [OF step 2(4,3)]]
  show ?case by simp
qed simp

lemma validateAndExtract_Inr:
  fixes grow :: "int \<Rightarrow> 'g \<Rightarrow> 'e option \<times> 'g"
  assumes "validateAndExtract sha parse_json lim grow ar g = (Inr (x, files), g')" and "limits_ok lim"
  shows "\<exists>st. extracted sha lim (ar_members ar) st \<and> files = xs_written st
    \<and> finish_extraction parse_json ar st = (Inr x :: 'e archive_error + extraction)"
proof -
  from assms(1) obtain st where
      run: "extract_members sha lim grow (ar_members ar) g extraction_start = (Inr st, g')"
    and "files = xs_written st"
    and "finish_extraction parse_json ar st = (Inr x :: 'e archive_error + extraction)"
    by (auto simp: validateAndExtract_def split: if_splits sum.splits prod.splits)
  moreover have "extracted sha lim [] extraction_start"
    using assms(2) by (auto simp: extracted_def extraction_start_def limits_ok_def validateLimits_def)
  from extract_members_extracted [OF run assms(2) this] have "extracted sha lim (ar_members ar) st"
    by simp
  ultimately show ?thesis by blast
qed

lemma accepted_facts:
  fixes grow :: "int \<Rightarrow> 'g \<Rightarrow> 'e option \<times> 'g"
  assumes "validateAndExtract sha parse_json lim grow ar g = (Inr (x, files), g')" and "limits_ok lim"
  obtains st where "extracted sha lim (ar_members ar) st" and "files = xs_written st"
    and "xs_manifest st \<noteq> []" and "sorted (xs_ordered st)"
    and "DecodeManifest parse_json (xs_manifest st) = Inr (xt_manifest x)"
    and "ValidatePayload (xt_manifest x) (xs_actual st) = None"
    and "xt_manifest_bytes x = xs_manifest st" and "xt_signature x = xs_signature st"
    and "xt_uncompressed x = xs_total st" and "xt_payload_files x = length (xs_actual st)"
proof -
  obtain st where st: "extracted sha lim (ar_members ar) st" "files = xs_written st"
    and fin: "finish_extraction parse_json ar st = (Inr x :: 'e archive_error + extraction)"
    using validateAndExtract_Inr [OF assms] by blast
  show thesis
    by (rule that [OF st])
      (use fin in \<open>auto simp: finish_extraction_def split: if_splits sum.splits option.splits\<close>)
qed

lemma extracted_path:
  assumes "extracted sha lim ms st" and "m \<in> set ms"
  shows "path_comps (join_path d (mb_name m)) = path_comps d @ split_on slash (mb_name m)
      \<and> ''..'' \<notin> set (split_on slash (mb_name m))"
proof -
  have "ValidateRelativePath (mb_name m) = None"
    using assms by (auto simp: extracted_def member_ok_def)
  then show ?thesis
    using artifact_path.joined_below artifact_path.ok_components
    by (auto simp: special_component_def)
qed

text \<open>The members of an extracted archive: the manifest, perhaps the signature, the payload.\<close>

definition archive_shape :: "member list \<Rightarrow> member \<Rightarrow> member list \<Rightarrow> member list \<Rightarrow> bool" where
  "archive_shape ms man sigs pay \<longleftrightarrow> ms = man # sigs @ pay \<and> mb_name man = ManifestName
     \<and> length sigs \<le> 1 \<and> (\<forall>m \<in> set sigs. mb_name m = SignatureName)
     \<and> (\<forall>m \<in> set pay. payload_member m)"

lemma extracted_shape:
  assumes "extracted sha lim ms st" and "ms \<noteq> []"
  shows "\<exists>man sigs pay. archive_shape ms man sigs pay"
proof -
  obtain man rest where ms: "ms = man # rest" using assms(2) by (cases ms) auto
  have man: "mb_name man = ManifestName" using assms ms by (auto simp: extracted_def)
  have sig: "i = 0" if "i < length rest" "mb_name (rest ! i) = SignatureName" for i
    using assms that ms by (auto simp: extracted_def dest: spec [of _ "Suc i"])
  have no_man: "mb_name m \<noteq> ManifestName" if "m \<in> set rest" for m
    using assms that ms man by (force simp: extracted_def)
  show ?thesis
  proof (cases "rest \<noteq> [] \<and> mb_name (hd rest) = SignatureName")
    case True
    then obtain s pay where rest: "rest = s # pay" "mb_name s = SignatureName"
      by (cases rest) auto
    have "payload_member m" if "m \<in> set pay" for m
    proof -
      from that obtain i where "i < length pay" "m = pay ! i" by (metis in_set_conv_nth)
      then show ?thesis using sig [of "Suc i"] no_man [of m] that rest by (auto simp: payload_member_def)
    qed
    then show ?thesis
      using ms man rest by (intro exI [of _ man] exI [of _ "[s]"] exI [of _ pay])
        (simp add: archive_shape_def)
  next
    case False
    have "payload_member m" if "m \<in> set rest" for m
    proof -
      from that obtain i where "i < length rest" "m = rest ! i" by (metis in_set_conv_nth)
      then show ?thesis using sig [of i] no_man [of m] that False
        by (cases rest; cases i) (auto simp: payload_member_def)
    qed
    then show ?thesis
      using ms man by (intro exI [of _ man] exI [of _ "[]"] exI [of _ rest])
        (simp add: archive_shape_def)
  qed
qed

lemma shape_payload:
  assumes "archive_shape ms man sigs pay"
  shows "filter payload_member ms = pay"
    and "SignatureName \<in> mb_name ` set ms \<longleftrightarrow> sigs \<noteq> []"
proof -
  have ms: "ms = man # sigs @ pay" and man: "\<not> payload_member man"
    and sigs: "\<forall>m \<in> set sigs. \<not> payload_member m" and pay: "\<forall>m \<in> set pay. payload_member m"
    and name: "mb_name man \<noteq> SignatureName"
    using assms by (auto simp: archive_shape_def payload_member_def)
  then show "filter payload_member ms = pay" by simp
  have "SignatureName \<notin> mb_name ` set pay" using pay by (auto simp: payload_member_def)
  moreover have "SignatureName \<in> mb_name ` set sigs \<longleftrightarrow> sigs \<noteq> []"
    using assms by (cases sigs) (auto simp: archive_shape_def)
  ultimately show "SignatureName \<in> mb_name ` set ms \<longleftrightarrow> sigs \<noteq> []"
    using ms name by auto
qed

text \<open>The manifest and the total of an accepted archive are within 64 bits, so that they can be
  stored as metadata.\<close>

lemma accepted_storable:
  assumes "validateAndExtract sha parse_json lim grow ar g = (Inr (x, files), g')" and "limits_ok lim"
  shows "Validate (xt_manifest x) = None \<and> distinct (map fst (mf_files (xt_manifest x)))
    \<and> (\<forall>(p, d) \<in> set (mf_files (xt_manifest x)). int64_ok (fd_size d))
    \<and> int64_ok (xt_uncompressed x)"
proof -
  obtain st where ex: "extracted sha lim (ar_members ar) st"
    and decode: "DecodeManifest parse_json (xs_manifest st) = Inr (xt_manifest x)"
    and payload: "ValidatePayload (xt_manifest x) (xs_actual st) = None"
    and x: "xt_uncompressed x = xs_total st"
    by (rule accepted_facts [OF assms])
  note valid = DecodeManifest_InrD(1,2) [OF decode]
  have "int64_ok (fd_size d)" if "(p, d) \<in> set (mf_files (xt_manifest x))" for p d
  proof -
    have "\<forall>(p, d) \<in> set (mf_files (xt_manifest x)). map_of (xs_actual st) p = Some d"
      using payload by (simp add: ValidatePayload_def payload_files_None split: if_splits)
    with that have "(p, d) \<in> set (xs_actual st)" by (auto dest: map_of_SomeD)
    then obtain m where m: "m \<in> set (ar_members ar)" "(p, d) = payload_entry sha m"
      using ex by (auto simp: extracted_def)
    then have "0 \<le> fd_size d \<and> fd_size d \<le> lm_file lim"
      using ex by (auto simp: extracted_def member_ok_def payload_entry_def)
    then show ?thesis using assms(2) by (auto simp: limits_ok_def int64_ok_def)
  qed
  moreover have "int64_ok (xt_uncompressed x)"
    using ex x assms(2) by (auto simp: extracted_def limits_ok_def int64_ok_def)
  ultimately show ?thesis using valid by blast
qed

text \<open>C10: the members of an accepted archive are the manifest, at most one signature right
  after it, and payload files in strictly increasing order of their names; every name is a
  relative path that stays below whatever directory the archive is extracted to, and the files
  written are exactly the members with their contents.\<close>

theorem accepted_archive_layout:
  assumes "validateAndExtract sha parse_json lim grow ar g = (Inr (x, files), g')" and "limits_ok lim"
  shows "\<exists>man sigs pay. archive_shape (ar_members ar) man sigs pay
    \<and> sorted_wrt (<) (map mb_name pay) \<and> xt_signature x = (sigs \<noteq> [])
    \<and> xt_manifest_bytes x = mb_content man
    \<and> files = map (\<lambda>m. (mb_name m, mb_content m)) (man # sigs @ pay)
    \<and> (\<forall>m \<in> set (ar_members ar). \<forall>destination.
        path_comps (join_path destination (mb_name m))
          = path_comps destination @ split_on slash (mb_name m)
        \<and> ''..'' \<notin> set (split_on slash (mb_name m)))"
proof -
  obtain st where ex: "extracted sha lim (ar_members ar) st" and files: "files = xs_written st"
    and ne: "xs_manifest st \<noteq> []" and sorted: "sorted (xs_ordered st)"
    and bytes: "xt_manifest_bytes x = xs_manifest st" and sig: "xt_signature x = xs_signature st"
    by (rule accepted_facts [OF assms])
  have "ar_members ar \<noteq> []" using ex ne by (auto simp: extracted_def)
  from extracted_shape [OF ex this] obtain man sigs pay
    where shape: "archive_shape (ar_members ar) man sigs pay" by blast
  then have ms: "ar_members ar = man # sigs @ pay" and man: "mb_name man = ManifestName"
    by (simp_all add: archive_shape_def)
  have "distinct (map mb_name pay)" and "sorted (map mb_name pay)"
    using ex sorted shape_payload(1) [OF shape] ms by (simp_all add: extracted_def)
  then have "sorted_wrt (<) (map mb_name pay)" by (simp add: strict_sorted_iff)
  moreover have "xt_signature x = (sigs \<noteq> [])"
    using ex sig shape_payload(2) [OF shape] by (simp add: extracted_def)
  moreover have "xt_manifest_bytes x = mb_content man"
    using ex bytes man ms by (simp add: extracted_def)
  moreover have "files = map (\<lambda>m. (mb_name m, mb_content m)) (man # sigs @ pay)"
    using ex files ms by (simp add: extracted_def)
  ultimately show ?thesis
    using shape extracted_path [OF ex] by blast
qed


subsection \<open>A small archive\<close>

definition sample_member :: "string \<Rightarrow> int \<Rightarrow> byte list \<Rightarrow> member" where
  "sample_member name mode content = \<lparr>mb_ctx_done = False, mb_next_fault = False, mb_name = name,
     mb_type = TypeReg, mb_uid = 0, mb_gid = 0, mb_uname = [], mb_gname = [], mb_extended = False,
     mb_size = int (length content), mb_mode = mode, mb_content = content, mb_fault = None\<rparr>"

definition sample_archive :: archive where
  "sample_archive = \<lparr>ar_open_fault = False,
     ar_members = [sample_member ''manifest.json'' 420 [123, 125],
       sample_member ''run.tcl'' 493 [1], sample_member ''tftp/boot.bin'' 420 [2, 3]],
     ar_end_ctx_done = False, ar_end_fault = False, ar_padding = [ReadMore [0, 0], ReadEnd []]\<rparr>"

definition sample_limits :: "int \<Rightarrow> limits" where
  "sample_limits n = \<lparr>lm_compressed = 100, lm_uncompressed = 100, lm_file = 100, lm_files = n\<rparr>"

definition sample_extract :: "int \<Rightarrow> (unit archive_error + extraction \<times> (string \<times> byte list) list) \<times> unit"
where
  "sample_extract n = validateAndExtract (\<lambda>_. replicate 64 (CHR ''0''))
     (\<lambda>_. Some (manifest_json sample_manifest)) (sample_limits n) (\<lambda>_ g. (None, g)) sample_archive ()"

text \<open>The member limit is one too generous for an archive without a signature: with a limit
  of one payload file, an archive with two is accepted, although the error text of the check
  says that no more than the limit are.\<close>

theorem unsigned_archive_exceeds_file_limit:
  "\<exists>x files. validateAndExtract (\<lambda>_. replicate 64 (CHR ''0''))
      (\<lambda>_. Some (manifest_json sample_manifest))
      \<lparr>lm_compressed = 100, lm_uncompressed = 100, lm_file = 100, lm_files = 1\<rparr>
      (\<lambda>_ g. (None, g)) sample_archive () = (Inr (x, files) :: unit archive_error
        + extraction \<times> (string \<times> byte list) list, ())
    \<and> xt_payload_files x = 2"
proof -
  have "case sample_extract 1 of (Inl _, _) \<Rightarrow> False | (Inr (x, files), _) \<Rightarrow> xt_payload_files x = 2"
    by code_simp
  then show ?thesis
    by (auto simp: sample_extract_def sample_limits_def split: sum.splits prod.splits)
qed


text \<open>The examples below share the evaluation of the sample archive.\<close>

lemma sample_accepted:
  "\<exists>x files. sample_extract 2 = (Inr (x, files), ()) \<and> xt_payload_files x = 2 \<and> \<not> xt_signature x"
proof -
  have "case sample_extract 2 of (Inl _, _) \<Rightarrow> False
    | (Inr (x, files), _) \<Rightarrow> xt_payload_files x = 2 \<and> \<not> xt_signature x"
    by code_simp
  then show ?thesis by (auto split: sum.splits prod.splits)
qed

lemma sample_limits_ok: "limits_ok (sample_limits 2)"
  by (simp add: limits_ok_def validateLimits_def sample_limits_def int64_ok_def)

lemma accepted_archive_layout_witness:
  "\<exists>man sigs pay. archive_shape (ar_members sample_archive) man sigs pay
    \<and> sorted_wrt (<) (map mb_name pay)"
proof -
  obtain x files where "sample_extract 2 = (Inr (x, files), ())" using sample_accepted by blast
  from accepted_archive_layout [OF this [unfolded sample_extract_def] sample_limits_ok]
  show ?thesis by blast
qed


end
