(* ===== verification/StorageBudget.thy ===== *)
theory StorageBudget
  imports Prelude "HOL-Library.DAList"
begin

text \<open>
  The storage budget (\<open>internal/storagebudget/budget.go\<close>): the gate that admits growth of the
  station's data directory, the status derived from one directory walk, and \<open>EnsureLocked\<close> with
  its single reclaim; then the writer of \<open>internal/artifact/store.go\<close> that asks the gate for
  credit while an upload grows.

  One walk of the directory is a list of entries with cleaned paths.  The sums of file sizes are
  taken as integers: a directory whose files add up to \<open>2 ^ 63\<close> bytes is out of scope.
\<close>

subsection \<open>The gate and one walk\<close>

definition DefaultLimit :: int where "DefaultLimit = 10 * 2 ^ 30"

datatype entry =
    Directory
  | Vanished
  | WalkError
  | File string int bool \<comment> \<open>cleaned path, size, regular\<close>

record gate =
  gt_limit :: int
  gt_reservations :: "(string, int) alist"
  gt_consumption :: "string \<Rightarrow> string list" \<comment> \<open>empty for a key that is absent\<close>

definition new_gate :: "int \<Rightarrow> gate" where
  "new_gate limit = \<lparr>gt_limit = limit, gt_reservations = DAList.empty, gt_consumption = (\<lambda>_. [])\<rparr>"

definition reservations :: "gate \<Rightarrow> (string \<times> int) list" where
  "reservations g = DAList.impl_of (gt_reservations g)"

lemma distinct_reservations [simp]: "distinct (map fst (reservations g))"
  by (simp add: reservations_def impl_of_distinct)

record storage_status =
  ss_limit :: int
  ss_used :: int
  ss_reserved :: int
  ss_available :: int
  ss_over :: bool

text \<open>The map from paths to the reservation that pays for them: a later assignment wins.\<close>

definition owner_of :: "gate \<Rightarrow> string \<rightharpoonup> string" where
  "owner_of g = map_of (rev (concat (map (\<lambda>(key, _). map (\<lambda>p. (p, key)) (gt_consumption g key))
     (reservations g))))"

fun walk_size :: "entry list \<Rightarrow> int \<times> bool" where
  "walk_size [] = (0, True)"
| "walk_size (WalkError # es) = (0, False)"
| "walk_size (File _ n _ # es) = (let (m, ok) = walk_size es in (n + m, ok))"
| "walk_size (_ # es) = walk_size es"

text \<open>The walk of \<open>StatusLocked\<close>: the used bytes and what is left of every reservation.\<close>

fun scan :: "(string \<rightharpoonup> string) \<Rightarrow> entry list \<Rightarrow> int \<Rightarrow> (string \<Rightarrow> int) \<Rightarrow>
    int \<times> (string \<Rightarrow> int) \<times> bool" where
  "scan owner [] used remaining = (used, remaining, True)"
| "scan owner (WalkError # es) used remaining = (used, remaining, False)"
| "scan owner (File p n regular # es) used remaining = scan owner es (used + n)
     (case owner p of
        Some key \<Rightarrow> if regular then remaining(key := remaining key - n) else remaining
      | None \<Rightarrow> remaining)"
| "scan owner (_ # es) used remaining = scan owner es used remaining"

definition StatusLocked :: "gate \<Rightarrow> entry list \<Rightarrow> storage_status \<times> bool" where
  "StatusLocked g es =
     (let (used, remaining, ok) = scan (owner_of g) es 0
            (\<lambda>key. case map_of (reservations g) key of Some n \<Rightarrow> n | None \<Rightarrow> 0);
          reserved = (\<Sum>(key, _) \<leftarrow> reservations g. max 0 (remaining key))
      in (\<lparr>ss_limit = gt_limit g, ss_used = used, ss_reserved = reserved,
            ss_available = max 0 (gt_limit g - used - reserved),
            ss_over = (used + reserved > gt_limit g)\<rparr>, ok))"

datatype 'e ensure_error = StatusFailed | NegativeReservation | ReclaimFailed 'e | ErrFull

text \<open>\<open>EnsureLocked\<close> over a world \<open>'w\<close>: what a walk of the data directory yields in it, the gate,
  and the reclaim callback, which changes it.\<close>

definition EnsureLocked :: "('w \<Rightarrow> gate) \<Rightarrow> ('w \<Rightarrow> entry list) \<Rightarrow>
    (int \<Rightarrow> 'w \<Rightarrow> 'e option \<times> 'w) option \<Rightarrow> int \<Rightarrow> 'w \<Rightarrow> 'e ensure_error option \<times> 'w" where
  "EnsureLocked gate_of entries reclaim n w =
     (let (s, ok) = StatusLocked (gate_of w) (entries w) in
      if \<not> ok then (Some StatusFailed, w)
      else if n < 0 then (Some NegativeReservation, w)
      else if n \<le> ss_available s \<and> \<not> ss_over s then (None, w)
      else (case (case reclaim of None \<Rightarrow> (None, w) | Some f \<Rightarrow> f n w) of
          (Some e, w') \<Rightarrow> (Some (ReclaimFailed e), w')
        | (None, w') \<Rightarrow>
            (let (s', ok') = StatusLocked (gate_of w') (entries w') in
             if \<not> ok' then (Some StatusFailed, w')
             else if ss_over s' \<or> n > ss_available s' then (Some ErrFull, w')
             else (None, w'))))"

subsection \<open>What the status adds up to\<close>

fun file_size :: "entry \<Rightarrow> int" where
  "file_size (File _ n _) = n" | "file_size _ = 0"

definition used_bytes :: "entry list \<Rightarrow> int" where
  "used_bytes es = (\<Sum>e \<leftarrow> es. file_size e)"

text \<open>The bytes a reservation has already turned into output.\<close>

fun paid_by :: "(string \<rightharpoonup> string) \<Rightarrow> string \<Rightarrow> entry \<Rightarrow> int" where
  "paid_by owner key (File p n regular) = (if regular \<and> owner p = Some key then n else 0)"
| "paid_by owner key _ = 0"

definition consumed :: "gate \<Rightarrow> entry list \<Rightarrow> string \<Rightarrow> int" where
  "consumed g es key = (\<Sum>e \<leftarrow> es. paid_by (owner_of g) key e)"

definition reserved_bytes :: "gate \<Rightarrow> entry list \<Rightarrow> int" where
  "reserved_bytes g es = (\<Sum>(key, n) \<leftarrow> reservations g. max 0 (n - consumed g es key))"

text \<open>What the directory may still grow to by itself: the files and the outstanding output.\<close>

definition committed :: "gate \<Rightarrow> entry list \<Rightarrow> int" where
  "committed g es = used_bytes es + reserved_bytes g es"

lemma scan_sums:
  "WalkError \<notin> set es \<Longrightarrow> scan owner es used remaining
     = (used + used_bytes es, \<lambda>key. remaining key - (\<Sum>e \<leftarrow> es. paid_by owner key e), True)"
  by (induction owner es used remaining rule: scan.induct)
    (auto simp: used_bytes_def fun_eq_iff split: option.splits)

lemma scan_fails: "WalkError \<in> set es \<Longrightarrow> \<not> snd (snd (scan owner es used remaining))"
  by (induction owner es used remaining rule: scan.induct) auto

definition initial_remaining :: "gate \<Rightarrow> string \<Rightarrow> int" where
  "initial_remaining g key = (case map_of (reservations g) key of Some n \<Rightarrow> n | None \<Rightarrow> 0)"

lemma reserved_sum:
  "(\<Sum>(key, _) \<leftarrow> reservations g. max 0 (initial_remaining g key - consumed g es key))
    = reserved_bytes g es"
proof -
  have "(case kn of (key, _) \<Rightarrow> max 0 (initial_remaining g key - consumed g es key))
      = (case kn of (key, n) \<Rightarrow> max 0 (n - consumed g es key))"
    if "kn \<in> set (reservations g)" for kn
    by (cases kn) (use that in \<open>simp add: initial_remaining_def\<close>)
  then show ?thesis
    unfolding reserved_bytes_def by (metis (no_types, lifting) map_cong)
qed

lemma StatusLocked_sums:
  assumes "WalkError \<notin> set es"
  shows "StatusLocked g es = (\<lparr>ss_limit = gt_limit g, ss_used = used_bytes es,
      ss_reserved = reserved_bytes g es, ss_available = max 0 (gt_limit g - committed g es),
      ss_over = (committed g es > gt_limit g)\<rparr>, True)"
proof -
  have "scan (owner_of g) es 0 (initial_remaining g)
      = (used_bytes es, \<lambda>key. initial_remaining g key - consumed g es key, True)"
    using assms by (simp add: scan_sums consumed_def)
  moreover have "(\<lambda>key. case map_of (reservations g) key of Some n \<Rightarrow> n | None \<Rightarrow> 0)
      = initial_remaining g"
    by (simp add: fun_eq_iff initial_remaining_def)
  ultimately have "StatusLocked g es = (\<lparr>ss_limit = gt_limit g, ss_used = used_bytes es,
      ss_reserved = reserved_bytes g es,
      ss_available = max 0 (gt_limit g - used_bytes es - reserved_bytes g es),
      ss_over = (used_bytes es + reserved_bytes g es > gt_limit g)\<rparr>, True)"
    using reserved_sum [of g es] by (simp add: StatusLocked_def Let_def)
  then show ?thesis by (simp add: committed_def diff_diff_eq)
qed

lemma StatusLocked_ok: "snd (StatusLocked g es) = (WalkError \<notin> set es)"
  using scan_fails [of es "owner_of g"] scan_sums [of es "owner_of g"]
  by (cases "WalkError \<in> set es") (simp_all add: StatusLocked_def split_beta Let_def)

text \<open>The status is what the names of its fields say: the sizes of all files, the part of
  every reservation not yet turned into output, and what is left of the limit; it fails exactly
  when the walk meets an error.\<close>

theorem StatusLocked_spec:
  "(snd (StatusLocked g es)) = (WalkError \<notin> set es)
    \<and> (WalkError \<notin> set es \<longrightarrow> fst (StatusLocked g es) =
      \<lparr>ss_limit = gt_limit g, ss_used = used_bytes es, ss_reserved = reserved_bytes g es,
        ss_available = max 0 (gt_limit g - (used_bytes es + reserved_bytes g es)),
        ss_over = (used_bytes es + reserved_bytes g es > gt_limit g)\<rparr>)"
  using StatusLocked_sums [of es g] StatusLocked_ok [of g es] by (simp add: committed_def)

definition sample_gate :: gate where
  "sample_gate = \<lparr>gt_limit = 100, gt_reservations = DAList.update ''j1'' 30 DAList.empty,
     gt_consumption = (\<lambda>key. if key = ''j1'' then [''/d/out''] else [])\<rparr>"

definition sample_entries :: "entry list" where
  "sample_entries = [Directory, File ''/d/a'' 40 True, File ''/d/out'' 10 True, Vanished]"

lemma sample_reservations: "reservations sample_gate = [(''j1'', 30)]"
  by code_simp

lemma StatusLocked_spec_witness:
  "ss_available (fst (StatusLocked sample_gate sample_entries)) = 30
   \<and> ss_reserved (fst (StatusLocked sample_gate sample_entries)) = 20"
  using StatusLocked_spec [of sample_gate sample_entries]
  by (simp add: sample_entries_def used_bytes_def reserved_bytes_def consumed_def owner_of_def
      sample_reservations) (simp add: sample_gate_def)

subsection \<open>Admission\<close>

lemma EnsureLocked_None:
  assumes "EnsureLocked gate_of entries reclaim n w = (None, w')"
  shows "0 \<le> n \<and> committed (gate_of w') (entries w') + n \<le> gt_limit (gate_of w')"
proof -
  have status: "0 \<le> k \<and> committed g es + k \<le> gt_limit g"
    if "StatusLocked g es = (s, True)" "0 \<le> k" "k \<le> ss_available s" "\<not> ss_over s" for g es s k
  proof -
    have "WalkError \<notin> set es" using that(1) StatusLocked_ok [of g es] by simp
    from StatusLocked_sums [OF this, of g] that show ?thesis by auto
  qed
  from assms obtain s' where "StatusLocked (gate_of w') (entries w') = (s', True)"
      "0 \<le> n" "n \<le> ss_available s'" "\<not> ss_over s'"
    by (auto simp: EnsureLocked_def Let_def split: prod.splits if_splits option.splits)
  from status [OF this] show ?thesis .
qed

text \<open>C13: whatever the reclaim callback does, growth is admitted only when, in the state it is
  admitted in, the files, the outstanding reservations and the new bytes fit the limit together;
  a negative amount is never admitted.\<close>

theorem EnsureLocked_admits_within_limit:
  assumes "EnsureLocked gate_of entries reclaim n w = (None, w')"
  shows "0 \<le> n \<and> used_bytes (entries w') + reserved_bytes (gate_of w') (entries w') + n
    \<le> gt_limit (gate_of w')"
  using EnsureLocked_None [OF assms] by (simp add: committed_def)

lemma EnsureLocked_admits_within_limit_witness:
  "EnsureLocked (\<lambda>_. sample_gate) (\<lambda>w. w)
      (Some (\<lambda>_ w. (None :: unit option, filter (\<lambda>e. e \<noteq> File ''/d/a'' 40 True) w)))
      50 sample_entries = (None, [Directory, File ''/d/out'' 10 True, Vanished])
    \<and> used_bytes [Directory, File ''/d/out'' 10 True, Vanished] + 50 \<le> 100"
proof -
  have run: "EnsureLocked (\<lambda>_. sample_gate) (\<lambda>w. w)
      (Some (\<lambda>_ w. (None :: unit option, filter (\<lambda>e. e \<noteq> File ''/d/a'' 40 True) w)))
      50 sample_entries = (None, [Directory, File ''/d/out'' 10 True, Vanished])"
    by code_simp
  from EnsureLocked_admits_within_limit [OF this] show ?thesis
    using run by (simp add: sample_reservations reserved_bytes_def consumed_def owner_of_def
        used_bytes_def sample_gate_def)
qed

text \<open>Output is written without taking the gate, against a reservation made at admission.\<close>

lemma consumed_grow:
  "consumed g (pre @ File p (n + k) True # post) key
   = consumed g (pre @ File p n True # post) key + (if owner_of g p = Some key then k else 0)"
  by (simp add: consumed_def)

lemma reserved_bytes_grow:
  assumes "distinct (map fst rs)" and "(key, m) \<in> set rs" and "0 \<le> k" and "k \<le> m - f key"
    and "\<And>j. h j = f j + (if j = key then k else (0::int))"
  shows "(\<Sum>(j, n) \<leftarrow> rs. max 0 (n - h j)) = (\<Sum>(j, n) \<leftarrow> rs. max 0 (n - f j)) - k"
  using assms(1,2)
proof (induction rs)
  case (Cons r rs)
  obtain j n where r: "r = (j, n)" by (cases r)
  show ?case
  proof (cases "j = key")
    case True
    then have "key \<notin> fst ` set rs" using Cons.prems(1) r by auto
    then have "(\<Sum>(j, n) \<leftarrow> rs. max 0 (n - h j)) = (\<Sum>(j, n) \<leftarrow> rs. max 0 (n - f j))"
      using assms(5) by (intro arg_cong [where f = sum_list] map_cong [OF refl]) force
    moreover have "n = m" using Cons.prems r True \<open>key \<notin> fst ` set rs\<close> by force
    ultimately show ?thesis using assms(3-5) r True by simp
  next
    case False
    then have "(key, m) \<in> set rs" using Cons.prems(2) r by auto
    with Cons.IH Cons.prems(1) have "(\<Sum>(j, n) \<leftarrow> rs. max 0 (n - h j))
        = (\<Sum>(j, n) \<leftarrow> rs. max 0 (n - f j)) - k" by simp
    then show ?thesis using assms(5) r False by simp
  qed
qed simp

lemma used_bytes_append [simp]: "used_bytes (xs @ ys) = used_bytes xs + used_bytes ys"
  by (simp add: used_bytes_def)

lemma used_bytes_Cons [simp]: "used_bytes (e # es) = file_size e + used_bytes es"
  by (simp add: used_bytes_def)

lemma committed_reserved_write:
  assumes "owner_of g p = Some key" and "(key, m) \<in> set (reservations g)" and "0 \<le> k"
    and "k \<le> m - consumed g (pre @ File p n True # post) key"
  shows "committed g (pre @ File p (n + k) True # post) = committed g (pre @ File p n True # post)"
proof -
  have "reserved_bytes g (pre @ File p (n + k) True # post)
      = reserved_bytes g (pre @ File p n True # post) - k"
    unfolding reserved_bytes_def
    by (rule reserved_bytes_grow [where f = "consumed g (pre @ File p n True # post)",
          OF distinct_reservations assms(2-4)]) (use assms(1) in \<open>simp add: consumed_grow\<close>)
  then show ?thesis by (simp add: committed_def)
qed

text \<open>C21: output written to a file its reservation pays for, up to what is left of the
  reservation, changes neither the sum of used and reserved bytes nor the available bytes: a job
  that was admitted cannot push the station over its budget, although its writers never take the
  gate.\<close>

theorem reserved_output_is_prepaid:
  assumes "owner_of g p = Some key" and "(key, m) \<in> set (reservations g)" and "0 \<le> k"
    and "k \<le> m - consumed g (pre @ File p n True # post) key"
    and "WalkError \<notin> set (pre @ post)"
  shows "ss_available (fst (StatusLocked g (pre @ File p (n + k) True # post)))
      = ss_available (fst (StatusLocked g (pre @ File p n True # post)))
    \<and> ss_over (fst (StatusLocked g (pre @ File p (n + k) True # post)))
      = ss_over (fst (StatusLocked g (pre @ File p n True # post)))"
  using committed_reserved_write [OF assms(1-4)] assms(5)
    StatusLocked_sums [of "pre @ File p (n + k) True # post" g]
    StatusLocked_sums [of "pre @ File p n True # post" g]
  by simp

lemma reserved_output_is_prepaid_witness:
  "ss_available (fst (StatusLocked sample_gate
     ([Directory, File ''/d/a'' 40 True] @ File ''/d/out'' (10 + 20) True # [Vanished]))) = 30"
proof -
  have "owner_of sample_gate ''/d/out'' = Some ''j1''"
    and "(''j1'', 30) \<in> set (reservations sample_gate)"
    and "20 \<le> 30 - consumed sample_gate ([Directory, File ''/d/a'' 40 True] @ File ''/d/out'' 10 True # [Vanished]) ''j1''"
    and "WalkError \<notin> set ([Directory, File ''/d/a'' 40 True] @ [Vanished])"
    by (simp_all add: sample_reservations owner_of_def consumed_def) (simp_all add: sample_gate_def)
  from reserved_output_is_prepaid [OF this(1,2) _ this(3,4)]
  have "ss_available (fst (StatusLocked sample_gate
     ([Directory, File ''/d/a'' 40 True] @ File ''/d/out'' (10 + 20) True # [Vanished])))
    = ss_available (fst (StatusLocked sample_gate
     ([Directory, File ''/d/a'' 40 True] @ File ''/d/out'' 10 True # [Vanished])))"
    by simp
  also have "\<dots> = 30" by code_simp
  finally show ?thesis .
qed

subsection \<open>Credit: the contract of the gate, and an upload that relies on it\<close>

text \<open>A gate check that succeeds leaves room for what was asked; storing bytes uses up no more
  room than there are bytes.\<close>

locale storage_gate =
  fixes check :: "int \<Rightarrow> 'w \<Rightarrow> 'e option \<times> 'w"
    and room :: "'w \<Rightarrow> int"
    and stored :: "int \<Rightarrow> 'w \<Rightarrow> 'w"
  assumes check_room: "check n w = (None, w') \<Longrightarrow> n \<le> room w'"
    and stored_room: "0 \<le> k \<Longrightarrow> room w - k \<le> room (stored k w)"

text \<open>\<open>checkedWriter.Write\<close>: credit is bought from the gate 4 MiB at a time, or for just the bytes
  at hand when that much is refused.  The underlying writer stores \<open>put\<close> of the \<open>len\<close> bytes.\<close>

definition buy_credit :: "(int \<Rightarrow> 'w \<Rightarrow> 'e option \<times> 'w) \<Rightarrow> int \<Rightarrow> int \<times> 'w \<Rightarrow>
    'e option \<times> int \<times> 'w" where
  "buy_credit check len cw = (case cw of (credit, w) \<Rightarrow>
     if len > credit
     then (let n = (if 4 * 2 ^ 20 < len then len else 4 * 2 ^ 20) in
       case check n w of
         (None, w') \<Rightarrow> (None, n, w')
       | (Some _, w') \<Rightarrow> (case check len w' of
             (None, w'') \<Rightarrow> (None, len, w'')
           | (Some e, w'') \<Rightarrow> (Some e, credit, w'')))
     else (None, credit, w))"

definition checkedWrite :: "(int \<Rightarrow> 'w \<Rightarrow> 'e option \<times> 'w) \<Rightarrow> (int \<Rightarrow> 'w \<Rightarrow> 'w) \<Rightarrow> int \<Rightarrow> int \<Rightarrow>
    int \<times> 'w \<Rightarrow> 'e option \<times> int \<times> 'w" where
  "checkedWrite check stored len put cw = (case buy_credit check len cw of
       (Some e, credit, w) \<Rightarrow> (Some e, credit, w)
     | (None, credit, w) \<Rightarrow> (None, credit - put, stored put w))"

text \<open>\<open>io.Copy\<close> into the writer: it stops at the first write that is refused or falls short.\<close>

fun copy_checked :: "(int \<Rightarrow> 'w \<Rightarrow> 'e option \<times> 'w) \<Rightarrow> (int \<Rightarrow> 'w \<Rightarrow> 'w) \<Rightarrow> (int \<times> int) list \<Rightarrow>
    int \<times> 'w \<Rightarrow> 'e option \<times> int \<times> 'w" where
  "copy_checked check stored [] cw = (None, cw)"
| "copy_checked check stored ((len, put) # ws) cw = (case checkedWrite check stored len put cw of
       (Some e, cw') \<Rightarrow> (Some e, cw')
     | (None, cw') \<Rightarrow> if put < len then (None, cw') else copy_checked check stored ws cw')"

context storage_gate
begin

definition backed :: "int \<times> 'w \<Rightarrow> bool" where
  "backed cw \<longleftrightarrow> 0 \<le> fst cw \<and> fst cw \<le> room (snd cw)"

lemma bought_credit:
  assumes "buy_credit check len (credit, w) = (None, credit', w')"
    and "credit \<le> room w" and "0 \<le> credit"
  shows "len \<le> credit' \<and> credit' \<le> room w' \<and> 0 \<le> credit'"
  using assms
  by (auto simp: buy_credit_def Let_def split: if_splits prod.splits option.splits dest!: check_room)

lemma write_backed:
  assumes "checkedWrite check stored len put (credit, w) = (None, cw')"
    and "backed (credit, w)" and "0 \<le> put" and "put \<le> len"
  shows "backed cw'"
proof -
  from assms(1) obtain c w1 where buy: "buy_credit check len (credit, w) = (None, c, w1)"
    and cw': "cw' = (c - put, stored put w1)"
    by (auto simp: checkedWrite_def split: prod.splits option.splits)
  from bought_credit [OF buy] assms(2) have "len \<le> c" "c \<le> room w1"
    by (auto simp: backed_def)
  with stored_room [OF assms(3), of w1] assms(4) show ?thesis
    by (simp add: cw' backed_def)
qed

lemma copy_backed:
  "copy_checked check stored ws cw = (None, cw') \<Longrightarrow> backed cw \<Longrightarrow>
    (\<forall>(len, put) \<in> set ws. 0 \<le> put \<and> put \<le> len) \<Longrightarrow> backed cw'"
proof (induction ws arbitrary: cw)
  case (Cons lp ws)
  obtain len put where lp: "lp = (len, put)" by (cases lp)
  obtain credit w where cw: "cw = (credit, w)" by (cases cw)
  from Cons.prems(1) obtain cw1 where step: "checkedWrite check stored len put cw = (None, cw1)"
    and rest: "cw' = cw1 \<or> copy_checked check stored ws cw1 = (None, cw')"
    by (auto simp: lp split: prod.splits option.splits if_splits)
  have "backed cw1"
    by (rule write_backed [OF step [unfolded cw]]) (use Cons.prems lp cw in auto)
  with rest Cons.IH [of cw1] Cons.prems(3) show ?case by auto
qed simp

end

subsection \<open>Uploads through the budget\<close>

text \<open>The directory while an upload is being written: the temporary file is one of its files.\<close>

record upload_world =
  uw_gate :: gate
  uw_entries :: "entry list"
  uw_path :: string
  uw_size :: int

definition upload_entries :: "upload_world \<Rightarrow> entry list" where
  "upload_entries w = uw_entries w @ [File (uw_path w) (uw_size w) True]"

definition upload_room :: "upload_world \<Rightarrow> int" where
  "upload_room w = gt_limit (uw_gate w) - committed (uw_gate w) (upload_entries w)"

definition store_upload :: "int \<Rightarrow> upload_world \<Rightarrow> upload_world" where
  "store_upload k w = w\<lparr>uw_size := uw_size w + k\<rparr>"

lemma reserved_bytes_mono:
  assumes "\<And>key. consumed g es key \<le> consumed g es' key"
  shows "reserved_bytes g es' \<le> reserved_bytes g es"
  unfolding reserved_bytes_def by (rule sum_list_mono) (use assms in \<open>auto intro!: max.mono\<close>)

lemma committed_grow:
  "0 \<le> k \<Longrightarrow> committed g (es @ [File p (n + k) True]) \<le> committed g (es @ [File p n True]) + k"
  using reserved_bytes_mono [of g "es @ [File p n True]" "es @ [File p (n + k) True]"]
    consumed_grow [of g es p n k "[]"]
  by (auto simp: committed_def)

interpretation upload_gate: storage_gate "EnsureLocked uw_gate upload_entries reclaim"
  upload_room store_upload
proof unfold_locales
  fix n w w'
  assume "EnsureLocked uw_gate upload_entries reclaim n w = (None, w')"
  from EnsureLocked_None [OF this] show "n \<le> upload_room w'"
    by (simp add: upload_room_def)
next
  fix k w
  assume "0 \<le> (k :: int)"
  then show "upload_room w - k \<le> upload_room (store_upload k w)"
    using committed_grow [of k "uw_gate w" "uw_entries w" "uw_path w" "uw_size w"]
    by (simp add: upload_room_def store_upload_def upload_entries_def)
qed

text \<open>C22: an upload copied through the checking writer, in whatever pieces and with whatever
  reclaim, ends with the station within its limit when it was within it before.\<close>

theorem checked_upload_within_limit:
  assumes "copy_checked (EnsureLocked uw_gate upload_entries reclaim) store_upload ws (0, w)
      = (None, credit, w')"
    and "used_bytes (upload_entries w) + reserved_bytes (uw_gate w) (upload_entries w)
      \<le> gt_limit (uw_gate w)"
    and "\<forall>(len, put) \<in> set ws. 0 \<le> put \<and> put \<le> len"
  shows "used_bytes (upload_entries w') + reserved_bytes (uw_gate w') (upload_entries w') + credit
      \<le> gt_limit (uw_gate w') \<and> 0 \<le> credit"
proof -
  have "upload_gate.backed (0, w)"
    using assms(2) by (simp add: upload_gate.backed_def upload_room_def committed_def)
  from upload_gate.copy_backed [OF assms(1) this assms(3)] show ?thesis
    by (simp add: upload_gate.backed_def upload_room_def committed_def)
qed

lemma checked_upload_within_limit_witness:
  "\<exists>w'. copy_checked (EnsureLocked uw_gate upload_entries (None :: (int \<Rightarrow> upload_world \<Rightarrow> unit option \<times> upload_world) option))
      store_upload [(10, 10), (5, 5)]
      (0, \<lparr>uw_gate = sample_gate, uw_entries = sample_entries, uw_path = ''/d/tmp/u'', uw_size = 0\<rparr>)
      = (None, 0, w') \<and> uw_size w' = 15
    \<and> used_bytes (upload_entries w') + reserved_bytes (uw_gate w') (upload_entries w')
      \<le> gt_limit (uw_gate w')"
proof -
  let ?w = "\<lparr>uw_gate = sample_gate, uw_entries = sample_entries, uw_path = ''/d/tmp/u'', uw_size = 0\<rparr>"
  let ?check = "EnsureLocked uw_gate upload_entries (None :: (int \<Rightarrow> upload_world \<Rightarrow> unit option \<times> upload_world) option)"
  have "case copy_checked ?check store_upload [(10, 10), (5, 5)] (0, ?w) of
      (Some _, _) \<Rightarrow> False | (None, credit, w') \<Rightarrow> credit = 0 \<and> uw_size w' = 15"
    by code_simp
  then obtain w' where run: "copy_checked ?check store_upload [(10, 10), (5, 5)] (0, ?w) = (None, 0, w')"
    and size: "uw_size w' = 15"
    by (auto split: prod.splits option.splits)
  have "used_bytes (upload_entries ?w) + reserved_bytes (uw_gate ?w) (upload_entries ?w)
      \<le> gt_limit (uw_gate ?w)"
    by code_simp
  from checked_upload_within_limit [OF run this] run size show ?thesis by auto
qed

end
