(* ===== verification/Store.thy ===== *)
theory Store
  imports Archive StorageBudget "HOL-Library.Countable"
begin

text \<open>
  The artifact store (\<open>internal/artifact/store.go\<close>): a directory of content-addressed artifact
  directories.  A directory tree is a list of relative paths with their nodes in walk order.
  \<open>Import\<close>, \<open>Load\<close>, \<open>List\<close>, \<open>Verify\<close>, \<open>OwnedSize\<close>, \<open>Remove\<close> and \<open>CleanStaging\<close> act on that state;
  a file-system operation that fails is chosen by a fault argument.  The temporary upload and
  the staging directory are removed on every exit of \<open>Import\<close>, so only their size while it runs
  is kept (\<open>so_temporary\<close>).

  Parameters: the digest \<open>sha\<close>, the JSON text (\<open>parse_json\<close>, \<open>print_json\<close>), the text of a time
  stamp (\<open>parse_time\<close>, \<open>print_time\<close>), and \<open>untar\<close>, the gzip and tar reading of the archive bytes.
\<close>

subsection \<open>State\<close>

datatype node = NDir | NFile "byte list" int | NSpecial int

type_synonym tree = "(string \<times> node) list"

datatype top = TopDir tree | TopOther

record store =
  so_path :: string \<comment> \<open>the artifacts directory\<close>
  so_artifacts :: "(string \<times> top) list"
  so_tmp :: "string list"
  so_limits :: limits
  so_temporary :: int

record stored_artifact =
  sa_id :: string
  sa_imported :: int
  sa_compressed :: int
  sa_uncompressed :: int
  sa_has_signature :: bool
  sa_manifest :: manifest
  sa_archive_path :: string
  sa_root_path :: string

definition metadataFilename :: string where "metadataFilename = ''artifact.json''"
definition archiveFilename :: string where "archiveFilename = ''artifact.tar.gz''"

definition zero_artifact :: stored_artifact where
  "zero_artifact = \<lparr>sa_id = [], sa_imported = 0, sa_compressed = 0, sa_uncompressed = 0,
     sa_has_signature = False, sa_manifest = empty_manifest, sa_archive_path = [],
     sa_root_path = []\<rparr>"

subsection \<open>Metadata\<close>

definition decode_bool :: "json \<Rightarrow> bool \<Rightarrow> bool option" where
  "decode_bool v old = (case v of JNull \<Rightarrow> Some old | JBool b \<Rightarrow> Some b | _ \<Rightarrow> None)"

definition decode_time :: "(string \<Rightarrow> int option) \<Rightarrow> json \<Rightarrow> int \<Rightarrow> int option" where
  "decode_time parse_time v old = (case v of JNull \<Rightarrow> Some old | JStr s \<Rightarrow> parse_time s | _ \<Rightarrow> None)"

definition record_fields :: "(string \<Rightarrow> int option) \<Rightarrow> stored_artifact fields" where
  "record_fields parse_time =
     [(''id'', \<lambda>v r. map_option (\<lambda>x. r\<lparr>sa_id := x\<rparr>) (decode_string v (sa_id r))),
      (''importedUtc'', \<lambda>v r. map_option (\<lambda>x. r\<lparr>sa_imported := x\<rparr>)
         (decode_time parse_time v (sa_imported r))),
      (''compressedBytes'', \<lambda>v r. map_option (\<lambda>x. r\<lparr>sa_compressed := x\<rparr>)
         (decode_int v (sa_compressed r))),
      (''uncompressedBytes'', \<lambda>v r. map_option (\<lambda>x. r\<lparr>sa_uncompressed := x\<rparr>)
         (decode_int v (sa_uncompressed r))),
      (''hasSignature'', \<lambda>v r. map_option (\<lambda>x. r\<lparr>sa_has_signature := x\<rparr>)
         (decode_bool v (sa_has_signature r))),
      (''manifest'', \<lambda>v r. map_option (\<lambda>x. r\<lparr>sa_manifest := x\<rparr>)
         (decode_struct manifest_fields v (sa_manifest r)))]"

definition record_json :: "(int \<Rightarrow> string) \<Rightarrow> stored_artifact \<Rightarrow> json" where
  "record_json print_time r = JObj
     [(''id'', JStr (sa_id r)), (''importedUtc'', JStr (print_time (sa_imported r))),
      (''compressedBytes'', JNum (itoa (sa_compressed r))),
      (''uncompressedBytes'', JNum (itoa (sa_uncompressed r))),
      (''hasSignature'', JBool (sa_has_signature r)),
      (''manifest'', manifest_json (sa_manifest r))]"

subsection \<open>Loading\<close>

datatype load_error = BadArtifactID | NotFound | UnsafePath | BadMetadata | WrongID | BadManifest manifest_error

definition node_at :: "tree \<Rightarrow> string \<Rightarrow> node option" where
  "node_at t rel = (if rel = [] then Some NDir else map_of t rel)"

fun is_regular :: "node \<Rightarrow> bool" where
  "is_regular (NFile _ _) = True" | "is_regular _ = False"

fun check_items :: "tree \<Rightarrow> (string \<times> bool) list \<Rightarrow> load_error option" where
  "check_items t [] = None"
| "check_items t ((rel, directory) # rest) = (case node_at t rel of
       None \<Rightarrow> Some NotFound
     | Some n \<Rightarrow> if (directory \<and> n \<noteq> NDir) \<or> (\<not> directory \<and> \<not> is_regular n) then Some UnsafePath
                else check_items t rest)"

definition file_bytes :: "tree \<Rightarrow> string \<Rightarrow> byte list option" where
  "file_bytes t rel = (case map_of t rel of Some (NFile bs _) \<Rightarrow> Some bs | _ \<Rightarrow> None)"

definition Directory_of :: "store \<Rightarrow> string \<Rightarrow> string" where
  "Directory_of so key = join_path (so_path so) key"

definition Load :: "(byte list \<Rightarrow> json option) \<Rightarrow> (string \<Rightarrow> int option) \<Rightarrow> store \<Rightarrow> string \<Rightarrow>
    load_error + stored_artifact" where
  "Load parse_json parse_time so key =
     (if \<not> sha256Pattern key then Inl BadArtifactID
      else (case map_of (so_artifacts so) key of
        None \<Rightarrow> Inl NotFound
      | Some TopOther \<Rightarrow> Inl UnsafePath
      | Some (TopDir t) \<Rightarrow>
          (case check_items t [('''', True), (''payload'', True), (archiveFilename, False),
                               (metadataFilename, False)] of
             Some e \<Rightarrow> Inl e
           | None \<Rightarrow> (case file_bytes t metadataFilename of
               None \<Rightarrow> Inl NotFound
             | Some data \<Rightarrow>
                 (case Option.bind (parse_json data)
                         (\<lambda>v. decode_struct (record_fields parse_time) v zero_artifact) of
                    None \<Rightarrow> Inl BadMetadata
                  | Some r \<Rightarrow>
                      if sa_id r \<noteq> key then Inl WrongID
                      else (case Validate (sa_manifest r) of
                        Some e \<Rightarrow> Inl (BadManifest e)
                      | None \<Rightarrow> Inr (r\<lparr>sa_archive_path := join_path (Directory_of so key) archiveFilename,
                                   sa_root_path := join_path (Directory_of so key) ''payload''\<rparr>)))))))"

text \<open>\<open>sort.Slice\<close> by descending import time; the library does not promise an order among equal
  times, the model keeps the directory order.\<close>

definition List_artifacts :: "(byte list \<Rightarrow> json option) \<Rightarrow> (string \<Rightarrow> int option) \<Rightarrow> store \<Rightarrow>
    stored_artifact list" where
  "List_artifacts parse_json parse_time so = sort_key (\<lambda>r. - sa_imported r)
     (concat (map (\<lambda>(name, t). case t of
        TopOther \<Rightarrow> []
      | TopDir _ \<Rightarrow> if \<not> sha256Pattern name then []
          else (case Load parse_json parse_time so name of Inl _ \<Rightarrow> [] | Inr r \<Rightarrow> [r]))
      (so_artifacts so)))"

subsection \<open>Owned files\<close>

text \<open>The directories above a file: the non-empty proper prefixes of its components.\<close>

definition parent_dirs :: "string \<Rightarrow> string list" where
  "parent_dirs p = (let cs = split_on slash p in
     map (\<lambda>k. join_with slash (take k cs)) [1..<length cs])"

definition allowed_files :: "stored_artifact \<Rightarrow> string list" where
  "allowed_files r = [metadataFilename, archiveFilename, ''payload/'' @ ManifestName]
     @ (if sa_has_signature r then [''payload/'' @ SignatureName] else [])
     @ map (\<lambda>pd. ''payload/'' @ fst pd) (mf_files (sa_manifest r))"

definition allowed_dirs :: "stored_artifact \<Rightarrow> string list" where
  "allowed_dirs r = ''payload'' # concat (map parent_dirs (allowed_files r))"

fun node_size :: "node \<Rightarrow> int" where
  "node_size NDir = 0" | "node_size (NFile bs _) = int (length bs)" | "node_size (NSpecial n) = n"

definition owned_node :: "stored_artifact \<Rightarrow> string \<times> node \<Rightarrow> bool" where
  "owned_node r pn = (case pn of (path, n) \<Rightarrow>
     if n = NDir then path \<in> set (allowed_dirs r)
     else path \<in> set (allowed_files r) \<and> is_regular n)"

definition OwnedSize :: "(byte list \<Rightarrow> json option) \<Rightarrow> (string \<Rightarrow> int option) \<Rightarrow> store \<Rightarrow> string \<Rightarrow>
    load_error + int \<times> bool" where
  "OwnedSize parse_json parse_time so key = (case Load parse_json parse_time so key of
       Inl e \<Rightarrow> Inl e
     | Inr r \<Rightarrow> (case map_of (so_artifacts so) key of
         Some (TopDir t) \<Rightarrow> Inr (\<Sum>pn \<leftarrow> t. node_size (snd pn), list_all (owned_node r) t)
       | _ \<Rightarrow> Inl NotFound))"

subsection \<open>Removal and staging\<close>

datatype remove_fault = MarkerFault | StageFault | UnlinkFault tree \<comment> \<open>what the unlink left\<close>

datatype remove_error = InvalidID | CannotLoad load_error | UnknownState | RemoveFailed

definition deletion_stage :: "string \<Rightarrow> nat \<Rightarrow> string" where
  "deletion_stage key n = ''.delete-'' @ key @ ''-'' @ show_nat n"

definition drop_key :: "string \<Rightarrow> (string \<times> top) list \<Rightarrow> (string \<times> top) list" where
  "drop_key key ts = filter (\<lambda>nt. fst nt \<noteq> key) ts"

definition Remove :: "(byte list \<Rightarrow> json option) \<Rightarrow> (string \<Rightarrow> int option) \<Rightarrow> remove_fault option \<Rightarrow>
    nat \<Rightarrow> string \<Rightarrow> store \<Rightarrow> remove_error option \<times> store" where
  "Remove parse_json parse_time fault n key so =
     (if \<not> sha256Pattern key then (Some InvalidID, so)
      else (case OwnedSize parse_json parse_time so key of
        Inl e \<Rightarrow> (Some (CannotLoad e), so)
      | Inr (_, safe) \<Rightarrow>
          if \<not> safe then (Some UnknownState, so)
          else (case fault of
              Some MarkerFault \<Rightarrow> (Some RemoveFailed, so)
            | Some StageFault \<Rightarrow> (Some RemoveFailed, so)
            | Some (UnlinkFault left) \<Rightarrow> (Some RemoveFailed, so\<lparr>so_artifacts :=
                drop_key key (so_artifacts so) @ [(deletion_stage key n, TopDir left)]\<rparr>)
            | None \<Rightarrow> (None, so\<lparr>so_artifacts := drop_key key (so_artifacts so)\<rparr>))))"

text \<open>The two name patterns of \<open>CleanStaging\<close>.\<close>

definition all_digits :: "string \<Rightarrow> bool" where
  "all_digits s \<longleftrightarrow> s \<noteq> [] \<and> list_all is_digit s"

definition strip_prefix :: "string \<Rightarrow> string \<Rightarrow> string option" where
  "strip_prefix p s = (if prefix p s then Some (drop (length p) s) else None)"

definition staged_upload :: "string \<Rightarrow> bool" where
  "staged_upload name \<longleftrightarrow> (case strip_prefix ''.upload-'' name of
       None \<Rightarrow> False
     | Some rest \<Rightarrow> suffix ''.tar.gz'' rest \<and> all_digits (take (length rest - 7) rest))"

definition staged_artifact :: "string \<Rightarrow> bool" where
  "staged_artifact name \<longleftrightarrow> (case strip_prefix ''.import-'' name of
       Some rest \<Rightarrow> all_digits rest
     | None \<Rightarrow> (case strip_prefix ''.delete-'' name of
         Some rest \<Rightarrow> sha256Pattern (take 64 rest) \<and> prefix ''-'' (drop 64 rest)
                     \<and> all_digits (drop 65 rest)
       | None \<Rightarrow> False))"

definition CleanStaging :: "store \<Rightarrow> store" where
  "CleanStaging so = so\<lparr>so_tmp := filter (\<lambda>n. \<not> staged_upload n) (so_tmp so),
     so_artifacts := filter (\<lambda>nt. \<not> staged_artifact (fst nt)) (so_artifacts so)\<rparr>"

lemma is_lower_hex_not_dot: "\<not> is_lower_hex (CHR ''.'')"
  by (simp add: is_lower_hex_def is_digit_def)

lemma sha256Pattern_not_staged:
  assumes "sha256Pattern name"
  shows "\<not> staged_artifact name"
proof -
  from assms obtain c cs where name: "name = c # cs" and c: "is_lower_hex c"
    by (cases name) (auto simp: sha256Pattern_def)
  have "c \<noteq> CHR ''.''" using c is_lower_hex_not_dot by auto
  then show ?thesis
    by (simp add: staged_artifact_def strip_prefix_def name)
qed

lemma deletion_stage_staged:
  "sha256Pattern key \<Longrightarrow> staged_artifact (deletion_stage key n)"
proof -
  assume key: "sha256Pattern key"
  then have len: "length key = 64" by (simp add: sha256Pattern_def)
  have "all_digits (show_nat n)"
    using show_nat_digits by (auto simp: all_digits_def list_all_iff)
  with key len show ?thesis
    by (simp add: staged_artifact_def strip_prefix_def deletion_stage_def)
qed

lemma Remove_cases:
  assumes "Remove parse_json parse_time fault n key so = (err, so')"
  shows "(so' = so \<and> err \<noteq> None) \<or> (sha256Pattern key \<and> map_of (so_artifacts so) key \<noteq> None
    \<and> (so' = so\<lparr>so_artifacts := drop_key key (so_artifacts so)\<rparr>
       \<or> (\<exists>left. fault = Some (UnlinkFault left) \<and> err = Some RemoveFailed
           \<and> so' = so\<lparr>so_artifacts := drop_key key (so_artifacts so)
                      @ [(deletion_stage key n, TopDir left)]\<rparr>)))"
  using assms
  by (auto simp: Remove_def OwnedSize_def split: if_splits sum.splits option.splits remove_fault.splits
      top.splits)

lemma map_of_drop_key: "map_of (drop_key key ts) = (map_of ts)(key := None)"
  by (induction ts) (auto simp: drop_key_def fun_eq_iff)


subsection \<open>A sample store\<close>

definition sample_key :: string where "sample_key = replicate 64 (CHR ''0'')"

definition sample_record :: stored_artifact where
  "sample_record = \<lparr>sa_id = sample_key, sa_imported = 7, sa_compressed = 1, sa_uncompressed = 5,
     sa_has_signature = False, sa_manifest = sample_manifest, sa_archive_path = [],
     sa_root_path = []\<rparr>"

definition sample_parse_json :: "byte list \<Rightarrow> json option" where
  "sample_parse_json bs = (if bs = [1] then Some (record_json itoa sample_record)
     else if bs = [123, 125] then Some (manifest_json sample_manifest) else None)"

definition sample_parse_time :: "string \<Rightarrow> int option" where "sample_parse_time = atoi"

definition sample_tree :: tree where
  "sample_tree = [(''artifact.json'', NFile [1] 384), (''artifact.tar.gz'', NFile [2] 384),
     (''payload'', NDir), (''payload/manifest.json'', NFile [123, 125] 420),
     (''payload/run.tcl'', NFile [1] 493), (''payload/tftp'', NDir),
     (''payload/tftp/boot.bin'', NFile [2, 3] 420)]"

definition sample_store :: store where
  "sample_store = \<lparr>so_path = ''/data/artifacts'', so_artifacts = [(sample_key, TopDir sample_tree)],
     so_tmp = [''.upload-1.tar.gz'', ''keep''], so_limits = sample_limits 2, so_temporary = 0\<rparr>"


subsection \<open>Import\<close>

datatype import_fault =
    CreateUploadFault | UploadCopyFault | UploadCloseFault | StagingFault | MoveFault
  | WriteMetadataFault | RenameFault

datatype 'e import_error =
    ImportFault import_fault
  | UploadRefused 'e
  | TooLarge
  | EmptyUpload
  | BadArchive "'e archive_error"
  | MetadataRefused 'e
  | PublishFailed

definition store_temporary :: "int \<Rightarrow> store \<Rightarrow> store" where
  "store_temporary k so = so\<lparr>so_temporary := so_temporary so + k\<rparr>"

definition published_tree :: "member list \<Rightarrow> byte list \<Rightarrow> byte list \<Rightarrow> tree" where
  "published_tree ms data metadata =
     [(metadataFilename, NFile metadata 384), (archiveFilename, NFile data 384), (''payload'', NDir)]
     @ concat (map (\<lambda>m. map (\<lambda>d. (''payload/'' @ d, NDir)) (parent_dirs (mb_name m))
         @ [(''payload/'' @ mb_name m, NFile (mb_content m) (mb_mode m))]) ms)"

record codec =
  cd_sha :: "byte list \<Rightarrow> string"
  cd_untar :: "byte list \<Rightarrow> archive"
  cd_parse_json :: "byte list \<Rightarrow> json option"
  cd_print_json :: "json \<Rightarrow> byte list"
  cd_parse_time :: "string \<Rightarrow> int option"
  cd_print_time :: "int \<Rightarrow> string"

definition load :: "codec \<Rightarrow> store \<Rightarrow> string \<Rightarrow> load_error + stored_artifact" where
  "load cd so key = Load (cd_parse_json cd) (cd_parse_time cd) so key"

text \<open>The upload as it reaches the disk: pieces are cut off after the compressed limit plus one.\<close>

fun limit_pieces :: "int \<Rightarrow> byte list list \<Rightarrow> byte list list" where
  "limit_pieces n [] = []"
| "limit_pieces n (p # ps) = (if n \<le> 0 then []
     else (let q = take (nat n) p in q # limit_pieces (n - int (length q)) ps))"

definition publish :: "codec \<Rightarrow> stored_artifact \<Rightarrow> member list \<Rightarrow> byte list \<Rightarrow> byte list \<Rightarrow>
    import_fault option \<Rightarrow> store \<Rightarrow> ('e import_error + stored_artifact) \<times> store" where
  "publish cd r ms data metadata fault so =
     (let key = sa_id r in
      if fault = Some RenameFault \<or> map_of (so_artifacts so) key \<noteq> None
      then (case load cd so key of
          Inr existing \<Rightarrow> (Inr existing, so)
        | Inl _ \<Rightarrow> (Inl PublishFailed, so))
      else (Inr (r\<lparr>sa_archive_path := join_path (Directory_of so key) archiveFilename,
                  sa_root_path := join_path (Directory_of so key) ''payload''\<rparr>),
            so\<lparr>so_artifacts := so_artifacts so @ [(key, TopDir (published_tree ms data metadata))]\<rparr>))"

definition import_staged :: "codec \<Rightarrow> (int \<Rightarrow> store \<Rightarrow> 'e option \<times> store) \<Rightarrow> import_fault option \<Rightarrow> int \<Rightarrow>
    byte list \<Rightarrow> string \<Rightarrow> store \<Rightarrow> ('e import_error + stored_artifact) \<times> store" where
  "import_staged cd check fault now data key so =
     (if fault = Some StagingFault then (Inl (ImportFault StagingFault), so)
      else (let ar = cd_untar cd data in
        case validateAndExtract (cd_sha cd) (cd_parse_json cd) (so_limits so) check ar so of
          (Inl e, so') \<Rightarrow> (Inl (BadArchive e), so')
        | (Inr (x, files), so') \<Rightarrow>
            if fault = Some MoveFault then (Inl (ImportFault MoveFault), so')
            else (let r = \<lparr>sa_id = key, sa_imported = now, sa_compressed = int (length data),
                           sa_uncompressed = xt_uncompressed x, sa_has_signature = xt_signature x,
                           sa_manifest = xt_manifest x, sa_archive_path = [], sa_root_path = []\<rparr>;
                      metadata = cd_print_json cd (record_json (cd_print_time cd) r) @ [10]
                  in case check (int (length metadata)) so' of
                    (Some e, so'') \<Rightarrow> (Inl (MetadataRefused e), so'')
                  | (None, so'') \<Rightarrow>
                      if fault = Some WriteMetadataFault
                      then (Inl (ImportFault WriteMetadataFault), so'')
                      else publish cd r (ar_members ar) data metadata fault so'')))"

definition import_upload :: "codec \<Rightarrow> (int \<Rightarrow> store \<Rightarrow> 'e option \<times> store) \<Rightarrow> import_fault option \<Rightarrow> int \<Rightarrow>
    byte list list \<Rightarrow> store \<Rightarrow> ('e import_error + stored_artifact) \<times> store" where
  "import_upload cd check fault now pieces so =
     (if fault = Some CreateUploadFault then (Inl (ImportFault CreateUploadFault), so)
      else (let ps = limit_pieces (lm_compressed (so_limits so) + 1) pieces; data = concat ps in
        case copy_checked check store_temporary (map (\<lambda>p. (int (length p), int (length p))) ps) (0, so) of
          (Some e, _, so') \<Rightarrow> (Inl (UploadRefused e), so')
        | (None, _, so') \<Rightarrow>
            if fault = Some UploadCopyFault then (Inl (ImportFault UploadCopyFault), so')
            else if fault = Some UploadCloseFault then (Inl (ImportFault UploadCloseFault), so')
            else if int (length data) > lm_compressed (so_limits so') then (Inl TooLarge, so')
            else if data = [] then (Inl EmptyUpload, so')
            else (case load cd so' (cd_sha cd data) of
                Inr existing \<Rightarrow> (Inr existing, so')
              | Inl _ \<Rightarrow> import_staged cd check fault now data (cd_sha cd data) so')))"

definition Import :: "codec \<Rightarrow> (int \<Rightarrow> store \<Rightarrow> 'e option \<times> store) \<Rightarrow> import_fault option \<Rightarrow> int \<Rightarrow>
    byte list list \<Rightarrow> store \<Rightarrow> ('e import_error + stored_artifact) \<times> store" where
  "Import cd check fault now pieces so =
     (let (result, so') = import_upload cd check fault now pieces so
      in (result, so'\<lparr>so_temporary := 0\<rparr>))"

text \<open>The laws of the parameters the import relies on.\<close>

definition codec_ok :: "codec \<Rightarrow> bool" where
  "codec_ok cd \<longleftrightarrow> (\<forall>bs. sha256Pattern (cd_sha cd bs))
     \<and> (\<forall>v. cd_parse_json cd (cd_print_json cd v @ [10]) = Some v)
     \<and> (\<forall>t. int64_ok t \<longrightarrow> cd_parse_time cd (cd_print_time cd t) = Some t)"

text \<open>A growth check may reclaim whole artifacts, nothing else.\<close>

definition reclaims :: "store \<Rightarrow> store \<Rightarrow> bool" where
  "reclaims so so' \<longleftrightarrow> so_path so' = so_path so \<and> so_limits so' = so_limits so
     \<and> (\<forall>key. map_of (so_artifacts so') key = map_of (so_artifacts so) key
          \<or> map_of (so_artifacts so') key = None)"

lemma load_cong:
  assumes "so_path so' = so_path so" and "map_of (so_artifacts so') key = map_of (so_artifacts so) key"
  shows "load cd so' key = load cd so key"
proof -
  have "Directory_of so' = Directory_of so"
    using assms(1) by (simp add: Directory_of_def fun_eq_iff)
  then show ?thesis unfolding load_def Load_def by (simp only: assms(2))
qed

lemma load_id: "load cd so key = Inr r \<Longrightarrow> sa_id r = key"
  by (auto simp: load_def Load_def split: if_splits option.splits top.splits)

lemma reclaims_refl [simp]: "reclaims so so"
  by (simp add: reclaims_def)

lemma reclaims_trans: "reclaims a b \<Longrightarrow> reclaims b c \<Longrightarrow> reclaims a c"
  unfolding reclaims_def by metis

lemma reclaims_temporary [simp]: "reclaims so (so\<lparr>so_temporary := n\<rparr>)"
  by (simp add: reclaims_def)

lemma copy_reclaims:
  assumes "\<And>n s e s'. check n s = (e, s') \<Longrightarrow> reclaims s s'"
  shows "copy_checked check store_temporary ws (c, s) = (e, c', s') \<Longrightarrow> reclaims s s'"
proof (induction ws arbitrary: c s)
  case (Cons lp ws)
  obtain len put where lp: "lp = (len, put)" by (cases lp)
  have buy: "reclaims s s1" if "buy_credit check len (c, s) = (e1, c1, s1)" for e1 c1 s1
    using that
    by (auto simp: buy_credit_def Let_def split: if_splits prod.splits option.splits
        intro: assms reclaims_trans)
  have wrote: "reclaims s s1" if "checkedWrite check store_temporary len put (c, s) = (e1, c1, s1)"
    for e1 c1 s1
    using that buy
    by (auto simp: checkedWrite_def store_temporary_def split: prod.splits option.splits
        intro: reclaims_trans)
  show ?case
    using Cons wrote by (auto simp: lp split: prod.splits option.splits if_splits intro: reclaims_trans)
qed simp

lemma extract_members_reclaims:
  assumes "\<And>n s e s'. grow n s = (e, s') \<Longrightarrow> reclaims s s'"
  shows "extract_members sha lim grow ms g st = (r, g') \<Longrightarrow> reclaims g g'"
proof (induction ms arbitrary: g st)
  case (Cons m ms)
  have step: "reclaims g g1" if "extract_member sha lim grow m g st = (r1, g1)" for r1 g1
    using that assms
    by (auto simp: extract_member_def Let_def split: if_splits option.splits prod.splits)
  show ?case
    using Cons step by (auto split: prod.splits sum.splits intro: reclaims_trans)
qed simp

lemma validateAndExtract_reclaims:
  assumes "\<And>n s e s'. grow n s = (e, s') \<Longrightarrow> reclaims s s'"
    and "validateAndExtract sha parse_json lim grow ar g = (r, g')"
  shows "reclaims g g'"
  using assms(2) extract_members_reclaims [of grow, OF assms(1)]
  by (auto simp: validateAndExtract_def split: if_splits prod.splits sum.splits)

lemma decode_struct_obj: "decode_struct fs (JObj kvs) r = decode_members fs kvs r"
  by (simp add: decode_struct_def)

lemma decode_record_json:
  assumes "cd_parse_time cd (cd_print_time cd (sa_imported r)) = Some (sa_imported r)"
    and "int64_ok (sa_compressed r)" and "int64_ok (sa_uncompressed r)"
    and "decode_struct manifest_fields (manifest_json (sa_manifest r)) empty_manifest
      = Some (sa_manifest r)"
  shows "decode_struct (record_fields (cd_parse_time cd)) (record_json (cd_print_time cd) r) zero_artifact
    = Some (r\<lparr>sa_archive_path := [], sa_root_path := []\<rparr>)"
  using assms
  by (simp add: decode_struct_obj record_json_def record_fields_def find_field_def
      decode_string_def decode_int_def decode_bool_def decode_time_def atoi_itoa zero_artifact_def)

lemma check_published:
  "check_items (published_tree ms data metadata) [('''', True), (''payload'', True),
      (archiveFilename, False), (metadataFilename, False)] = None"
  "file_bytes (published_tree ms data metadata) metadataFilename = Some metadata"
  by (simp_all add: published_tree_def node_at_def file_bytes_def archiveFilename_def
      metadataFilename_def)

lemma load_published:
  assumes "map_of (so_artifacts so) key = Some (TopDir (published_tree ms data
      (cd_print_json cd (record_json (cd_print_time cd) r) @ [10])))"
    and "codec_ok cd" and "sha256Pattern key" and "sa_id r = key"
    and "int64_ok (sa_compressed r)" and "int64_ok (sa_uncompressed r)" and "int64_ok (sa_imported r)"
    and "Validate (sa_manifest r) = None" and "distinct (map fst (mf_files (sa_manifest r)))"
    and "\<forall>(p, d) \<in> set (mf_files (sa_manifest r)). int64_ok (fd_size d)"
  shows "load cd so key = Inr (r\<lparr>sa_archive_path := join_path (Directory_of so key) archiveFilename,
      sa_root_path := join_path (Directory_of so key) ''payload''\<rparr>)"
proof -
  have "mf_format_version (sa_manifest r) = 2"
    using assms(8) by (auto simp: Validate_None validate_metadata_def FormatVersion_def split: if_splits)
  then have "decode_struct manifest_fields (manifest_json (sa_manifest r)) empty_manifest
      = Some (sa_manifest r)"
    using assms(9,10) by (intro decode_manifest_json) (simp_all add: int64_ok_def)
  then have "decode_struct (record_fields (cd_parse_time cd)) (record_json (cd_print_time cd) r)
      zero_artifact = Some (r\<lparr>sa_archive_path := [], sa_root_path := []\<rparr>)"
    using assms(2,5-7) by (intro decode_record_json) (simp_all add: codec_ok_def)
  moreover have "cd_parse_json cd (cd_print_json cd (record_json (cd_print_time cd) r) @ [10])
      = Some (record_json (cd_print_time cd) r)"
    using assms(2) by (simp add: codec_ok_def)
  ultimately show ?thesis
    using assms(1,3,4,8) by (simp add: load_def Load_def check_published del: check_items.simps)
qed

lemma import_staged_ok:
  fixes check :: "int \<Rightarrow> store \<Rightarrow> 'e option \<times> store"
  assumes "import_staged cd check fault now data key so = (Inr r, so')"
    and "\<And>n s e s'. check n s = (e, s') \<Longrightarrow> reclaims s s'"
    and "codec_ok cd" and "limits_ok (so_limits so)" and "sha256Pattern key"
    and "int (length data) \<le> lm_compressed (so_limits so)" and "int64_ok now"
  shows "load cd so' key = Inr r \<and> so_path so' = so_path so
    \<and> (\<forall>other. other \<noteq> key \<longrightarrow> map_of (so_artifacts so') other \<in> {map_of (so_artifacts so) other, None})"
proof -
  obtain x files so1 so2 r0 metadata where
      extr: "validateAndExtract (cd_sha cd) (cd_parse_json cd) (so_limits so) check (cd_untar cd data) so
        = (Inr (x, files), so1)"
    and r0: "r0 = \<lparr>sa_id = key, sa_imported = now, sa_compressed = int (length data),
        sa_uncompressed = xt_uncompressed x, sa_has_signature = xt_signature x,
        sa_manifest = xt_manifest x, sa_archive_path = [], sa_root_path = []\<rparr>"
    and metadata: "metadata = cd_print_json cd (record_json (cd_print_time cd) r0) @ [10]"
    and check: "check (int (length metadata)) so1 = (None, so2)"
    and publish: "publish cd r0 (ar_members (cd_untar cd data)) data metadata fault so2
        = (Inr r :: 'e import_error + stored_artifact, so')"
    using assms(1) by (auto simp: import_staged_def Let_def split: if_splits prod.splits sum.splits option.splits)
  have "reclaims so so1" by (rule validateAndExtract_reclaims [OF assms(2) extr])
  from reclaims_trans [OF this assms(2) [OF check]] have so2: "reclaims so so2" .
  note storable = accepted_storable [OF extr assms(4)]
  have "int64_ok (int (length data))"
    using assms(4,6) by (auto simp: limits_ok_def int64_ok_def)
  note loads = load_published [where cd = cd and r = r0 and key = key and data = data
      and ms = "ar_members (cd_untar cd data)", folded metadata, OF _ assms(3,5)]
  show ?thesis
  proof (cases "fault = Some RenameFault \<or> map_of (so_artifacts so2) key \<noteq> None")
    case True
    then have "load cd so2 key = Inr r" and "so' = so2"
      using publish r0 by (auto simp: publish_def split: sum.splits)
    with so2 show ?thesis by (auto simp: reclaims_def)
  next
    case False
    then have r: "r = r0\<lparr>sa_archive_path := join_path (Directory_of so2 key) archiveFilename,
          sa_root_path := join_path (Directory_of so2 key) ''payload''\<rparr>"
      and so': "so' = so2\<lparr>so_artifacts := so_artifacts so2
          @ [(key, TopDir (published_tree (ar_members (cd_untar cd data)) data metadata))]\<rparr>"
      using publish r0 by (auto simp: publish_def Let_def)
    have at: "map_of (so_artifacts so') key
        = Some (TopDir (published_tree (ar_members (cd_untar cd data)) data metadata))"
      using False by (simp add: so' map_add_def)
    have "load cd so' key = Inr (r0\<lparr>sa_archive_path := join_path (Directory_of so' key) archiveFilename,
        sa_root_path := join_path (Directory_of so' key) ''payload''\<rparr>)"
      by (rule loads) (use at r0 storable \<open>int64_ok (int (length data))\<close> assms(7) in auto)
    then have "load cd so' key = Inr r" by (simp add: r so' Directory_of_def)
    moreover have "map_of (so_artifacts so') other = map_of (so_artifacts so2) other"
      if "other \<noteq> key" for other
      using that by (simp add: so' map_add_def split: option.splits)
    moreover have "so_path so' = so_path so2" by (simp add: so')
    ultimately show ?thesis using so2 by (auto simp: reclaims_def)
  qed
qed


text \<open>A codec for the example: the manifest of the sample archive is the text \<open>{}\<close>, every other
  document is numbered and printed as that many zero bytes.\<close>

instance json :: countable
  by countable_datatype

definition sample_codec :: codec where
  "sample_codec = \<lparr>cd_sha = (\<lambda>_. sample_key), cd_untar = (\<lambda>_. sample_archive),
     cd_parse_json = (\<lambda>bs. if bs = [123, 125] then Some (manifest_json sample_manifest)
        else Some (from_nat (length bs - 1))),
     cd_print_json = (\<lambda>v. replicate (to_nat v) 0),
     cd_parse_time = atoi, cd_print_time = itoa\<rparr>"

lemma sample_codec_ok: "codec_ok sample_codec"
proof -
  have "sha256Pattern sample_key" by code_simp
  moreover have "replicate n (0 :: byte) @ [10] \<noteq> [123, 125]" for n
    by (cases n) auto
  ultimately show ?thesis
    by (simp add: codec_ok_def sample_codec_def atoi_itoa)
qed

definition empty_store :: store where
  "empty_store = \<lparr>so_path = ''/data/artifacts'', so_artifacts = [], so_tmp = [],
     so_limits = sample_limits 2, so_temporary = 1\<rparr>"

lemma sample_extracted:
  "\<exists>x files. validateAndExtract (cd_sha sample_codec) (cd_parse_json sample_codec) (sample_limits 2)
      (\<lambda>_ so. (None :: unit option, so)) sample_archive empty_store = (Inr (x, files), empty_store)"
proof -
  have "case validateAndExtract (\<lambda>_. sample_key)
      (\<lambda>bs. if bs = [123, 125] then Some (manifest_json sample_manifest) else f bs) (sample_limits 2)
      (\<lambda>_ so. (None :: unit option, so)) sample_archive empty_store of
      (Inl _, _) \<Rightarrow> False | (Inr _, so) \<Rightarrow> so = empty_store" for f
    by code_simp
  from this [of "\<lambda>bs. Some (from_nat (length bs - 1))"] show ?thesis
    by (auto simp: sample_codec_def split: prod.splits sum.splits)
qed


subsection \<open>Verification before use\<close>

datatype verify_error =
    ForeignPaths
  | ArchiveUnreadable
  | ArchiveDigest
  | ManifestUnreadable
  | StoredManifest decode_error
  | ManifestDiffers
  | UnexpectedPath string
  | NotRegularPath string
  | WalkFault string
  | MissingPaths "string list"
  | StoredPayload payload_error

definition base_name :: "string \<Rightarrow> string" where
  "base_name p = last (split_on slash p)"

definition dir_name :: "string \<Rightarrow> string" where
  "dir_name p = clean_rooted (join_with slash (butlast (split_on slash p)))"

text \<open>\<open>reflect.DeepEqual\<close> on two manifests: the files are compared as maps.\<close>

definition same_manifest :: "manifest \<Rightarrow> manifest \<Rightarrow> bool" where
  "same_manifest a b \<longleftrightarrow> a\<lparr>mf_files := []\<rparr> = b\<lparr>mf_files := []\<rparr>
     \<and> length (mf_files a) = length (mf_files b)
     \<and> list_all (\<lambda>(p, d). map_of (mf_files b) p = Some d) (mf_files a)"

definition subtree :: "string \<Rightarrow> tree \<Rightarrow> tree" where
  "subtree root t = concat (map (\<lambda>(p, n). case strip_prefix (root @ ''/'') p of
       None \<Rightarrow> [] | Some rel \<Rightarrow> [(rel, n)]) t)"

definition expected_paths :: "stored_artifact \<Rightarrow> string list" where
  "expected_paths r = ManifestName # (if sa_has_signature r then [SignatureName] else [])
     @ map fst (mf_files (sa_manifest r))"

text \<open>One walk over the payload: what is still expected, what was measured.  A path of \<open>faults\<close>
  fails to be opened, read or closed.\<close>

fun verify_walk :: "(byte list \<Rightarrow> string) \<Rightarrow> stored_artifact \<Rightarrow> string list \<Rightarrow> tree \<Rightarrow> string list \<Rightarrow>
    (string \<times> actual_file) list \<Rightarrow> verify_error + string list \<times> (string \<times> actual_file) list" where
  "verify_walk sha r faults [] expected actual = Inr (expected, actual)"
| "verify_walk sha r faults ((rel, n) # rest) expected actual =
     (if n = NDir then verify_walk sha r faults rest expected actual
      else if rel \<notin> set expected then Inl (UnexpectedPath rel)
      else (case n of
          NFile content mode \<Rightarrow>
            (let expected' = filter (\<lambda>p. p \<noteq> rel) expected in
             if map_of (mf_files (sa_manifest r)) rel = None
             then verify_walk sha r faults rest expected' actual
             else if rel \<in> set faults then Inl (WalkFault rel)
             else verify_walk sha r faults rest expected' (actual
                    @ [(rel, \<lparr>fd_size = int (length content), fd_sha256 = sha content,
                              fd_mode = octal4 mode\<rparr>)]))
        | _ \<Rightarrow> Inl (NotRegularPath rel)))"

definition Verify :: "codec \<Rightarrow> string list \<Rightarrow> store \<Rightarrow> stored_artifact \<Rightarrow> verify_error option" where
  "Verify cd faults so r =
     (let dir = Directory_of so (sa_id r);
          t = (case map_of (so_artifacts so) (sa_id r) of Some (TopDir t) \<Rightarrow> t | _ \<Rightarrow> []);
          root = base_name (sa_root_path r) in
      if dir_name (sa_archive_path r) \<noteq> dir \<or> dir_name (sa_root_path r) \<noteq> dir then Some ForeignPaths
      else (case file_bytes t (base_name (sa_archive_path r)) of
        None \<Rightarrow> Some ArchiveUnreadable
      | Some data \<Rightarrow>
          if cd_sha cd data \<noteq> sa_id r then Some ArchiveDigest
          else (case file_bytes t (root @ ''/'' @ ManifestName) of
            None \<Rightarrow> Some ManifestUnreadable
          | Some md \<Rightarrow> (case DecodeManifest (cd_parse_json cd) md of
              Inl e \<Rightarrow> Some (StoredManifest e)
            | Inr m \<Rightarrow>
                if \<not> same_manifest m (sa_manifest r) then Some ManifestDiffers
                else (case verify_walk (cd_sha cd) r faults (subtree root t) (expected_paths r) [] of
                  Inl e \<Rightarrow> Some e
                | Inr (missing, actual) \<Rightarrow>
                    if missing \<noteq> [] then Some (MissingPaths (sort (remdups missing)))
                    else map_option StoredPayload (ValidatePayload (sa_manifest r) actual))))))"

definition stored_files :: "tree \<Rightarrow> (string \<times> byte list \<times> int) list" where
  "stored_files t = concat (map (\<lambda>(p, n). case n of NFile bs mode \<Rightarrow> [(p, bs, mode)] | _ \<Rightarrow> []) t)"

lemma stored_files_simps [simp]:
  "stored_files [] = []"
  "stored_files ((p, NFile bs mode) # t) = (p, bs, mode) # stored_files t"
  "stored_files ((p, NDir) # t) = stored_files t"
  "stored_files ((p, NSpecial k) # t) = stored_files t"
  by (simp_all add: stored_files_def)

definition measured :: "(byte list \<Rightarrow> string) \<Rightarrow> string \<times> byte list \<times> int \<Rightarrow> string \<times> actual_file" where
  "measured sha f = (case f of (p, bs, mode) \<Rightarrow>
     (p, \<lparr>fd_size = int (length bs), fd_sha256 = sha bs, fd_mode = octal4 mode\<rparr>))"

lemma verify_walk_Inr:
  assumes "verify_walk sha r faults t expected actual = Inr (missing, actual')"
  shows "(\<forall>p k. (p, NSpecial k) \<notin> set t)
    \<and> set missing = set expected - fst ` set (stored_files t)
    \<and> fst ` set (stored_files t) \<subseteq> set expected \<and> distinct (map fst (stored_files t))
    \<and> actual' = actual @ map (measured sha) (filter (\<lambda>f. map_of (mf_files (sa_manifest r)) (fst f) \<noteq> None)
        (stored_files t))"
  using assms
proof (induction t arbitrary: expected actual)
  case (Cons pn rest)
  obtain rel n where pn: "pn = (rel, n)" by (cases pn)
  show ?case
  proof (cases n)
    case (NFile content mode)
    let ?expected = "filter (\<lambda>p. p \<noteq> rel) expected"
    let ?listed = "map_of (mf_files (sa_manifest r)) rel \<noteq> None"
    let ?actual = "actual @ (if ?listed then [measured sha (rel, content, mode)] else [])"
    have rel: "rel \<in> set expected" and "verify_walk sha r faults rest ?expected ?actual
        = Inr (missing, actual')"
      using Cons.prems by (auto simp: pn NFile measured_def Let_def split: if_splits)
    note IH = Cons.IH [OF this(2)]
    have "rel \<notin> fst ` set (stored_files rest)" using IH by auto
    moreover have "fst ` set (stored_files rest) \<subseteq> set expected" using IH by auto
    ultimately show ?thesis
      using IH rel by (auto simp: pn NFile)
  qed (use Cons pn in \<open>auto split: if_splits\<close>)
qed simp

lemma Verify_None:
  assumes "Verify cd faults so r = None"
    and "map_of (so_artifacts so) (sa_id r) = Some (TopDir t)"
  shows "\<exists>data actual. file_bytes t (base_name (sa_archive_path r)) = Some data \<and> cd_sha cd data = sa_id r
    \<and> verify_walk (cd_sha cd) r faults (subtree (base_name (sa_root_path r)) t) (expected_paths r) []
        = Inr ([], actual)
    \<and> ValidatePayload (sa_manifest r) actual = None"
  using assms(1)
  by (simp add: Verify_def assms(2) Let_def split: if_splits option.splits sum.splits prod.splits)

text \<open>C24: verification that passes means the artifact on disk is the one imported: the retained
  archive has the digest that is its name, and below the payload root there are exactly the
  manifest, the signature if there was one and the files of the manifest, each with the size,
  digest and mode the manifest gives it, and nothing that is not a regular file.\<close>

theorem Verify_detects_tampering:
  assumes "Verify cd faults so r = None" and "distinct (map fst (mf_files (sa_manifest r)))"
    and "map_of (so_artifacts so) (sa_id r) = Some (TopDir t)"
    and "payload = subtree (base_name (sa_root_path r)) t"
  shows "(\<exists>data. file_bytes t (base_name (sa_archive_path r)) = Some data \<and> cd_sha cd data = sa_id r)
    \<and> (\<forall>p k. (p, NSpecial k) \<notin> set payload)
    \<and> fst ` set (stored_files payload) = set (expected_paths r)
    \<and> distinct (map fst (stored_files payload))
    \<and> (\<forall>(p, bs, mode) \<in> set (stored_files payload). \<forall>d. map_of (mf_files (sa_manifest r)) p = Some d \<longrightarrow>
        fd_size d = int (length bs) \<and> fd_sha256 d = cd_sha cd bs \<and> fd_mode d = octal4 mode)"
proof -
  let ?files = "mf_files (sa_manifest r)"
  let ?root = "base_name (sa_root_path r)"
  obtain data actual where
      data: "file_bytes t (base_name (sa_archive_path r)) = Some data" "cd_sha cd data = sa_id r"
    and walk: "verify_walk (cd_sha cd) r faults payload (expected_paths r) [] = Inr ([], actual)"
    and valid: "ValidatePayload (sa_manifest r) actual = None"
    using Verify_None [OF assms(1,3)] unfolding assms(4) by blast
  note w = verify_walk_Inr [OF walk]
  have special: "\<forall>p k. (p, NSpecial k) \<notin> set payload"
    and names: "fst ` set (stored_files payload) = set (expected_paths r)"
    and distinct: "distinct (map fst (stored_files payload))"
    using w by auto
  let ?listed = "filter (\<lambda>f. map_of ?files (fst f) \<noteq> None) (stored_files payload)"
  have actual: "actual = map (measured (cd_sha cd)) ?listed" using w by simp
  have "map fst actual = map fst ?listed"
    by (simp add: actual measured_def case_prod_beta)
  moreover have "distinct (map fst ?listed)" using distinct by (rule distinct_map_filter)
  ultimately have "distinct (map fst actual)" by (simp only:)
  then have same: "map_of actual = map_of ?files"
    using ValidatePayload_None [OF assms(2)] valid by blast
  have "fd_size d = int (length bs) \<and> fd_sha256 d = cd_sha cd bs \<and> fd_mode d = octal4 mode"
    if "(p, bs, mode) \<in> set (stored_files payload)" "map_of ?files p = Some d" for p bs mode d
  proof -
    have "(p, bs, mode) \<in> set ?listed" using that by auto
    then have "measured (cd_sha cd) (p, bs, mode) \<in> set actual" unfolding actual set_map by (rule imageI)
    then have "map_of actual p = Some (snd (measured (cd_sha cd) (p, bs, mode)))"
      using \<open>distinct (map fst actual)\<close> by (intro map_of_is_SomeI) (simp_all add: measured_def)
    with that(2) same show ?thesis by (auto simp: measured_def)
  qed
  then have "\<forall>(p, bs, mode) \<in> set (stored_files payload). \<forall>d. map_of ?files p = Some d \<longrightarrow>
        fd_size d = int (length bs) \<and> fd_sha256 d = cd_sha cd bs \<and> fd_mode d = octal4 mode"
    by blast
  with data special names distinct show ?thesis by blast
qed

lemma Verify_detects_tampering_witness:
  "Verify (sample_codec\<lparr>cd_sha := (\<lambda>_. sample_key)\<rparr>) [] sample_store
     (sample_record\<lparr>sa_archive_path := ''/data/artifacts/'' @ sample_key @ ''/artifact.tar.gz'',
        sa_root_path := ''/data/artifacts/'' @ sample_key @ ''/payload''\<rparr>) = None
   \<and> fst ` set (stored_files (subtree ''payload'' sample_tree))
     = {''manifest.json'', ''run.tcl'', ''tftp/boot.bin''}"
proof -
  let ?r = "sample_record\<lparr>sa_archive_path := ''/data/artifacts/'' @ sample_key @ ''/artifact.tar.gz'',
        sa_root_path := ''/data/artifacts/'' @ sample_key @ ''/payload''\<rparr>"
  have "Verify \<lparr>cd_sha = (\<lambda>_. sample_key), cd_untar = (\<lambda>_. sample_archive),
     cd_parse_json = (\<lambda>bs. if bs = [123, 125] then Some (manifest_json sample_manifest) else f bs),
     cd_print_json = g, cd_parse_time = atoi, cd_print_time = itoa\<rparr> [] sample_store ?r = None" for f g
    by code_simp
  then have run: "Verify (sample_codec\<lparr>cd_sha := (\<lambda>_. sample_key)\<rparr>) [] sample_store ?r = None"
    by (simp add: sample_codec_def)
  have "distinct (map fst (mf_files (sa_manifest ?r)))" by code_simp
  moreover have "map_of (so_artifacts sample_store) (sa_id ?r) = Some (TopDir sample_tree)" by code_simp
  moreover have "base_name (sa_root_path ?r) = ''payload''" by code_simp
  moreover have "set (expected_paths ?r) = {''manifest.json'', ''run.tcl'', ''tftp/boot.bin''}" by code_simp
  ultimately show ?thesis
    using run Verify_detects_tampering [OF run, of sample_tree "subtree ''payload'' sample_tree"] by simp
qed

end
