(* ===== verification/Tasks.thy ===== *)
theory Tasks
  imports Prelude Complex_Main
begin

text \<open>
  Deployment tasks (\<open>internal/tasks/tasks.go\<close>): the registry of task definitions, the checks on a
  plan and on one invocation, and the sequential, fail-fast run of a phase.

  A \<open>float64\<close> is a NaN, an infinity or a rational.  A \<open>json.Number\<close> carries what
  \<open>Number.Float64\<close> gives for its text.  A Go map of parameters is an association list, and the
  user code of a task (its \<open>Validate\<close> and \<open>Run\<close>) is a parameter of the model.
\<close>

subsection \<open>Values\<close>

datatype f64 = NaN | PInf | NInf | Fin rat

datatype val =
    VString string
  | VBool bool
  | VFloat f64
  | VInt int
  | VNumber "f64 option"
  | VOther nat \<comment> \<open>null, arrays, objects\<close>

text \<open>\<open>float64(n)\<close> for a 64-bit integer: 53 significant bits, ties to even.\<close>

fun bit_length :: "nat \<Rightarrow> nat" where
  "bit_length n = (if n = 0 then 0 else Suc (bit_length (n div 2)))"

declare bit_length.simps [simp del]

definition round_even :: "nat \<Rightarrow> nat" where
  "round_even n = (let k = bit_length n - 53; q = n div 2 ^ k; r = n mod 2 ^ k; half = 2 ^ k div 2 in
     if k = 0 then n
     else if r > half \<or> (r = half \<and> odd q) then (q + 1) * 2 ^ k else q * 2 ^ k)"

definition float_of_int :: "int \<Rightarrow> rat" where
  "float_of_int n = (if n < 0 then - of_nat (round_even (nat (- n))) else of_nat (round_even (nat n)))"

definition number :: "val \<Rightarrow> rat option" where
  "number v = (case v of
       VFloat (Fin q) \<Rightarrow> Some q
     | VInt n \<Rightarrow> Some (float_of_int n)
     | VNumber (Some (Fin q)) \<Rightarrow> Some q
     | _ \<Rightarrow> None)"

datatype kind = KString | KBoolean | KInteger | KNumber | KInvalid

definition validType :: "kind \<Rightarrow> bool" where
  "validType k \<longleftrightarrow> k \<noteq> KInvalid"

definition matches :: "kind \<Rightarrow> val \<Rightarrow> bool" where
  "matches k v = (case k of
       KString \<Rightarrow> (case v of VString _ \<Rightarrow> True | _ \<Rightarrow> False)
     | KBoolean \<Rightarrow> (case v of VBool _ \<Rightarrow> True | _ \<Rightarrow> False)
     | KNumber \<Rightarrow> number v \<noteq> None
     | KInteger \<Rightarrow> (case number v of None \<Rightarrow> False
         | Some q \<Rightarrow> of_int \<lfloor>q\<rfloor> = q \<and> \<bar>q\<bar> \<le> 9007199254740991)
     | KInvalid \<Rightarrow> False)"

definition same :: "val \<Rightarrow> val \<Rightarrow> bool" where
  "same a b = (case number a of
       Some x \<Rightarrow> number b = Some x
     | None \<Rightarrow> a = b \<and> a \<noteq> VFloat NaN)"

subsection \<open>Plans and the registry\<close>

datatype phase = BeforeBoot | OnSuccess | OnFailure | OnCancel

definition phases :: "phase list" where
  "phases = [BeforeBoot, OnSuccess, OnFailure, OnCancel]"

record invocation =
  iv_id :: string
  iv_task :: string
  iv_parameters :: "(string \<times> val) list option"

record plan =
  pl_version :: int
  pl_before_boot :: "invocation list"
  pl_on_success :: "invocation list"
  pl_on_failure :: "invocation list"
  pl_on_cancel :: "invocation list"

definition Phase :: "plan option \<Rightarrow> phase \<Rightarrow> invocation list" where
  "Phase p ph = (case p of None \<Rightarrow> [] | Some pl \<Rightarrow> (case ph of
       BeforeBoot \<Rightarrow> pl_before_boot pl | OnSuccess \<Rightarrow> pl_on_success pl
     | OnFailure \<Rightarrow> pl_on_failure pl | OnCancel \<Rightarrow> pl_on_cancel pl))"

record parameter =
  pr_name :: string
  pr_kind :: kind
  pr_required :: bool
  pr_enum :: "val list"

record descriptor =
  ds_id :: string
  ds_parameters :: "parameter list"
  ds_timeout :: f64
  ds_timeout_ns :: int \<comment> \<open>the seconds as a \<open>time.Duration\<close>\<close>

record task_def =
  df_descriptor :: descriptor
  df_has_run :: bool
  df_validate :: "(string \<times> val) list \<Rightarrow> bool" \<comment> \<open>constantly true when there is none\<close>

type_synonym registry = "(string \<times> task_def) list"

definition identifier_char :: "char \<Rightarrow> bool" where
  "identifier_char c \<longleftrightarrow> (let n = (of_char c :: nat) in
     (48 \<le> n \<and> n \<le> 57) \<or> (65 \<le> n \<and> n \<le> 90) \<or> (97 \<le> n \<and> n \<le> 122))"

definition task_identifier :: "string \<Rightarrow> bool" where
  "task_identifier s \<longleftrightarrow> (case s of [] \<Rightarrow> False | c # cs \<Rightarrow> identifier_char c \<and> length cs \<le> 127
     \<and> list_all (\<lambda>d. identifier_char d \<or> d \<in> set ''_.-'') cs)"

datatype new_error = InvalidDescriptor string | DuplicateTask string | InvalidParameter string | InvalidEnum string

fun check_parameters :: "string \<Rightarrow> string list \<Rightarrow> parameter list \<Rightarrow> new_error option" where
  "check_parameters task names [] = None"
| "check_parameters task names (p # ps) =
     (if \<not> task_identifier (pr_name p) \<or> pr_name p \<in> set names \<or> \<not> validType (pr_kind p)
      then Some (InvalidParameter task)
      else if list_ex (\<lambda>v. \<not> matches (pr_kind p) v) (pr_enum p) then Some (InvalidEnum task)
      else check_parameters task (pr_name p # names) ps)"

definition bad_timeout :: "descriptor \<Rightarrow> bool" where
  "bad_timeout d = (case ds_timeout d of
       Fin t \<Rightarrow> t \<le> 0 \<or> t > 3600 \<or> ds_timeout_ns d \<le> 0
     | _ \<Rightarrow> True)"

fun New :: "task_def list \<Rightarrow> registry \<Rightarrow> new_error + registry" where
  "New [] registry = Inr registry"
| "New (d # ds) registry =
     (let desc = df_descriptor d; key = ds_id desc in
      if \<not> task_identifier key \<or> \<not> df_has_run d \<or> bad_timeout desc then Inl (InvalidDescriptor key)
      else if map_of registry key \<noteq> None then Inl (DuplicateTask key)
      else (case check_parameters key [] (ds_parameters desc) of
          Some e \<Rightarrow> Inl e
        | None \<Rightarrow> New ds (registry @ [(key, d)])))"

definition Capabilities :: "registry \<Rightarrow> descriptor list" where
  "Capabilities registry = sort_key ds_id (map (\<lambda>kd. df_descriptor (snd kd)) registry)"

subsection \<open>Validation\<close>

datatype plan_error =
    BadVersion
  | BadInvocationID
  | UnknownTask string
  | NoParameters string
  | MissingParameter string string
  | WrongParameter string string
  | WrongEnum string string
  | UnknownParameter string string
  | Semantic string

fun check_declared :: "string \<Rightarrow> (string \<times> val) list \<Rightarrow> parameter list \<Rightarrow> plan_error option" where
  "check_declared key given [] = None"
| "check_declared key given (p # ps) = (case map_of given (pr_name p) of
       None \<Rightarrow> if pr_required p then Some (MissingParameter key (pr_name p))
               else check_declared key given ps
     | Some v \<Rightarrow>
         if \<not> matches (pr_kind p) v then Some (WrongParameter key (pr_name p))
         else if pr_enum p \<noteq> [] \<and> \<not> list_ex (same v) (pr_enum p) then Some (WrongEnum key (pr_name p))
         else check_declared key given ps)"

definition validateInvocation :: "registry \<Rightarrow> invocation \<Rightarrow> plan_error option" where
  "validateInvocation registry iv = (case map_of registry (iv_task iv) of
       None \<Rightarrow> Some (UnknownTask (iv_task iv))
     | Some d \<Rightarrow> (case iv_parameters iv of
         None \<Rightarrow> Some (NoParameters (iv_id iv))
       | Some given \<Rightarrow> (case check_declared (iv_id iv) given (ds_parameters (df_descriptor d)) of
           Some e \<Rightarrow> Some e
         | None \<Rightarrow> (case filter (\<lambda>kv. fst kv \<notin> pr_name ` set (ds_parameters (df_descriptor d))) given of
             kv # _ \<Rightarrow> Some (UnknownParameter (iv_id iv) (fst kv))
           | [] \<Rightarrow> if df_validate d given then None else Some (Semantic (iv_id iv))))))"

fun validate_list :: "registry \<Rightarrow> string list \<Rightarrow> invocation list \<Rightarrow> plan_error option" where
  "validate_list registry seen [] = None"
| "validate_list registry seen (iv # ivs) =
     (if length seen + 1 > 64 \<or> \<not> task_identifier (iv_id iv) \<or> iv_id iv \<in> set seen then Some BadInvocationID
      else (case validateInvocation registry iv of
          Some e \<Rightarrow> Some e
        | None \<Rightarrow> validate_list registry (iv_id iv # seen) ivs))"

definition all_invocations :: "plan option \<Rightarrow> invocation list" where
  "all_invocations p = concat (map (Phase p) phases)"

definition Validate_plan :: "registry \<Rightarrow> plan option \<Rightarrow> plan_error option" where
  "Validate_plan registry p = (case p of
       None \<Rightarrow> None
     | Some pl \<Rightarrow> if pl_version pl \<noteq> 1 then Some BadVersion
                 else validate_list registry [] (all_invocations p))"

definition declared_ok :: "(string \<times> val) list \<Rightarrow> parameter \<Rightarrow> bool" where
  "declared_ok given p \<longleftrightarrow> (case map_of given (pr_name p) of
       None \<Rightarrow> \<not> pr_required p
     | Some v \<Rightarrow> matches (pr_kind p) v \<and> (pr_enum p = [] \<or> (\<exists>e \<in> set (pr_enum p). same v e)))"

definition invocation_ok :: "registry \<Rightarrow> invocation \<Rightarrow> bool" where
  "invocation_ok registry iv \<longleftrightarrow> (\<exists>d given. map_of registry (iv_task iv) = Some d
     \<and> iv_parameters iv = Some given
     \<and> (\<forall>p \<in> set (ds_parameters (df_descriptor d)). declared_ok given p)
     \<and> fst ` set given \<subseteq> pr_name ` set (ds_parameters (df_descriptor d))
     \<and> df_validate d given)"

lemma check_declared_None:
  "check_declared key given ps = None \<longleftrightarrow> (\<forall>p \<in> set ps. declared_ok given p)"
  by (induction key given ps rule: check_declared.induct)
    (auto simp: declared_ok_def list_ex_iff split: option.splits)

lemma validateInvocation_None: "validateInvocation registry iv = None \<longleftrightarrow> invocation_ok registry iv"
proof (cases "map_of registry (iv_task iv)")
  case (Some d)
  show ?thesis
  proof (cases "iv_parameters iv")
    case given: (Some given)
    have "filter (\<lambda>kv. fst kv \<notin> pr_name ` set (ds_parameters (df_descriptor d))) given = []
        \<longleftrightarrow> fst ` set given \<subseteq> pr_name ` set (ds_parameters (df_descriptor d))"
      by (auto simp: filter_empty_conv)
    with check_declared_None [of "iv_id iv" given "ds_parameters (df_descriptor d)"] show ?thesis
      by (cases "check_declared (iv_id iv) given (ds_parameters (df_descriptor d))";
          cases "filter (\<lambda>kv. fst kv \<notin> pr_name ` set (ds_parameters (df_descriptor d))) given")
        (simp_all add: validateInvocation_def invocation_ok_def Some given)
  qed (simp add: validateInvocation_def invocation_ok_def Some)
qed (simp add: validateInvocation_def invocation_ok_def)

lemma validate_list_None:
  "distinct seen \<Longrightarrow> length seen \<le> 64 \<Longrightarrow> validate_list registry seen ivs = None \<longleftrightarrow>
     length seen + length ivs \<le> 64 \<and> distinct (map iv_id ivs) \<and> set seen \<inter> iv_id ` set ivs = {}
     \<and> (\<forall>iv \<in> set ivs. task_identifier (iv_id iv) \<and> invocation_ok registry iv)"
proof (induction registry seen ivs rule: validate_list.induct)
  case (2 registry seen iv ivs)
  show ?case
  proof (cases "length seen + 1 > 64 \<or> \<not> task_identifier (iv_id iv) \<or> iv_id iv \<in> set seen
      \<or> \<not> invocation_ok registry iv")
    case True
    then show ?thesis
      by (auto simp: validateInvocation_None [symmetric] split: option.splits)
  next
    case False
    then have none: "validateInvocation registry iv = None" by (simp add: validateInvocation_None)
    from False 2(1) [OF _ none] 2(2) have "validate_list registry (iv_id iv # seen) ivs = None \<longleftrightarrow>
        length (iv_id iv # seen) + length ivs \<le> 64 \<and> distinct (map iv_id ivs)
        \<and> set (iv_id iv # seen) \<inter> iv_id ` set ivs = {}
        \<and> (\<forall>iv \<in> set ivs. task_identifier (iv_id iv) \<and> invocation_ok registry iv)" by simp
    with False none show ?thesis by auto
  qed
qed simp

text \<open>A plan is accepted exactly when there is none, or it is a version-1 plan of at most 64
  invocations over all phases, with distinct valid ids, each naming a registered task and giving
  it a parameters object: every declared parameter is absent and optional or of its type and one
  of its allowed values, nothing else is given, and the task's own check passes.\<close>

theorem Validate_plan_spec:
  "Validate_plan registry p = None \<longleftrightarrow> (case p of None \<Rightarrow> True | Some pl \<Rightarrow>
     pl_version pl = 1 \<and> length (all_invocations p) \<le> 64 \<and> distinct (map iv_id (all_invocations p))
     \<and> (\<forall>iv \<in> set (all_invocations p). task_identifier (iv_id iv) \<and>
          (\<exists>d given. map_of registry (iv_task iv) = Some d \<and> iv_parameters iv = Some given
            \<and> (\<forall>q \<in> set (ds_parameters (df_descriptor d)). case map_of given (pr_name q) of
                None \<Rightarrow> \<not> pr_required q
              | Some v \<Rightarrow> matches (pr_kind q) v
                  \<and> (pr_enum q = [] \<or> (\<exists>e \<in> set (pr_enum q). same v e)))
            \<and> fst ` set given \<subseteq> pr_name ` set (ds_parameters (df_descriptor d))
            \<and> df_validate d given)))"
  using validate_list_None [of "[]" registry "all_invocations p"]
  by (cases p) (simp_all add: Validate_plan_def invocation_ok_def declared_ok_def)

definition sample_task :: task_def where
  "sample_task = \<lparr>df_descriptor = \<lparr>ds_id = ''notify'', ds_parameters =
       [\<lparr>pr_name = ''level'', pr_kind = KInteger, pr_required = True, pr_enum = [VInt 1, VInt 2]\<rparr>],
       ds_timeout = Fin 5, ds_timeout_ns = 5 * 10 ^ 9\<rparr>,
     df_has_run = True, df_validate = (\<lambda>_. True)\<rparr>"

definition sample_invocation :: "string \<Rightarrow> rat \<Rightarrow> invocation" where
  "sample_invocation key level = \<lparr>iv_id = key, iv_task = ''notify'',
     iv_parameters = Some [(''level'', VFloat (Fin level))]\<rparr>"

definition sample_plan :: plan where
  "sample_plan = \<lparr>pl_version = 1, pl_before_boot = [sample_invocation ''a'' 1],
     pl_on_success = [sample_invocation ''b'' 2], pl_on_failure = [], pl_on_cancel = []\<rparr>"

lemma Validate_plan_spec_witness:
  "Validate_plan [(''notify'', sample_task)] (Some sample_plan) = None"
proof -
  have "Phase (Some sample_plan) BeforeBoot = [sample_invocation ''a'' 1]"
    "Phase (Some sample_plan) OnSuccess = [sample_invocation ''b'' 2]"
    "Phase (Some sample_plan) OnFailure = []" "Phase (Some sample_plan) OnCancel = []"
    by (simp_all add: Phase_def sample_plan_def)
  then have all: "all_invocations (Some sample_plan) = [sample_invocation ''a'' 1, sample_invocation ''b'' 2]"
    by (simp add: all_invocations_def phases_def)
  have ids: "task_identifier ''a''" "task_identifier ''b''" by code_simp+
  have one: "float_of_int 1 = 1" "float_of_int 2 = 2"
    by (simp_all add: float_of_int_def round_even_def bit_length.simps Let_def)
  show ?thesis
    unfolding Validate_plan_spec all
    using ids by (simp add: sample_invocation_def sample_plan_def sample_task_def matches_def
        number_def same_def one)
qed

subsection \<open>Running a phase\<close>

datatype cause = CtxCanceled | CtxDeadline | ExecutionFailed

datatype task_state = TRunning | TSucceeded | TFailed | TCanceled | TInterrupted

record task_result =
  tk_id :: string
  tk_task :: string
  tk_phase :: phase
  tk_state :: task_state
  tk_error :: string

datatype run_error =
    ContextError cause
  | InvocationError plan_error
  | TaskError string string cause

text \<open>What the run meets at the invocation with a given index: the state of its context before
  the launch, the result of the task's code, and the state of the task's own context after it.\<close>

record run_env =
  re_ctx :: "nat \<Rightarrow> cause option"
  re_run :: "nat \<Rightarrow> cause option"
  re_task_ctx :: "nat \<Rightarrow> cause option"

definition launch_result :: "run_env \<Rightarrow> nat \<Rightarrow> cause option" where
  "launch_result env i = (case re_task_ctx env i of Some c \<Rightarrow> Some c | None \<Rightarrow> re_run env i)"

definition final_state :: "cause option \<Rightarrow> task_state \<times> string" where
  "final_state err = (case err of
       None \<Rightarrow> (TSucceeded, [])
     | Some CtxCanceled \<Rightarrow> (TCanceled, ''task canceled'')
     | Some CtxDeadline \<Rightarrow> (TFailed, ''task timed out'')
     | Some ExecutionFailed \<Rightarrow> (TFailed, ''task execution failed''))"

definition observed :: "phase \<Rightarrow> invocation \<Rightarrow> task_state \<times> string \<Rightarrow> task_result" where
  "observed ph iv st = \<lparr>tk_id = iv_id iv, tk_task = iv_task iv, tk_phase = ph, tk_state = fst st,
     tk_error = snd st\<rparr>"

fun Run :: "registry \<Rightarrow> run_env \<Rightarrow> phase \<Rightarrow> nat \<Rightarrow> invocation list \<Rightarrow> task_result list \<times> run_error option"
where
  "Run registry env ph i [] = ([], None)"
| "Run registry env ph i (iv # ivs) =
     (case re_ctx env i of
        Some c \<Rightarrow> ([], Some (ContextError c))
      | None \<Rightarrow> (case validateInvocation registry iv of
          Some e \<Rightarrow> ([], Some (InvocationError e))
        | None \<Rightarrow>
            (let err = launch_result env i;
                 seen = [observed ph iv (TRunning, []), observed ph iv (final_state err)] in
             case err of
               Some c \<Rightarrow> (seen, Some (TaskError (iv_id iv) (snd (final_state err)) c))
             | None \<Rightarrow> (let (rest, e) = Run registry env ph (Suc i) ivs in (seen @ rest, e)))))"

text \<open>The observations of the first \<open>k\<close> invocations when they are launched in order.\<close>

definition launches :: "run_env \<Rightarrow> phase \<Rightarrow> nat \<Rightarrow> invocation list \<Rightarrow> task_result list" where
  "launches env ph i ivs = concat (map (\<lambda>(j, iv). [observed ph iv (TRunning, []),
     observed ph iv (final_state (launch_result env j))]) (zip [i..<i + length ivs] ivs))"

lemma launches_Nil [simp]: "launches env ph i [] = []"
  by (simp add: launches_def)

lemma launches_Cons: "launches env ph i (iv # ivs) = [observed ph iv (TRunning, []),
     observed ph iv (final_state (launch_result env i))] @ launches env ph (Suc i) ivs"
  by (simp add: launches_def upt_conv_Cons del: upt_Suc)

lemma Run_prefix:
  "Run registry env ph i ivs = (obs, err) \<Longrightarrow> \<exists>k \<le> length ivs. obs = launches env ph i (take k ivs)
     \<and> (\<forall>j < k. re_ctx env (i + j) = None \<and> invocation_ok registry (ivs ! j))
     \<and> (\<forall>j. Suc j < k \<longrightarrow> launch_result env (i + j) = None)
     \<and> (case err of
          None \<Rightarrow> k = length ivs \<and> (\<forall>j < k. launch_result env (i + j) = None)
        | Some (ContextError c) \<Rightarrow> k < length ivs \<and> re_ctx env (i + k) = Some c
            \<and> (\<forall>j < k. launch_result env (i + j) = None)
        | Some (InvocationError e) \<Rightarrow> k < length ivs \<and> \<not> invocation_ok registry (ivs ! k)
            \<and> (\<forall>j < k. launch_result env (i + j) = None)
        | Some (TaskError name text c) \<Rightarrow> 0 < k \<and> launch_result env (i + (k - 1)) = Some c
            \<and> name = iv_id (ivs ! (k - 1)))"
proof (induction ivs arbitrary: i obs err)
  case (Cons iv ivs)
  consider (ctx) c where "re_ctx env i = Some c"
    | (bad) e where "re_ctx env i = None" "validateInvocation registry iv = Some e"
    | (fail) c where "re_ctx env i = None" "validateInvocation registry iv = None"
        "launch_result env i = Some c"
    | (ok) "re_ctx env i = None" "validateInvocation registry iv = None" "launch_result env i = None"
    by fastforce
  then show ?case
  proof cases
    case ctx
    with Cons.prems show ?thesis by (intro exI [of _ 0]) auto
  next
    case bad
    then have "\<not> invocation_ok registry iv" by (simp flip: validateInvocation_None)
    with bad Cons.prems show ?thesis by (intro exI [of _ 0]) auto
  next
    case fail
    then have "invocation_ok registry iv" by (simp flip: validateInvocation_None)
    with fail Cons.prems show ?thesis
      by (intro exI [of _ 1]) (auto simp: launches_Cons Let_def)
  next
    case ok
    then have valid: "invocation_ok registry iv" by (simp flip: validateInvocation_None)
    obtain rest where run: "Run registry env ph (Suc i) ivs = (rest, err)"
      and obs: "obs = [observed ph iv (TRunning, []), observed ph iv (final_state None)] @ rest"
      using Cons.prems ok by (auto simp: Let_def split: prod.splits)
    obtain k where k: "k \<le> length ivs" "rest = launches env ph (Suc i) (take k ivs)"
      "\<forall>j < k. re_ctx env (Suc i + j) = None \<and> invocation_ok registry (ivs ! j)"
      "\<forall>j. Suc j < k \<longrightarrow> launch_result env (Suc i + j) = None"
      and tail: "case err of
          None \<Rightarrow> k = length ivs \<and> (\<forall>j < k. launch_result env (Suc i + j) = None)
        | Some (ContextError c) \<Rightarrow> k < length ivs \<and> re_ctx env (Suc i + k) = Some c
            \<and> (\<forall>j < k. launch_result env (Suc i + j) = None)
        | Some (InvocationError e) \<Rightarrow> k < length ivs \<and> \<not> invocation_ok registry (ivs ! k)
            \<and> (\<forall>j < k. launch_result env (Suc i + j) = None)
        | Some (TaskError name text c) \<Rightarrow> 0 < k \<and> launch_result env (Suc i + (k - 1)) = Some c
            \<and> name = iv_id (ivs ! (k - 1))"
      using Cons.IH [OF run] by blast
    show ?thesis
    proof (intro exI [of _ "Suc k"] conjI)
      show "obs = launches env ph i (take (Suc k) (iv # ivs))"
        using obs k(2) ok by (simp add: launches_Cons)
      show "\<forall>j < Suc k. re_ctx env (i + j) = None \<and> invocation_ok registry ((iv # ivs) ! j)"
        using k(3) ok valid by (auto simp: less_Suc_eq_0_disj)
      show "\<forall>j. Suc j < Suc k \<longrightarrow> launch_result env (i + j) = None"
      proof (intro allI impI)
        fix j assume "Suc j < Suc k"
        then show "launch_result env (i + j) = None"
          using k(4) ok(3) by (cases j) auto
      qed
      have all: "(\<forall>j < Suc k. launch_result env (i + j) = None)"
        if "\<forall>j < k. launch_result env (Suc i + j) = None"
        using that ok(3) by (auto simp: less_Suc_eq_0_disj)
      show "case err of
          None \<Rightarrow> Suc k = length (iv # ivs) \<and> (\<forall>j < Suc k. launch_result env (i + j) = None)
        | Some (ContextError c) \<Rightarrow> Suc k < length (iv # ivs) \<and> re_ctx env (i + Suc k) = Some c
            \<and> (\<forall>j < Suc k. launch_result env (i + j) = None)
        | Some (InvocationError e) \<Rightarrow> Suc k < length (iv # ivs) \<and> \<not> invocation_ok registry ((iv # ivs) ! Suc k)
            \<and> (\<forall>j < Suc k. launch_result env (i + j) = None)
        | Some (TaskError name text c) \<Rightarrow> 0 < Suc k \<and> launch_result env (i + (Suc k - 1)) = Some c
            \<and> name = iv_id ((iv # ivs) ! (Suc k - 1))"
        using tail all by (cases k) (auto split: option.splits run_error.splits)
    qed (use k in simp)
  qed
qed simp

text \<open>C25: a phase runs its invocations one after the other and stops at the first that fails:
  what is observed are the start and the end of the first \<open>k\<close> invocations, in order, each launched
  with a live context and valid parameters and all but the last successful; there is no error
  exactly when every invocation ran and succeeded, and an error names the one that failed.\<close>

theorem Run_fail_fast:
  assumes "Run registry env ph 0 ivs = (obs, err)"
  shows "\<exists>k \<le> length ivs. obs = launches env ph 0 (take k ivs)
     \<and> (\<forall>j < k. re_ctx env j = None \<and> validateInvocation registry (ivs ! j) = None)
     \<and> (\<forall>j. Suc j < k \<longrightarrow> launch_result env j = None)
     \<and> (err = None \<longleftrightarrow> k = length ivs \<and> (\<forall>j < k. launch_result env j = None))
     \<and> (\<forall>name text c. err = Some (TaskError name text c) \<longrightarrow>
          0 < k \<and> launch_result env (k - 1) = Some c \<and> name = iv_id (ivs ! (k - 1)))"
proof -
  obtain k where k: "k \<le> length ivs" "obs = launches env ph 0 (take k ivs)"
    "\<forall>j < k. re_ctx env j = None \<and> invocation_ok registry (ivs ! j)"
    "\<forall>j. Suc j < k \<longrightarrow> launch_result env j = None"
    and tail: "case err of
          None \<Rightarrow> k = length ivs \<and> (\<forall>j < k. launch_result env j = None)
        | Some (ContextError c) \<Rightarrow> k < length ivs \<and> re_ctx env k = Some c
            \<and> (\<forall>j < k. launch_result env j = None)
        | Some (InvocationError e) \<Rightarrow> k < length ivs \<and> \<not> invocation_ok registry (ivs ! k)
            \<and> (\<forall>j < k. launch_result env j = None)
        | Some (TaskError name text c) \<Rightarrow> 0 < k \<and> launch_result env (k - 1) = Some c
            \<and> name = iv_id (ivs ! (k - 1))"
    using Run_prefix [OF assms, unfolded add_0] by blast
  have "err = None \<longleftrightarrow> k = length ivs \<and> (\<forall>j < k. launch_result env j = None)"
  proof (cases err)
    case None
    then show ?thesis using tail by simp
  next
    case (Some e)
    have "\<not> (k = length ivs \<and> (\<forall>j < k. launch_result env j = None))"
    proof (cases e)
      case (TaskError n t c)
      then have "0 < k" "launch_result env (k - 1) = Some c" using tail Some by simp_all
      then show ?thesis by (metis One_nat_def diff_less lessI option.distinct(1))
    next
      case (ContextError c)
      then show ?thesis using tail Some by simp
    next
      case (InvocationError r)
      then show ?thesis using tail Some by simp
    qed
    then show ?thesis using Some by simp
  qed
  moreover have "0 < k \<and> launch_result env (k - 1) = Some c \<and> n = iv_id (ivs ! (k - 1))"
    if "err = Some (TaskError n t c)" for n t c
    using tail that by simp
  ultimately show ?thesis using k
    by (intro exI [of _ k]) (simp add: validateInvocation_None)
qed

lemma Run_fail_fast_witness:
  "\<exists>k \<le> 2. fst (Run [(''notify'', sample_task)]
      \<lparr>re_ctx = (\<lambda>_. None), re_run = (\<lambda>_. None), re_task_ctx = (\<lambda>i. if i = 1 then Some CtxDeadline else None)\<rparr>
      OnSuccess 0 [sample_invocation ''a'' 1, sample_invocation ''b'' 2])
    = launches \<lparr>re_ctx = (\<lambda>_. None), re_run = (\<lambda>_. None),
        re_task_ctx = (\<lambda>i. if i = 1 then Some CtxDeadline else None)\<rparr> OnSuccess 0
        (take k [sample_invocation ''a'' 1, sample_invocation ''b'' 2])"
proof -
  let ?env = "\<lparr>re_ctx = (\<lambda>_. None), re_run = (\<lambda>_. None),
    re_task_ctx = (\<lambda>i. if i = 1 then Some CtxDeadline else None)\<rparr>"
  obtain obs err where "Run [(''notify'', sample_task)] ?env OnSuccess 0
      [sample_invocation ''a'' 1, sample_invocation ''b'' 2] = (obs, err)"
    by (metis surj_pair)
  note run = this
  from Run_fail_fast [OF run] obtain k where "k \<le> length [sample_invocation ''a'' 1, sample_invocation ''b'' 2]"
    "obs = launches ?env OnSuccess 0 (take k [sample_invocation ''a'' 1, sample_invocation ''b'' 2])"
    by (elim exE conjE)
  then have "k \<le> 2" "fst (Run [(''notify'', sample_task)] ?env OnSuccess 0
      [sample_invocation ''a'' 1, sample_invocation ''b'' 2])
      = launches ?env OnSuccess 0 (take k [sample_invocation ''a'' 1, sample_invocation ''b'' 2])"
    unfolding run by simp_all
  then show ?thesis by blast
qed

end
