(* ===== verification/JobModel.thy ===== *)
theory JobModel
  imports Tasks Store "HOL-Library.AList"
begin

text \<open>
  The data of the job manager and its smallest critical sections
  (\<open>internal/jobs/model.go\<close>, \<open>internal/jobs/manager.go\<close>): jobs, requests and events, the
  \<open>Manager\<close> with the disk it writes, \<open>emitLocked\<close>, \<open>persistLocked\<close>, \<open>appendEventLocked\<close>,
  \<open>closeSubscribersLocked\<close>, \<open>inspectJob\<close> and \<open>boundedText\<close>, and the JSON text of an event, whose
  length the event budget counts.

  Pointers to jobs are entries of the association list \<open>mg_jobs\<close>; a Go channel is a buffer with
  a closed flag, addressed by its position in \<open>mg_channels\<close>.  What would be a run-time panic of
  the program (a nil job, a send on or a second close of a closed channel) sets \<open>mg_panic\<close>.
  Times are instants; what a write to the disk does is an input (\<open>io\<close>).
\<close>

subsection \<open>Data\<close>

datatype job_state = Queued | Running | Succeeded | Failed | Canceled | OtherState string

fun Terminal :: "job_state \<Rightarrow> bool" where
  "Terminal Succeeded = True" | "Terminal Failed = True" | "Terminal Canceled = True"
| "Terminal _ = False"

record serial_request =
  sr_port :: string
  sr_baud :: int
  sr_selection :: string

record request =
  rq_id :: string
  rq_tasks :: "plan option"
  rq_artifact :: string
  rq_hw_server :: string
  rq_tftp_ip :: string
  rq_board_ip :: string
  rq_target :: string
  rq_cable :: string
  rq_device :: string
  rq_serial :: "serial_request option"

record serial_capture =
  sc_state :: string
  sc_received :: int
  sc_retained :: int
  sc_truncated :: bool
  sc_started :: int
  sc_finished :: "int option"

record job =
  jb_id :: string
  jb_request :: request
  jb_state :: job_state
  jb_created :: int
  jb_started :: "int option"
  jb_finished :: "int option"
  jb_error :: string
  jb_event_count :: int
  jb_events_truncated :: bool
  jb_task_results :: "task_result list"
  jb_deployment_error :: string
  jb_deployment_outcome :: string
  jb_task_errors :: "string list"
  jb_capture :: "serial_capture option"
  jb_available :: bool

record event =
  ev_sequence :: int
  ev_time :: int
  ev_level :: string
  ev_message :: string

record tombstone =
  ts_job :: string
  ts_fingerprint :: string

definition truncated_mark :: string where "truncated_mark = '' [truncated]''"

definition boundedText :: "string \<Rightarrow> int \<Rightarrow> string" where
  "boundedText s n = (if int (length s) > n then take (nat n) s @ truncated_mark else s)"

lemma length_truncated_mark [simp]: "length truncated_mark = 12"
  by (simp add: truncated_mark_def)

lemma length_boundedText: "0 \<le> n \<Longrightarrow> int (length (boundedText s n)) \<le> n + 12"
  by (simp add: boundedText_def)

lemma boundedText_idem [simp]: "0 \<le> n \<Longrightarrow> boundedText (boundedText s n) n = boundedText s n"
  by (simp add: boundedText_def)

subsection \<open>The JSON text of an event\<close>

text \<open>The length of the UTF-8 encoding at the head of a list of byte values, 0 for an invalid
  byte (\<open>unicode/utf8\<close>), and the string encoding of \<open>encoding/json\<close> with its HTML escapes.\<close>

definition continuation :: "nat \<Rightarrow> bool" where
  "continuation b \<longleftrightarrow> 128 \<le> b \<and> b \<le> 191"

fun rune_len :: "nat list \<Rightarrow> nat" where
  "rune_len [] = 0"
| "rune_len (a # r) =
     (if a < 128 then 1
      else if 194 \<le> a \<and> a \<le> 223 then (case r of b # _ \<Rightarrow> if continuation b then 2 else 0 | _ \<Rightarrow> 0)
      else if 224 \<le> a \<and> a \<le> 239 then (case r of b # c # _ \<Rightarrow>
          if continuation b \<and> continuation c \<and> (a = 224 \<longrightarrow> 160 \<le> b) \<and> (a = 237 \<longrightarrow> b \<le> 159)
          then 3 else 0 | _ \<Rightarrow> 0)
      else if 240 \<le> a \<and> a \<le> 244 then (case r of b # c # d # _ \<Rightarrow>
          if continuation b \<and> continuation c \<and> continuation d
            \<and> (a = 240 \<longrightarrow> 144 \<le> b) \<and> (a = 244 \<longrightarrow> b \<le> 143)
          then 4 else 0 | _ \<Rightarrow> 0)
      else 0)"

definition hex_digit :: "nat \<Rightarrow> char" where
  "hex_digit n = (if n < 10 then char_of (48 + n) else char_of (87 + n))"

definition escape_char :: "char \<Rightarrow> string" where
  "escape_char c = (let n = (of_char c :: nat) in
     if n = 34 \<or> n = 92 then [char_of (92 :: nat), c]
     else if n = 8 then [char_of (92 :: nat), CHR ''b'']
     else if n = 12 then [char_of (92 :: nat), CHR ''f'']
     else if n = 10 then [char_of (92 :: nat), CHR ''n'']
     else if n = 13 then [char_of (92 :: nat), CHR ''r'']
     else if n = 9 then [char_of (92 :: nat), CHR ''t'']
     else if n < 32 \<or> n = 60 \<or> n = 62 \<or> n = 38
     then [char_of (92 :: nat), CHR ''u'', CHR ''0'', CHR ''0'', hex_digit (n div 16), hex_digit (n mod 16)]
     else [c])"

definition replacement :: string where
  "replacement = char_of (92 :: nat) # ''ufffd''"

definition codes :: "string \<Rightarrow> nat list" where
  "codes s = map of_char s"

fun json_chars :: "string \<Rightarrow> string" where
  "json_chars [] = []"
| "json_chars (c # cs) =
     (let k = rune_len (codes (c # cs)) in
      if k = 0 then replacement @ json_chars cs
      else if k = 1 then escape_char c @ json_chars cs
      else if codes (take 3 (c # cs)) = [226, 128, 168]
        then char_of (92 :: nat) # ''u2028'' @ json_chars (drop 2 cs)
      else if codes (take 3 (c # cs)) = [226, 128, 169]
        then char_of (92 :: nat) # ''u2029'' @ json_chars (drop 2 cs)
      else take k (c # cs) @ json_chars (drop (k - 1) cs))"

declare json_chars.simps [simp del]

definition json_string :: "string \<Rightarrow> string" where
  "json_string s = char_of (34 :: nat) # json_chars s @ [char_of (34 :: nat)]"

definition event_json :: "(int \<Rightarrow> string) \<Rightarrow> event \<Rightarrow> string" where
  \<open>event_json stamp e = ''{"sequence":'' @ itoa (ev_sequence e) @ '',"time":"'' @ stamp (ev_time e)
     @ ''","level":'' @ json_string (ev_level e) @ '',"message":'' @ json_string (ev_message e) @ ''}''\<close>

lemma length_escape_char: "length (escape_char c) \<le> 6"
  by (simp add: escape_char_def Let_def)

lemma length_json_chars: "length (json_chars s) \<le> 6 * length s"
proof (induction s rule: json_chars.induct)
  case (2 c cs)
  let ?k = "rune_len (codes (c # cs))"
  have three: "2 \<le> length cs" if "codes (take 3 (c # cs)) = [226, 128, x]" for x
  proof -
    from that have "length (take 3 (c # cs)) = 3" unfolding codes_def by (metis length_map length_Cons list.size(3) numeral_3_eq_3)
    then show ?thesis by simp
  qed
  consider "?k = 0" | "?k = 1"
    | "?k \<noteq> 0" "?k \<noteq> 1" "codes (take 3 (c # cs)) = [226, 128, 168] \<or> codes (take 3 (c # cs)) = [226, 128, 169]"
    | "?k \<noteq> 0" "?k \<noteq> 1" "\<not> (codes (take 3 (c # cs)) = [226, 128, 168] \<or> codes (take 3 (c # cs)) = [226, 128, 169])"
    by blast
  then show ?case
  proof cases
    case 1
    with 2(1) show ?thesis by (simp add: json_chars.simps replacement_def)
  next
    case c: 2
    with 2(2) [OF refl _ c] length_escape_char [of c] show ?thesis
      by (simp add: json_chars.simps)
  next
    case c: 3
    then have "length (json_chars (drop 2 cs)) \<le> 6 * length (drop 2 cs)"
      using 2(3,4) [OF refl] by blast
    with c three show ?thesis by (auto simp: json_chars.simps Let_def)
  next
    case c: 4
    then have "length (json_chars (drop (?k - 1) cs)) \<le> 6 * length (drop (?k - 1) cs)"
      using 2(5) [OF refl] by blast
    moreover have "length (take ?k (c # cs)) + length (drop (?k - 1) cs) = length (c # cs)"
      using c(1) by (cases ?k) auto
    moreover have "json_chars (c # cs) = take ?k (c # cs) @ json_chars (drop (?k - 1) cs)"
      using c by (simp add: json_chars.simps Let_def)
    ultimately show ?thesis by simp
  qed
qed (simp add: json_chars.simps)

lemma length_json_string: "length (json_string s) \<le> 2 + 6 * length s"
  using length_json_chars [of s] by (simp add: json_string_def)

subsection \<open>The manager and its disk\<close>

text \<open>The events file is its complete lines, an event or something that does not parse, and the
  bytes of an unfinished last line.\<close>

datatype line = Line event | Junk int

record job_dir =
  jd_job :: "(job \<times> int) option" \<comment> \<open>published record, size of the file\<close>
  jd_events :: "line list"
  jd_torn :: int
  jd_serial :: "int option"
  jd_unknown :: "(string \<times> int) list"

definition empty_dir :: job_dir where
  "empty_dir = \<lparr>jd_job = None, jd_events = [], jd_torn = 0, jd_serial = None, jd_unknown = []\<rparr>"

record channel =
  ch_buffer :: "event list"
  ch_closed :: bool

record manager =
  mg_jobs :: "(string \<times> job) list"
  mg_events :: "string \<Rightarrow> event list"
  mg_event_bytes :: "string \<Rightarrow> int"
  mg_subscribers :: "string \<Rightarrow> nat list"
  mg_channels :: "channel list"
  mg_cancellers :: "string list" \<comment> \<open>the jobs with a registered cancel function\<close>
  mg_canceled :: "string list" \<comment> \<open>the jobs whose run context was canceled\<close>
  mg_submissions :: "string \<rightharpoonup> string"
  mg_expired :: "string \<rightharpoonup> tombstone"
  mg_queue :: "string list"
  mg_admission_error :: bool
  mg_closed :: bool \<comment> \<open>the manager's context is done\<close>
  mg_panic :: bool
  mg_disk :: "(string \<times> job_dir) list"
  mg_tombstones :: "(string \<times> tombstone) list" \<comment> \<open>the files of \<open>submissions/\<close>\<close>
  mg_store :: store
  mg_budget :: "gate option"
  mg_pins :: "string list"
  mg_other :: "entry list" \<comment> \<open>everything else below the budget's root\<close>

record config =
  cf_root :: string
  cf_codec :: codec
  cf_registry :: registry
  cf_console :: bool
  cf_console_limit :: int
  cf_validate :: "stored_artifact \<Rightarrow> request \<Rightarrow> bool" \<comment> \<open>\<open>Runner.Validate\<close>\<close>
  cf_stamp :: "int \<Rightarrow> string" \<comment> \<open>the JSON text of a time\<close>
  cf_job_json :: "job \<Rightarrow> int option" \<comment> \<open>the length of a job's indented JSON text\<close>
  cf_request_json :: "request \<Rightarrow> int option"
  cf_marshal :: "request \<Rightarrow> string"
  cf_sha :: "string \<Rightarrow> string" \<comment> \<open>hexadecimal SHA-256\<close>

datatype append_outcome = Appended | NotAppended | TornAppend int

datatype persist_outcome = Persisted | PersistFailed | PublishedUnsynced

record io =
  io_now :: int
  io_append :: append_outcome
  io_persist :: persist_outcome

definition eventLimitBytes :: int where "eventLimitBytes = 2 ^ 20"
definition metadataReserve :: int where "metadataReserve = 4 * 2 ^ 20"
definition maintenanceReserve :: int where "maintenanceReserve = 4 * 2 ^ 20"
definition completedJobLimit :: nat where "completedJobLimit = 30"

definition find_job :: "manager \<Rightarrow> string \<Rightarrow> job option" where
  "find_job m key = map_of (mg_jobs m) key"

definition upd_job :: "string \<Rightarrow> (job \<Rightarrow> job) \<Rightarrow> manager \<Rightarrow> manager" where
  "upd_job key f m = m\<lparr>mg_jobs := AList.map_entry key f (mg_jobs m)\<rparr>"

definition upd_dir :: "string \<Rightarrow> (job_dir \<Rightarrow> job_dir) \<Rightarrow> manager \<Rightarrow> manager" where
  "upd_dir key f m = m\<lparr>mg_disk := AList.map_entry key f (mg_disk m)\<rparr>"

subsection \<open>Events\<close>

definition line_bytes :: "config \<Rightarrow> event \<Rightarrow> int" where
  "line_bytes cfg e = int (length (event_json (cf_stamp cfg) e)) + 1"

definition append_line :: "append_outcome \<Rightarrow> int \<Rightarrow> event \<Rightarrow> job_dir \<Rightarrow> job_dir" where
  "append_line outcome n e d = (case outcome of
       NotAppended \<Rightarrow> d
     | TornAppend k \<Rightarrow> d\<lparr>jd_torn := jd_torn d + k\<rparr>
     | Appended \<Rightarrow> if jd_torn d = 0 then d\<lparr>jd_events := jd_events d @ [Line e]\<rparr>
                  else d\<lparr>jd_events := jd_events d @ [Junk (jd_torn d + n)], jd_torn := 0\<rparr>)"

definition appendEventLocked :: "config \<Rightarrow> io \<Rightarrow> string \<Rightarrow> event \<Rightarrow> manager \<Rightarrow> manager" where
  "appendEventLocked cfg w key e = upd_dir key (append_line (io_append w) (line_bytes cfg e) e)"

text \<open>A subscriber whose buffer of 256 events is full misses the event.\<close>

definition send_to :: "event \<Rightarrow> nat \<Rightarrow> channel list \<Rightarrow> channel list" where
  "send_to e h cs = (if h < length cs \<and> length (ch_buffer (cs ! h)) < 256
     then cs[h := (cs ! h)\<lparr>ch_buffer := ch_buffer (cs ! h) @ [e]\<rparr>] else cs)"

definition open_channel :: "channel list \<Rightarrow> nat \<Rightarrow> bool" where
  "open_channel cs h \<longleftrightarrow> h < length cs \<and> \<not> ch_closed (cs ! h)"

definition deliver :: "string \<Rightarrow> event \<Rightarrow> manager \<Rightarrow> manager" where
  "deliver key e m = m\<lparr>mg_channels := fold (send_to e) (mg_subscribers m key) (mg_channels m),
     mg_panic := (mg_panic m \<or> \<not> list_all (open_channel (mg_channels m)) (mg_subscribers m key))\<rparr>"

definition cap_message :: "string \<Rightarrow> string" where
  "cap_message s = boundedText s 16384"

definition log_event :: "config \<Rightarrow> io \<Rightarrow> string \<Rightarrow> bool \<Rightarrow> event \<Rightarrow> manager \<Rightarrow> manager" where
  "log_event cfg w key trunc e m = deliver key e (appendEventLocked cfg w key e
     (upd_job key (\<lambda>j. j\<lparr>jb_events_truncated := trunc, jb_event_count := ev_sequence e\<rparr>)
       (m\<lparr>mg_event_bytes := (mg_event_bytes m)(key := mg_event_bytes m key + line_bytes cfg e),
          mg_events := (mg_events m)(key := mg_events m key @ [e])\<rparr>)))"

definition next_event :: "io \<Rightarrow> job \<Rightarrow> bool \<Rightarrow> string \<Rightarrow> string \<Rightarrow> event" where
  "next_event w j full level message = \<lparr>ev_sequence = jb_event_count j + 1, ev_time = io_now w,
     ev_level = level, ev_message = (if full then boundedText (cap_message message) 2048
       else cap_message message)\<rparr>"

definition emitLocked :: "config \<Rightarrow> io \<Rightarrow> string \<Rightarrow> string \<Rightarrow> string \<Rightarrow> manager \<Rightarrow> manager" where
  "emitLocked cfg w key level message m = (case find_job m key of
       None \<Rightarrow> m\<lparr>mg_panic := True\<rparr>
     | Some j \<Rightarrow>
         (let full = (eventLimitBytes \<le> mg_event_bytes m key);
              trunc = (int (length message) > 16384 \<or> full \<or> jb_events_truncated j) in
          if full \<and> \<not> Terminal (jb_state j) then upd_job key (\<lambda>j. j\<lparr>jb_events_truncated := trunc\<rparr>) m
          else log_event cfg w key trunc (next_event w j full level message) m))"

definition emit :: "config \<Rightarrow> io \<Rightarrow> string \<Rightarrow> string \<Rightarrow> string \<Rightarrow> manager \<Rightarrow> manager" where
  "emit cfg w key level message m = (case find_job m key of
       None \<Rightarrow> m
     | Some _ \<Rightarrow> emitLocked cfg w key level message m)"

definition close_channel :: "nat \<Rightarrow> channel list \<Rightarrow> channel list" where
  "close_channel h cs = (if h < length cs then cs[h := (cs ! h)\<lparr>ch_closed := True\<rparr>] else cs)"

definition closeSubscribersLocked :: "string \<Rightarrow> manager \<Rightarrow> manager" where
  "closeSubscribersLocked key m = m\<lparr>mg_channels := fold close_channel (mg_subscribers m key) (mg_channels m),
     mg_subscribers := (mg_subscribers m)(key := []),
     mg_panic := (mg_panic m \<or> \<not> list_all (open_channel (mg_channels m)) (mg_subscribers m key))\<rparr>"

subsection \<open>Publishing the job record\<close>

definition bound_record :: "job \<Rightarrow> job" where
  "bound_record j = j\<lparr>jb_error := boundedText (jb_error j) 2048,
     jb_deployment_error := boundedText (jb_deployment_error j) 2048,
     jb_task_errors := map (\<lambda>s. boundedText s 2048) (take 16 (jb_task_errors j))\<rparr>"

definition publish_record :: "config \<Rightarrow> io \<Rightarrow> bool \<Rightarrow> job \<Rightarrow> job_dir \<Rightarrow> bool \<times> job_dir" where
  "publish_record cfg w budgeted j d = (case cf_job_json cfg j of
       None \<Rightarrow> (False, d)
     | Some n \<Rightarrow>
         if budgeted \<and> n + 1 > metadataReserve div 2 then (False, d)
         else (case io_persist w of
             PersistFailed \<Rightarrow> (False, d)
           | PublishedUnsynced \<Rightarrow> (False, d\<lparr>jd_job := Some (j, n + 1)\<rparr>)
           | Persisted \<Rightarrow> (True, d\<lparr>jd_job := Some (j, n + 1)\<rparr>)))"

definition persistLocked :: "config \<Rightarrow> io \<Rightarrow> string \<Rightarrow> manager \<Rightarrow> bool \<times> manager" where
  "persistLocked cfg w key m = (case find_job m key of
       None \<Rightarrow> (False, m\<lparr>mg_panic := True\<rparr>)
     | Some j \<Rightarrow>
         (let m1 = upd_job key bound_record m; budgeted = (mg_budget m \<noteq> None) in
          case map_of (mg_disk m) key of
            None \<Rightarrow> (False, m1)
          | Some d \<Rightarrow> (let (ok, d') = publish_record cfg w budgeted (bound_record j) d
                      in (ok, upd_dir key (\<lambda>_. d') m1))))"

definition persist :: "config \<Rightarrow> io \<Rightarrow> string \<Rightarrow> manager \<Rightarrow> manager" where
  "persist cfg w key m = snd (persistLocked cfg w key m)"

definition inspectJob :: "config \<Rightarrow> manager \<Rightarrow> job \<Rightarrow> job" where
  "inspectJob cfg m j = j\<lparr>jb_available :=
     (case load (cf_codec cfg) (mg_store m) (rq_artifact (jb_request j)) of Inr _ \<Rightarrow> True | Inl _ \<Rightarrow> False)\<rparr>"

definition fingerprint :: "config \<Rightarrow> request \<Rightarrow> string" where
  "fingerprint cfg r = cf_sha cfg (cf_marshal cfg r)"

subsection \<open>What the small sections leave alone\<close>

text \<open>What identifies a job in memory (key, request, state) and on disk (key, request).\<close>

definition view :: "manager \<Rightarrow> string \<Rightarrow> (string \<times> request \<times> job_state) option" where
  "view m key = map_option (\<lambda>j. (jb_id j, jb_request j, jb_state j)) (find_job m key)"

definition dir_request :: "job_dir \<Rightarrow> (string \<times> request) option" where
  "dir_request d = map_option (\<lambda>jn. (jb_id (fst jn), jb_request (fst jn))) (jd_job d)"

definition disk_view :: "manager \<Rightarrow> string \<Rightarrow> (string \<times> request) option" where
  "disk_view m key = Option.bind (map_of (mg_disk m) key) dir_request"

text \<open>Everything but the logs of the jobs: event lists and counters, channel buffers, files.\<close>

definition same_frame :: "manager \<Rightarrow> manager \<Rightarrow> bool" where
  "same_frame m m' \<longleftrightarrow> map fst (mg_jobs m') = map fst (mg_jobs m)
     \<and> map fst (mg_disk m') = map fst (mg_disk m) \<and> view m' = view m
     \<and> mg_cancellers m' = mg_cancellers m \<and> mg_canceled m' = mg_canceled m
     \<and> mg_submissions m' = mg_submissions m \<and> mg_expired m' = mg_expired m
     \<and> mg_queue m' = mg_queue m \<and> mg_admission_error m' = mg_admission_error m
     \<and> mg_closed m' = mg_closed m \<and> mg_tombstones m' = mg_tombstones m
     \<and> mg_store m' = mg_store m \<and> mg_budget m' = mg_budget m \<and> mg_pins m' = mg_pins m
     \<and> mg_other m' = mg_other m"

lemma same_frame_refl [simp]: "same_frame m m"
  by (simp add: same_frame_def)

lemma same_frame_trans [trans]: "same_frame m m' \<Longrightarrow> same_frame m' m'' \<Longrightarrow> same_frame m m''"
  by (simp add: same_frame_def)

lemma map_of_entry:
  "map_of (AList.map_entry k f xs) k' = (if k' = k then map_option f (map_of xs k) else map_of xs k')"
  by (induction xs) auto

lemma keys_entry [simp]: "map fst (AList.map_entry k f xs) = map fst xs"
  by (induction xs) auto

lemma find_upd_job: "find_job (upd_job key f m) k =
    (if k = key then map_option f (find_job m key) else find_job m k)"
  by (simp add: find_job_def upd_job_def map_of_entry)

lemma find_upd_dir [simp]: "find_job (upd_dir key f m) = find_job m"
  by (simp add: find_job_def upd_dir_def fun_eq_iff)

lemma view_upd_job:
  assumes "\<And>j. find_job m key = Some j \<Longrightarrow> jb_id (f j) = jb_id j \<and> jb_request (f j) = jb_request j
    \<and> jb_state (f j) = jb_state j"
  shows "view (upd_job key f m) = view m"
proof
  fix k
  show "view (upd_job key f m) k = view m k"
    using assms by (cases "find_job m key") (auto simp: view_def find_upd_job)
qed

lemma upd_job_sel [simp]:
  "mg_events (upd_job key f m) = mg_events m" "mg_event_bytes (upd_job key f m) = mg_event_bytes m"
  "mg_subscribers (upd_job key f m) = mg_subscribers m" "mg_channels (upd_job key f m) = mg_channels m"
  "mg_cancellers (upd_job key f m) = mg_cancellers m" "mg_canceled (upd_job key f m) = mg_canceled m"
  "mg_submissions (upd_job key f m) = mg_submissions m" "mg_expired (upd_job key f m) = mg_expired m"
  "mg_queue (upd_job key f m) = mg_queue m" "mg_admission_error (upd_job key f m) = mg_admission_error m"
  "mg_closed (upd_job key f m) = mg_closed m" "mg_panic (upd_job key f m) = mg_panic m"
  "mg_disk (upd_job key f m) = mg_disk m" "mg_tombstones (upd_job key f m) = mg_tombstones m"
  "mg_store (upd_job key f m) = mg_store m" "mg_budget (upd_job key f m) = mg_budget m"
  "mg_pins (upd_job key f m) = mg_pins m" "mg_other (upd_job key f m) = mg_other m"
  "map fst (mg_jobs (upd_job key f m)) = map fst (mg_jobs m)"
  by (simp_all add: upd_job_def)

lemma upd_dir_sel [simp]:
  "mg_events (upd_dir key f m) = mg_events m" "mg_event_bytes (upd_dir key f m) = mg_event_bytes m"
  "mg_subscribers (upd_dir key f m) = mg_subscribers m" "mg_channels (upd_dir key f m) = mg_channels m"
  "mg_cancellers (upd_dir key f m) = mg_cancellers m" "mg_canceled (upd_dir key f m) = mg_canceled m"
  "mg_submissions (upd_dir key f m) = mg_submissions m" "mg_expired (upd_dir key f m) = mg_expired m"
  "mg_queue (upd_dir key f m) = mg_queue m" "mg_admission_error (upd_dir key f m) = mg_admission_error m"
  "mg_closed (upd_dir key f m) = mg_closed m" "mg_panic (upd_dir key f m) = mg_panic m"
  "mg_jobs (upd_dir key f m) = mg_jobs m" "mg_tombstones (upd_dir key f m) = mg_tombstones m"
  "mg_store (upd_dir key f m) = mg_store m" "mg_budget (upd_dir key f m) = mg_budget m"
  "mg_pins (upd_dir key f m) = mg_pins m" "mg_other (upd_dir key f m) = mg_other m"
  "map fst (mg_disk (upd_dir key f m)) = map fst (mg_disk m)" "view (upd_dir key f m) = view m"
  by (simp_all add: upd_dir_def view_def find_job_def fun_eq_iff)

lemma same_frame_upd_job:
  assumes "\<And>j. find_job m key = Some j \<Longrightarrow> jb_id (f j) = jb_id j \<and> jb_request (f j) = jb_request j
    \<and> jb_state (f j) = jb_state j"
  shows "same_frame m (upd_job key f m)"
  using view_upd_job [OF assms] by (simp add: same_frame_def)

lemma view_jobs [simp]: "view (mg_jobs_update f m) k = map_option (\<lambda>j. (jb_id j, jb_request j, jb_state j))
    (map_of (f (mg_jobs m)) k)"
  by (simp add: view_def find_job_def)

lemma same_frame_deliver: "same_frame m (deliver key e m)"
  by (simp add: same_frame_def deliver_def view_def find_job_def fun_eq_iff)

lemma same_frame_append: "same_frame m (appendEventLocked cfg w key e m)"
  by (simp add: same_frame_def appendEventLocked_def)

lemma same_frame_counters:
  "same_frame m (m\<lparr>mg_event_bytes := b, mg_events := ev\<rparr>)"
  by (simp add: same_frame_def view_def find_job_def fun_eq_iff)

lemma same_frame_panic: "same_frame m (m\<lparr>mg_panic := b\<rparr>)"
  by (simp add: same_frame_def view_def find_job_def fun_eq_iff)

lemma same_frame_log_event: "same_frame m (log_event cfg w key trunc e m)"
  unfolding log_event_def
  by (rule same_frame_trans [OF same_frame_trans [OF same_frame_trans
        [OF same_frame_counters same_frame_upd_job] same_frame_append] same_frame_deliver]) simp

lemma same_frame_emitLocked: "same_frame m (emitLocked cfg w key level message m)"
proof (cases "find_job m key")
  case None
  then show ?thesis by (simp add: emitLocked_def same_frame_panic)
next
  case (Some j)
  then show ?thesis
    by (simp add: emitLocked_def Let_def same_frame_upd_job same_frame_log_event)
qed

lemma same_frame_emit: "same_frame m (emit cfg w key level message m)"
  by (simp add: emit_def same_frame_emitLocked split: option.splits)

lemma same_frame_close: "same_frame m (closeSubscribersLocked key m)"
  by (simp add: same_frame_def closeSubscribersLocked_def view_def find_job_def fun_eq_iff)

lemma same_frame_upd_dir: "same_frame m (upd_dir key f m)"
  by (simp add: same_frame_def)

lemma same_frame_persist: "same_frame m (persist cfg w key m)"
proof -
  have bound: "same_frame m (upd_job key bound_record m)"
    by (rule same_frame_upd_job) (simp add: bound_record_def)
  then show ?thesis
    using same_frame_trans [OF bound same_frame_upd_dir]
    by (simp add: persist_def persistLocked_def Let_def same_frame_panic split_beta split: option.splits)
qed

subsection \<open>What they change\<close>

lemma find_job_counters [simp]: "find_job (m\<lparr>mg_event_bytes := b, mg_events := ev\<rparr>) = find_job m"
  by (simp add: find_job_def fun_eq_iff)

lemma find_job_panic [simp]: "find_job (m\<lparr>mg_panic := b\<rparr>) = find_job m"
  by (simp add: find_job_def fun_eq_iff)

lemma find_job_deliver [simp]: "find_job (deliver key e m) = find_job m"
  by (simp add: deliver_def find_job_def fun_eq_iff)

lemma find_job_append [simp]: "find_job (appendEventLocked cfg w key e m) = find_job m"
  by (simp add: appendEventLocked_def)

lemma log_event_sel:
  "mg_events (log_event cfg w key trunc e m) = (mg_events m)(key := mg_events m key @ [e])"
  "find_job m key = Some j \<Longrightarrow> find_job (log_event cfg w key trunc e m) = (find_job m)(key \<mapsto>
     j\<lparr>jb_events_truncated := trunc, jb_event_count := ev_sequence e\<rparr>)"
  by (simp add: log_event_def deliver_def appendEventLocked_def)
    (auto simp: log_event_def find_upd_job fun_eq_iff)

lemma emitLocked_log:
  assumes "find_job m key = Some j"
  obtains new trunc where "mg_events (emitLocked cfg w key level message m)
      = (mg_events m)(key := mg_events m key @ new)"
    "map ev_sequence new = [jb_event_count j + 1..jb_event_count j + int (length new)]"
    "find_job (emitLocked cfg w key level message m) = (find_job m)(key \<mapsto>
       j\<lparr>jb_events_truncated := trunc, jb_event_count := jb_event_count j + int (length new)\<rparr>)"
proof -
  let ?full = "eventLimitBytes \<le> mg_event_bytes m key"
  let ?t = "int (length message) > 16384 \<or> ?full \<or> jb_events_truncated j"
  show ?thesis
  proof (cases "?full \<and> \<not> Terminal (jb_state j)")
    case True
    then have eq: "emitLocked cfg w key level message m = upd_job key (\<lambda>j. j\<lparr>jb_events_truncated := ?t\<rparr>) m"
      using assms by (simp add: emitLocked_def Let_def)
    show ?thesis
      by (rule that [of "[]" ?t]) (simp_all add: eq find_upd_job assms fun_eq_iff)
  next
    case False
    then have eq: "emitLocked cfg w key level message m
        = log_event cfg w key ?t (next_event w j ?full level message) m"
      using assms by (auto simp: emitLocked_def Let_def)
    show ?thesis
      by (rule that [of "[next_event w j ?full level message]" ?t])
        (simp_all add: eq log_event_sel assms next_event_def)
  qed
qed

lemma dir_request_append [simp]: "dir_request (append_line out n e d) = dir_request d"
  by (simp add: append_line_def dir_request_def split: append_outcome.splits)

lemma disk_view_upd_dir: "disk_view (upd_dir key f m) k = (if k = key
    then Option.bind (map_of (mg_disk m) key) (\<lambda>d. dir_request (f d)) else disk_view m k)"
  by (cases "map_of (mg_disk m) key") (simp_all add: disk_view_def upd_dir_def map_of_entry)

lemma disk_view_append [simp]: "disk_view (appendEventLocked cfg w key e m) = disk_view m"
proof
  fix k show "disk_view (appendEventLocked cfg w key e m) k = disk_view m k"
    unfolding appendEventLocked_def disk_view_upd_dir by (simp add: disk_view_def)
qed

lemma disk_view_cong: "mg_disk m' = mg_disk m \<Longrightarrow> disk_view m' = disk_view m"
  by (simp add: disk_view_def fun_eq_iff)

lemma disk_view_upd_job [simp]: "disk_view (upd_job key f m) = disk_view m"
  by (rule disk_view_cong) simp

lemma disk_view_emitLocked [simp]: "disk_view (emitLocked cfg w key level message m) = disk_view m"
proof -
  have "disk_view (deliver k e m') = disk_view m'" for k e m'
    by (rule disk_view_cong) (simp add: deliver_def)
  moreover have "disk_view (m\<lparr>mg_event_bytes := b, mg_events := ev\<rparr>) = disk_view m" for b ev
    by (rule disk_view_cong) simp
  moreover have "disk_view (m\<lparr>mg_panic := b\<rparr>) = disk_view m" for b
    by (rule disk_view_cong) simp
  ultimately show ?thesis
    by (simp add: emitLocked_def log_event_def Let_def split: option.splits)
qed

lemma disk_view_emit [simp]: "disk_view (emit cfg w key level message m) = disk_view m"
  by (simp add: emit_def split: option.splits)

lemma disk_view_close [simp]: "disk_view (closeSubscribersLocked key m) = disk_view m"
  by (rule disk_view_cong) (simp add: closeSubscribersLocked_def)

lemma dir_request_publish:
  "dir_request (snd (publish_record cfg w budgeted j d)) \<in> {dir_request d, Some (jb_id j, jb_request j)}"
  by (simp add: publish_record_def dir_request_def split: option.splits persist_outcome.splits)

lemma publish_record_True:
  "fst (publish_record cfg w budgeted j d) \<Longrightarrow>
    dir_request (snd (publish_record cfg w budgeted j d)) = Some (jb_id j, jb_request j)"
  by (auto simp: publish_record_def dir_request_def split: option.splits persist_outcome.splits if_splits)

lemma persistLocked_dir:
  assumes "find_job m key = Some j" and "map_of (mg_disk m) key = Some d"
  shows "persistLocked cfg w key m = (fst (publish_record cfg w (mg_budget m \<noteq> None) (bound_record j) d),
    upd_dir key (\<lambda>_. snd (publish_record cfg w (mg_budget m \<noteq> None) (bound_record j) d))
      (upd_job key bound_record m))"
  using assms by (simp add: persistLocked_def Let_def split_beta)

lemma disk_view_persist:
  assumes "find_job m key = Some j"
  shows "disk_view (persist cfg w key m) k = disk_view m k
    \<or> (k = key \<and> disk_view (persist cfg w key m) k = Some (jb_id j, jb_request j))"
proof (cases "map_of (mg_disk m) key")
  case None
  with assms show ?thesis by (simp add: persist_def persistLocked_def Let_def)
next
  case (Some d)
  then have dv: "disk_view m key = dir_request d" by (simp add: disk_view_def)
  have "jb_id (bound_record j) = jb_id j" "jb_request (bound_record j) = jb_request j"
    by (simp_all add: bound_record_def)
  with dir_request_publish [of cfg w "mg_budget m \<noteq> None" "bound_record j" d] show ?thesis
    using dv by (auto simp: persist_def persistLocked_dir [OF assms Some] disk_view_upd_dir Some)
qed

lemma persistLocked_True:
  assumes "fst (persistLocked cfg w key m)"
  shows "\<exists>j. find_job m key = Some j
    \<and> disk_view (persist cfg w key m) key = Some (jb_id j, jb_request j)"
proof -
  from assms obtain j d where j: "find_job m key = Some j" and d: "map_of (mg_disk m) key = Some d"
    by (auto simp: persistLocked_def Let_def split: option.splits)
  have "jb_id (bound_record j) = jb_id j" "jb_request (bound_record j) = jb_request j"
    by (simp_all add: bound_record_def)
  moreover have "fst (publish_record cfg w (mg_budget m \<noteq> None) (bound_record j) d)"
    using assms by (simp add: persistLocked_dir [OF j d])
  ultimately show ?thesis
    using j publish_record_True [of cfg w "mg_budget m \<noteq> None" "bound_record j" d]
    by (simp add: persist_def persistLocked_dir [OF j d] disk_view_upd_dir d)
qed

lemma persist_jobs: "find_job (persist cfg w key m)
    = (case find_job m key of None \<Rightarrow> find_job m | Some j \<Rightarrow> (find_job m)(key \<mapsto> bound_record j))"
proof -
  have "find_job (m\<lparr>mg_panic := b\<rparr>) = find_job m" for b
    by (simp add: find_job_def fun_eq_iff)
  then show ?thesis
    by (auto simp: persist_def persistLocked_def Let_def split_beta find_upd_job fun_eq_iff split: option.splits)
qed

subsection \<open>Channels\<close>

definition channels_ok :: "manager \<Rightarrow> bool" where
  "channels_ok m \<longleftrightarrow> (\<forall>k. distinct (mg_subscribers m k)
       \<and> list_all (open_channel (mg_channels m)) (mg_subscribers m k))
     \<and> (\<forall>k k'. k \<noteq> k' \<longrightarrow> set (mg_subscribers m k) \<inter> set (mg_subscribers m k') = {})"

lemma length_fold_send [simp]: "length (fold (send_to e) hs cs) = length cs"
  by (induction hs arbitrary: cs) (simp_all add: send_to_def)

lemma open_send [simp]: "open_channel (send_to e h cs) = open_channel cs"
  by (auto simp: send_to_def open_channel_def nth_list_update fun_eq_iff)

lemma open_fold_send [simp]: "open_channel (fold (send_to e) hs cs) = open_channel cs"
  by (induction hs arbitrary: cs) simp_all

lemma open_close: "open_channel (close_channel h cs) i = (open_channel cs i \<and> i \<noteq> h)"
  by (auto simp: close_channel_def open_channel_def nth_list_update)

lemma open_fold_close: "open_channel (fold close_channel hs cs) i = (open_channel cs i \<and> i \<notin> set hs)"
  by (induction hs arbitrary: cs) (auto simp: open_close)

text \<open>A section keeps the channels in order and does not panic.\<close>

definition channels_kept :: "manager \<Rightarrow> manager \<Rightarrow> bool" where
  "channels_kept m m' \<longleftrightarrow> (channels_ok m \<longrightarrow> channels_ok m' \<and> mg_panic m' = mg_panic m)"

lemma channels_kept_trans [trans]:
  "channels_kept m m' \<Longrightarrow> channels_kept m' m'' \<Longrightarrow> channels_kept m m''"
  by (simp add: channels_kept_def)

lemma channels_kept_same:
  "mg_subscribers m' = mg_subscribers m \<Longrightarrow> open_channel (mg_channels m') = open_channel (mg_channels m)
    \<Longrightarrow> mg_panic m' = mg_panic m \<Longrightarrow> channels_kept m m'"
  by (simp add: channels_kept_def channels_ok_def)

lemma channels_kept_deliver: "channels_kept m (deliver key e m)"
  by (simp add: channels_kept_def channels_ok_def deliver_def)

lemma channels_kept_log_event: "channels_kept m (log_event cfg w key trunc e m)"
  unfolding log_event_def
  by (rule channels_kept_trans [OF channels_kept_same channels_kept_deliver])
    (simp_all add: appendEventLocked_def)

lemma channels_kept_emitLocked:
  "find_job m key \<noteq> None \<Longrightarrow> channels_kept m (emitLocked cfg w key level message m)"
  by (auto simp: emitLocked_def Let_def channels_kept_log_event channels_kept_same)

lemma channels_kept_emit: "channels_kept m (emit cfg w key level message m)"
  using channels_kept_emitLocked
  by (fastforce simp: emit_def channels_kept_def split: option.splits)

lemma channels_kept_persist:
  "find_job m key \<noteq> None \<Longrightarrow> channels_kept m (persist cfg w key m)"
  by (auto simp: persist_def persistLocked_def Let_def split_beta channels_kept_same split: option.splits)

lemma channels_ok_disjoint:
  "channels_ok m \<Longrightarrow> k \<noteq> k' \<Longrightarrow> h \<in> set (mg_subscribers m k) \<Longrightarrow> h \<notin> set (mg_subscribers m k')"
  unfolding channels_ok_def by blast

lemma channels_kept_close: "channels_kept m (closeSubscribersLocked key m)"
  using channels_ok_disjoint [of m _ key]
  by (auto simp: channels_kept_def channels_ok_def closeSubscribersLocked_def open_fold_close
      list_all_iff)

lemma persist_present [simp]: "find_job (persist cfg w key m) k = None \<longleftrightarrow> find_job m k = None"
  by (auto simp: persist_jobs split: option.splits)

lemma emitLocked_present [simp]: "find_job (emitLocked cfg w key level message m) k = None
    \<longleftrightarrow> find_job m k = None"
proof (cases "find_job m key")
  case None
  then show ?thesis by (simp add: emitLocked_def)
next
  case (Some j)
  show ?thesis
    by (rule emitLocked_log [OF Some, of cfg w level message]) (simp add: Some)
qed

subsection \<open>A sample manager\<close>

definition sample_request :: "string \<Rightarrow> string \<Rightarrow> request" where
  "sample_request r a = \<lparr>rq_id = r, rq_tasks = None, rq_artifact = a, rq_hw_server = ''h'',
     rq_tftp_ip = ''i'', rq_board_ip = [], rq_target = [], rq_cable = [], rq_device = [], rq_serial = None\<rparr>"

definition sample_job :: "string \<Rightarrow> request \<Rightarrow> job_state \<Rightarrow> int \<Rightarrow> job" where
  "sample_job key r st created = \<lparr>jb_id = key, jb_request = r, jb_state = st, jb_created = created,
     jb_started = None, jb_finished = None, jb_error = [], jb_event_count = 0,
     jb_events_truncated = False, jb_task_results = [], jb_deployment_error = [],
     jb_deployment_outcome = [], jb_task_errors = [], jb_capture = None, jb_available = False\<rparr>"

definition sample_config :: config where
  "sample_config = \<lparr>cf_root = ''/d/jobs'', cf_codec = sample_codec, cf_registry = [], cf_console = False,
     cf_console_limit = 0, cf_validate = (\<lambda>_ _. True), cf_stamp = (\<lambda>_. ''2026-01-01T00:00:00Z''),
     cf_job_json = (\<lambda>_. Some 500), cf_request_json = (\<lambda>_. Some 200),
     cf_marshal = (\<lambda>r. rq_id r @ ''/'' @ rq_artifact r), cf_sha = (\<lambda>s. s)\<rparr>"

definition sample_io :: io where
  "sample_io = \<lparr>io_now = 7, io_append = Appended, io_persist = Persisted\<rparr>"

definition published :: "job \<Rightarrow> job_dir" where
  "published j = empty_dir\<lparr>jd_job := Some (j, 501)\<rparr>"

definition sample_manager :: "job list \<Rightarrow> manager" where
  "sample_manager js = \<lparr>mg_jobs = map (\<lambda>j. (jb_id j, j)) js, mg_events = (\<lambda>_. []),
     mg_event_bytes = (\<lambda>_. 0), mg_subscribers = (\<lambda>_. []), mg_channels = [], mg_cancellers = [],
     mg_canceled = [], mg_submissions = map_of (map (\<lambda>j. (rq_id (jb_request j), jb_id j))
       (filter (\<lambda>j. rq_id (jb_request j) \<noteq> []) js)),
     mg_expired = (\<lambda>_. None), mg_queue = [],
     mg_admission_error = False, mg_closed = False, mg_panic = False,
     mg_disk = map (\<lambda>j. (jb_id j, published j)) js, mg_tombstones = [], mg_store = empty_store,
     mg_budget = Some (new_gate (2 ^ 30)), mg_pins = [], mg_other = []\<rparr>"

end
