(* ===== verification/Retention.thy ===== *)
theory Retention
  imports JobModel "HOL-Library.Product_Lexorder" "HOL-Library.Multiset"
begin

text \<open>
  Retention (\<open>internal/jobs/retention.go\<close>): what a job may write (\<open>outputReservation\<close>), the
  cleanup that keeps the newest completed jobs, writes a durable tombstone before it removes a
  job that had a request id, and then evicts artifacts until the budget fits, and its callers.
  \<open>cleanupLocked\<close> runs under both locks and is one function on the manager; what the disk does is
  the record \<open>cleanup_io\<close>.
\<close>

subsection \<open>Files of the jobs directory\<close>

definition serialTranscriptName :: string where "serialTranscriptName = ''serial-console.bin''"

definition job_file :: "config \<Rightarrow> string \<Rightarrow> string \<Rightarrow> string" where
  "job_file cfg key name = join_path (join_path (cf_root cfg) key) name"

definition output_files :: "config \<Rightarrow> string \<Rightarrow> string list" where
  "output_files cfg key = map (job_file cfg key) [''job.json'', ''events.jsonl'', serialTranscriptName]"

fun line_size :: "config \<Rightarrow> line \<Rightarrow> int" where
  "line_size cfg (Line e) = line_bytes cfg e"
| "line_size cfg (Junk n) = n"

definition events_size :: "config \<Rightarrow> job_dir \<Rightarrow> int" where
  "events_size cfg d = (\<Sum>l \<leftarrow> jd_events d. line_size cfg l) + jd_torn d"

definition record_size :: "job_dir \<Rightarrow> int" where
  "record_size d = (case jd_job d of None \<Rightarrow> 0 | Some (_, n) \<Rightarrow> n)"

definition serial_size :: "job_dir \<Rightarrow> int" where
  "serial_size d = (case jd_serial d of None \<Rightarrow> 0 | Some n \<Rightarrow> n)"

definition dir_size :: "config \<Rightarrow> job_dir \<Rightarrow> int" where
  "dir_size cfg d = record_size d + events_size cfg d + serial_size d"

definition dir_entries :: "config \<Rightarrow> string \<Rightarrow> job_dir \<Rightarrow> entry list" where
  "dir_entries cfg key d = Directory # [File (job_file cfg key ''job.json'') (record_size d) True,
     File (job_file cfg key ''events.jsonl'') (events_size cfg d) True,
     File (job_file cfg key serialTranscriptName) (serial_size d) True]
     @ map (\<lambda>(name, n). File (job_file cfg key name) n False) (jd_unknown d)"

definition tombstone_json :: "tombstone \<Rightarrow> string" where
  \<open>tombstone_json t = ''{"jobId":'' @ json_string (ts_job t) @ '',"fingerprint":''
     @ json_string (ts_fingerprint t) @ ''}''\<close>

definition tombstone_entries :: "config \<Rightarrow> manager \<Rightarrow> entry list" where
  "tombstone_entries cfg m = map (\<lambda>(r, t). File (job_file cfg ''submissions'' (r @ ''.json''))
     (int (length (tombstone_json t))) True) (mg_tombstones m)"

definition artifact_entries :: "store \<Rightarrow> entry list" where
  "artifact_entries so = concat (map (\<lambda>(key, t). case t of
       TopOther \<Rightarrow> []
     | TopDir tr \<Rightarrow> map (\<lambda>(p, n). case n of
         NDir \<Rightarrow> Directory
       | _ \<Rightarrow> File (join_path (Directory_of so key) p) (node_size n) (is_regular n)) tr) (so_artifacts so))"

definition disk_entries :: "config \<Rightarrow> manager \<Rightarrow> entry list" where
  "disk_entries cfg m = concat (map (\<lambda>(key, d). dir_entries cfg key d) (mg_disk m))
     @ tombstone_entries cfg m @ artifact_entries (mg_store m) @ mg_other m"

definition the_gate :: "manager \<Rightarrow> gate" where
  "the_gate m = (case mg_budget m of Some g \<Rightarrow> g | None \<Rightarrow> new_gate 0)"

definition status :: "config \<Rightarrow> manager \<Rightarrow> storage_status \<times> bool" where
  "status cfg m = StatusLocked (the_gate m) (disk_entries cfg m)"

definition outputReservation :: "config \<Rightarrow> int" where
  "outputReservation cfg = eventLimitBytes + metadataReserve
     + (if cf_console cfg then cf_console_limit cfg else 0)"

subsection \<open>Pruning a job\<close>

record cleanup_io =
  ci_stat :: "string \<Rightarrow> bool" \<comment> \<open>the job's files can be examined\<close>
  ci_tombstone :: "string \<Rightarrow> persist_outcome"
  ci_remove :: "string \<Rightarrow> nat option" \<comment> \<open>the removal fails after so many of the three files\<close>
  ci_artifact :: "string \<Rightarrow> remove_fault option"
  ci_stage :: nat

datatype cleanup_error = StatusError | StatError | BudgetFull | TombstoneError | RemoveError | ArtifactError

record annotated =
  an_status :: storage_status
  an_completed :: nat
  an_active :: nat
  an_unknown :: int

record cleanup =
  cl_jobs :: "string list"
  cl_artifacts :: "string list"
  cl_reclaimable :: int
  cl_status :: "annotated option"

definition knownJobSize :: "config \<Rightarrow> (string \<Rightarrow> bool) \<Rightarrow> string \<Rightarrow> manager \<Rightarrow> int option" where
  "knownJobSize cfg stat key m = (if stat key
     then Some (case map_of (mg_disk m) key of None \<Rightarrow> 0 | Some d \<Rightarrow> dir_size cfg d) else None)"

definition remove_files :: "nat \<Rightarrow> job_dir \<Rightarrow> job_dir" where
  "remove_files n d = d\<lparr>jd_job := (if 0 < n then None else jd_job d),
     jd_events := (if 1 < n then [] else jd_events d), jd_torn := (if 1 < n then 0 else jd_torn d),
     jd_serial := (if 2 < n then None else jd_serial d)\<rparr>"

definition removeKnownJob :: "nat option \<Rightarrow> string \<Rightarrow> manager \<Rightarrow> bool \<times> manager" where
  "removeKnownJob fault key m = (case map_of (mg_disk m) key of
       None \<Rightarrow> (fault = None, m)
     | Some d \<Rightarrow> (case fault of
         Some n \<Rightarrow> (False, upd_dir key (remove_files n) m)
       | None \<Rightarrow> if jd_unknown d = [] then (True, m\<lparr>mg_disk := AList.delete key (mg_disk m)\<rparr>)
                else (True, upd_dir key (remove_files 3) m)))"

definition tombstone_of :: "config \<Rightarrow> job \<Rightarrow> tombstone" where
  "tombstone_of cfg j = \<lparr>ts_job = jb_id j, ts_fingerprint = fingerprint cfg (jb_request j)\<rparr>"

text \<open>\<open>writeTombstone\<close> and the two maps it is followed by.\<close>

definition writeTombstone :: "persist_outcome \<Rightarrow> string \<Rightarrow> tombstone \<Rightarrow> manager \<Rightarrow> bool \<times> manager" where
  "writeTombstone outcome r t m = (case outcome of
       PersistFailed \<Rightarrow> (False, m)
     | PublishedUnsynced \<Rightarrow> (False, m\<lparr>mg_tombstones := AList.update r t (mg_tombstones m)\<rparr>)
     | Persisted \<Rightarrow> (True, m\<lparr>mg_tombstones := AList.update r t (mg_tombstones m)\<rparr>))"

definition expire :: "config \<Rightarrow> cleanup_io \<Rightarrow> job \<Rightarrow> manager \<Rightarrow> cleanup_error option \<times> manager" where
  "expire cfg ci j m =
     (let r = rq_id (jb_request j); t = tombstone_of cfg j in
      if r = [] then (None, m)
      else (let (s, ok) = status cfg m in
        if \<not> ok then (Some StatusError, m)
        else if ss_used s + int (length (tombstone_json t)) + 4096 > gt_limit (the_gate m)
        then (Some BudgetFull, m)
        else (case writeTombstone (ci_tombstone ci r) r t m of
            (False, m') \<Rightarrow> (Some TombstoneError, m')
          | (True, m') \<Rightarrow> (None, m'\<lparr>mg_expired := (mg_expired m')(r \<mapsto> t),
                                mg_submissions := (mg_submissions m')(r := None)\<rparr>))))"

definition forget :: "string \<Rightarrow> manager \<Rightarrow> manager" where
  "forget key m = closeSubscribersLocked key
     (m\<lparr>mg_jobs := AList.delete key (mg_jobs m), mg_events := (mg_events m)(key := [])\<rparr>)"

definition prune_job :: "config \<Rightarrow> cleanup_io \<Rightarrow> job \<Rightarrow> manager \<Rightarrow> cleanup_error option \<times> manager" where
  "prune_job cfg ci j m = (case expire cfg ci j m of
       (Some e, m') \<Rightarrow> (Some e, m')
     | (None, m') \<Rightarrow> (case removeKnownJob (ci_remove ci (jb_id j)) (jb_id j) m' of
         (False, m'') \<Rightarrow> (Some RemoveError, m'')
       | (True, m'') \<Rightarrow> (None, forget (jb_id j) m'')))"

fun prune_jobs :: "config \<Rightarrow> cleanup_io \<Rightarrow> bool \<Rightarrow> job list \<Rightarrow> int \<Rightarrow> cleanup \<Rightarrow> manager \<Rightarrow>
    cleanup_error option \<times> int \<times> cleanup \<times> manager" where
  "prune_jobs cfg ci apply [] used acc m = (None, used, acc, m)"
| "prune_jobs cfg ci apply (j # js) used acc m = (case knownJobSize cfg (ci_stat ci) (jb_id j) m of
       None \<Rightarrow> (Some StatError, used, acc, m)
     | Some n \<Rightarrow>
         (let used' = used - n + (if rq_id (jb_request j) = [] then 0
                                  else int (length (tombstone_json (tombstone_of cfg j))));
              acc' = acc\<lparr>cl_jobs := cl_jobs acc @ [jb_id j], cl_reclaimable := cl_reclaimable acc + n\<rparr>
          in if \<not> apply then prune_jobs cfg ci apply js used' acc' m
             else (case prune_job cfg ci j m of
                 (Some e, m') \<Rightarrow> (Some e, used', acc', m')
               | (None, m') \<Rightarrow> prune_jobs cfg ci apply js used' acc' m')))"

subsection \<open>Evicting artifacts\<close>

definition remove_artifact :: "config \<Rightarrow> cleanup_io \<Rightarrow> string \<Rightarrow> manager \<Rightarrow> bool \<times> manager" where
  "remove_artifact cfg ci key m =
     (let (err, so') = Remove (cd_parse_json (cf_codec cfg)) (cd_parse_time (cf_codec cfg))
            (ci_artifact ci key) (ci_stage ci) key (mg_store m)
      in (err = None, m\<lparr>mg_store := so'\<rparr>))"

definition owned_size :: "config \<Rightarrow> manager \<Rightarrow> string \<Rightarrow> (int \<times> bool) option" where
  "owned_size cfg m key = (case OwnedSize (cd_parse_json (cf_codec cfg)) (cd_parse_time (cf_codec cfg))
     (mg_store m) key of Inl _ \<Rightarrow> None | Inr r \<Rightarrow> Some r)"

fun evict :: "config \<Rightarrow> cleanup_io \<Rightarrow> bool \<Rightarrow> string list \<Rightarrow> int \<Rightarrow> stored_artifact list \<Rightarrow> int \<Rightarrow> cleanup \<Rightarrow>
    manager \<Rightarrow> cleanup_error option \<times> cleanup \<times> manager" where
  "evict cfg ci apply active target [] used acc m = (None, acc, m)"
| "evict cfg ci apply active target (a # as) used acc m =
     (if used \<le> target then (None, acc, m)
      else if sa_id a \<in> set active then evict cfg ci apply active target as used acc m
      else (case owned_size cfg m (sa_id a) of
          None \<Rightarrow> (Some ArtifactError, acc, m)
        | Some (n, safe) \<Rightarrow>
            if \<not> safe then evict cfg ci apply active target as used acc m
            else (let acc' = acc\<lparr>cl_artifacts := cl_artifacts acc @ [sa_id a],
                                 cl_reclaimable := cl_reclaimable acc + n\<rparr> in
              if \<not> apply then evict cfg ci apply active target as (used - n) acc' m
              else (case remove_artifact cfg ci (sa_id a) m of
                  (False, m') \<Rightarrow> (Some ArtifactError, acc', m')
                | (True, m') \<Rightarrow> evict cfg ci apply active target as (used - n) acc' m'))))"

subsection \<open>The cleanup\<close>

text \<open>The zero \<open>time.Time\<close>, the first instant of year 1.\<close>

definition zero_time :: int where "zero_time = - 62135596800 * 10 ^ 9"

definition all_jobs :: "manager \<Rightarrow> job list" where
  "all_jobs m = map snd (mg_jobs m)"

fun known_jobs :: "config \<Rightarrow> (string \<Rightarrow> bool) \<Rightarrow> string list \<Rightarrow> manager \<Rightarrow> int option" where
  "known_jobs cfg stat [] m = Some 0"
| "known_jobs cfg stat (k # ks) m = (case knownJobSize cfg stat k m of
       None \<Rightarrow> None
     | Some n \<Rightarrow> map_option (\<lambda>r. n + r) (known_jobs cfg stat ks m))"

fun known_artifacts :: "config \<Rightarrow> stored_artifact list \<Rightarrow> manager \<Rightarrow> int option" where
  "known_artifacts cfg [] m = Some 0"
| "known_artifacts cfg (a # as) m = (case owned_size cfg m (sa_id a) of
       None \<Rightarrow> None
     | Some (n, safe) \<Rightarrow> map_option (\<lambda>r. (if safe then n else 0) + r) (known_artifacts cfg as m))"

definition annotateStatusLocked :: "config \<Rightarrow> (string \<Rightarrow> bool) \<Rightarrow> storage_status \<Rightarrow> manager \<Rightarrow> annotated option" where
  "annotateStatusLocked cfg stat s m =
     (case known_jobs cfg stat (map fst (mg_jobs m)) m of
        None \<Rightarrow> None
      | Some a \<Rightarrow> (case known_artifacts cfg (List_artifacts (cd_parse_json (cf_codec cfg))
            (cd_parse_time (cf_codec cfg)) (mg_store m)) m of
          None \<Rightarrow> None
        | Some b \<Rightarrow> Some \<lparr>an_status = s,
            an_completed = length (filter (\<lambda>j. Terminal (jb_state j)) (all_jobs m)),
            an_active = length (filter (\<lambda>j. \<not> Terminal (jb_state j)) (all_jobs m)),
            an_unknown = max 0 (ss_used s - (a + b))\<rparr>))"

definition final_status :: "config \<Rightarrow> (string \<Rightarrow> bool) \<Rightarrow> manager \<Rightarrow> annotated option" where
  "final_status cfg stat m = (let (s, ok) = status cfg m in
     if \<not> ok then None else annotateStatusLocked cfg stat s m)"

text \<open>The newest first, the larger id first among equal times.\<close>

definition completed_jobs :: "manager \<Rightarrow> job list" where
  "completed_jobs m = rev (sort_key (\<lambda>j. (jb_created j, jb_id j))
     (filter (\<lambda>j. Terminal (jb_state j)) (all_jobs m)))"

definition active_artifacts :: "manager \<Rightarrow> string list" where
  "active_artifacts m = mg_pins m
     @ map (\<lambda>j. rq_artifact (jb_request j)) (filter (\<lambda>j. \<not> Terminal (jb_state j)) (all_jobs m))"

definition last_used :: "manager \<Rightarrow> string \<Rightarrow> int" where
  "last_used m key = foldl (\<lambda>t j. if rq_artifact (jb_request j) = key \<and> t < jb_created j
     then jb_created j else t) zero_time (all_jobs m)"

definition referenced :: "manager \<Rightarrow> string \<Rightarrow> bool" where
  "referenced m key \<longleftrightarrow>
     key \<in> (\<lambda>j. rq_artifact (jb_request j)) ` set (take completedJobLimit (completed_jobs m))"

definition eviction_order :: "config \<Rightarrow> manager \<Rightarrow> stored_artifact list" where
  "eviction_order cfg m = sort_key (\<lambda>a. (referenced m (sa_id a),
       if referenced m (sa_id a) then last_used m (sa_id a) else sa_imported a, sa_id a))
     (List_artifacts (cd_parse_json (cf_codec cfg)) (cd_parse_time (cf_codec cfg)) (mg_store m))"

definition finish_cleanup :: "config \<Rightarrow> cleanup_io \<Rightarrow> cleanup_error option \<times> cleanup \<times> manager \<Rightarrow>
    cleanup_error option \<times> cleanup \<times> manager" where
  "finish_cleanup cfg ci r = (case r of
       (Some e, acc, m) \<Rightarrow> (Some e, acc, m)
     | (None, acc, m) \<Rightarrow> (case final_status cfg (ci_stat ci) m of
         None \<Rightarrow> (Some StatusError, acc, m)
       | Some st \<Rightarrow> (None, acc\<lparr>cl_status := Some st\<rparr>, m)))"

text \<open>After the pruning: an applied cleanup measures the disk again, a preview estimates.\<close>

definition evict_artifacts :: "config \<Rightarrow> cleanup_io \<Rightarrow> bool \<Rightarrow> int \<Rightarrow> string list \<Rightarrow> stored_artifact list \<Rightarrow>
    int \<Rightarrow> int \<Rightarrow> cleanup \<Rightarrow> manager \<Rightarrow> cleanup_error option \<times> cleanup \<times> manager" where
  "evict_artifacts cfg ci apply need active order reserved used acc m =
     (let limit = gt_limit (the_gate m) in
      if apply then (let (s, ok) = status cfg m in
        if \<not> ok then (Some StatusError, acc, m)
        else finish_cleanup cfg ci (evict cfg ci True active (limit - ss_reserved s - need) order (ss_used s) acc m))
      else finish_cleanup cfg ci (evict cfg ci False active (limit - reserved - need) order used acc m))"

definition no_cleanup :: cleanup where
  "no_cleanup = \<lparr>cl_jobs = [], cl_artifacts = [], cl_reclaimable = 0, cl_status = None\<rparr>"

definition cleanupLocked :: "config \<Rightarrow> cleanup_io \<Rightarrow> bool \<Rightarrow> int \<Rightarrow> manager \<Rightarrow>
    cleanup_error option \<times> cleanup \<times> manager" where
  "cleanupLocked cfg ci apply need m =
     (let (s, ok) = status cfg m in
      if \<not> ok then (Some StatusError, no_cleanup, m)
      else (case prune_jobs cfg ci apply (drop completedJobLimit (completed_jobs m)) (ss_used s) no_cleanup m of
          (Some e, _, acc, m') \<Rightarrow> (Some e, acc, m')
        | (None, used, acc, m') \<Rightarrow> evict_artifacts cfg ci apply need (active_artifacts m)
            (eviction_order cfg m) (ss_reserved s) used acc m'))"

text \<open>\<open>Cleanup\<close>, and the callback the gate runs when growth does not fit.\<close>

definition Cleanup :: "config \<Rightarrow> cleanup_io \<Rightarrow> bool \<Rightarrow> manager \<Rightarrow>
    (cleanup_error option \<times> cleanup \<times> manager) option" where
  "Cleanup cfg ci apply m = (if mg_budget m = None then None else Some (cleanupLocked cfg ci apply 0 m))"

definition reclaim :: "config \<Rightarrow> cleanup_io \<Rightarrow> int \<Rightarrow> manager \<Rightarrow> cleanup_error option \<times> manager" where
  "reclaim cfg ci need m = (let (e, _, m') = cleanupLocked cfg ci True need m in (e, m'))"

definition drop_reservation :: "string \<Rightarrow> gate \<Rightarrow> gate" where
  "drop_reservation key g = g\<lparr>gt_reservations := DAList.delete key (gt_reservations g),
     gt_consumption := (gt_consumption g)(key := [])\<rparr>"

definition set_reservation :: "string \<Rightarrow> int \<Rightarrow> string list \<Rightarrow> gate \<Rightarrow> gate" where
  "set_reservation key n paths g = g\<lparr>gt_reservations := DAList.update key n (gt_reservations g),
     gt_consumption := (gt_consumption g)(key := paths)\<rparr>"

definition release_reservations :: "manager \<Rightarrow> manager" where
  "release_reservations m = m\<lparr>mg_budget := map_option
     (\<lambda>g. fold (\<lambda>(key, j) g. if Terminal (jb_state j) then drop_reservation key g else g) (mg_jobs m) g)
     (mg_budget m)\<rparr>"

definition retentionAfterCompletion :: "config \<Rightarrow> cleanup_io \<Rightarrow> manager \<Rightarrow> manager" where
  "retentionAfterCompletion cfg ci m = (if mg_budget m = None then m
     else snd (snd (cleanupLocked cfg ci True 0 (release_reservations m))))"

definition initializeRetention :: "config \<Rightarrow> cleanup_io \<Rightarrow> manager \<Rightarrow> cleanup_error option \<times> manager" where
  "initializeRetention cfg ci m = (case mg_budget m of
       None \<Rightarrow> (None, m)
     | Some g \<Rightarrow>
         (let (e, _, m') = cleanupLocked cfg ci True 0
            (m\<lparr>mg_budget := Some (g\<lparr>gt_reservations := DAList.update ''maintenance'' maintenanceReserve
               (gt_reservations g)\<rparr>)\<rparr>)
          in case e of
             Some e \<Rightarrow> (Some e, m')
           | None \<Rightarrow> (if snd (status cfg m') then (None, m') else (Some StatusError, m'))))"

definition StorageStatus :: "config \<Rightarrow> (string \<Rightarrow> bool) \<Rightarrow> manager \<Rightarrow> annotated option" where
  "StorageStatus cfg stat m = (if mg_budget m = None then None else final_status cfg stat m)"

subsection \<open>What a cleanup may change\<close>

text \<open>\<open>T\<close> is the set of jobs selected for pruning.  A job that is gone had no request id, or its
  tombstone is durable and in memory.\<close>

definition buried :: "manager \<Rightarrow> job \<Rightarrow> bool" where
  "buried m j \<longleftrightarrow> rq_id (jb_request j) = [] \<or> (mg_expired m (rq_id (jb_request j)) \<noteq> None
     \<and> map_of (mg_tombstones m) (rq_id (jb_request j)) \<noteq> None)"

definition cleaned_jobs :: "job set \<Rightarrow> manager \<Rightarrow> manager \<Rightarrow> bool" where
  "cleaned_jobs T m m' \<longleftrightarrow> (\<forall>k. (find_job m' k = find_job m k \<and> mg_events m' k = mg_events m k
        \<and> mg_subscribers m' k = mg_subscribers m k)
      \<or> (find_job m' k = None \<and> (\<exists>j \<in> T. jb_id j = k \<and> buried m' j)))
     \<and> (\<forall>k. disk_view m' k = disk_view m k \<or> (disk_view m' k = None \<and> (\<exists>j \<in> T. jb_id j = k \<and> buried m' j)))
     \<and> (distinct (map fst (mg_jobs m)) \<longrightarrow> distinct (map fst (mg_jobs m')))
     \<and> (distinct (map fst (mg_disk m)) \<longrightarrow> distinct (map fst (mg_disk m')))
     \<and> set (map fst (mg_disk m')) \<subseteq> set (map fst (mg_disk m))"

definition cleaned_ids :: "config \<Rightarrow> job set \<Rightarrow> manager \<Rightarrow> manager \<Rightarrow> bool" where
  "cleaned_ids cfg T m m' \<longleftrightarrow>
     (\<forall>r. mg_expired m' r = mg_expired m r \<or> (\<exists>j \<in> T. rq_id (jb_request j) = r \<and> r \<noteq> []
        \<and> mg_expired m' r = Some (tombstone_of cfg j) \<and> map_of (mg_tombstones m') r \<noteq> None
        \<and> mg_submissions m' r = None))
     \<and> (\<forall>r. map_of (mg_tombstones m') r = map_of (mg_tombstones m) r
        \<or> (\<exists>j \<in> T. rq_id (jb_request j) = r \<and> r \<noteq> [] \<and> map_of (mg_tombstones m') r = Some (tombstone_of cfg j)))
     \<and> (\<forall>r. mg_submissions m' r = mg_submissions m r
        \<or> (mg_submissions m' r = None \<and> r \<noteq> [] \<and> mg_expired m' r \<noteq> None))"

definition cleaned_rest :: "manager \<Rightarrow> manager \<Rightarrow> bool" where
  "cleaned_rest m m' \<longleftrightarrow> mg_cancellers m' = mg_cancellers m \<and> mg_canceled m' = mg_canceled m
     \<and> mg_queue m' = mg_queue m \<and> mg_admission_error m' = mg_admission_error m
     \<and> mg_closed m' = mg_closed m \<and> mg_budget m' = mg_budget m \<and> mg_pins m' = mg_pins m
     \<and> mg_other m' = mg_other m \<and> mg_event_bytes m' = mg_event_bytes m \<and> channels_kept m m'"

definition cleaned :: "config \<Rightarrow> job set \<Rightarrow> manager \<Rightarrow> manager \<Rightarrow> bool" where
  "cleaned cfg T m m' \<longleftrightarrow> cleaned_jobs T m m' \<and> cleaned_ids cfg T m m' \<and> cleaned_rest m m'"

lemma channels_kept_refl [simp]: "channels_kept m m"
  by (simp add: channels_kept_def)

lemma cleaned_refl [simp]: "cleaned cfg T m m"
  by (simp add: cleaned_def cleaned_jobs_def cleaned_ids_def cleaned_rest_def)

lemma buried_mono: "cleaned_ids cfg T m m' \<Longrightarrow> buried m j \<Longrightarrow> buried m' j"
  unfolding buried_def cleaned_ids_def by (metis option.distinct(1))

lemma cleaned_jobs_trans:
  assumes "cleaned_jobs T m m'" "cleaned_jobs T m' m''" and mono: "\<And>j. buried m' j \<Longrightarrow> buried m'' j"
  shows "cleaned_jobs T m m''"
  unfolding cleaned_jobs_def
proof (intro conjI allI)
  fix k
  show "(find_job m'' k = find_job m k \<and> mg_events m'' k = mg_events m k
        \<and> mg_subscribers m'' k = mg_subscribers m k)
      \<or> (find_job m'' k = None \<and> (\<exists>j \<in> T. jb_id j = k \<and> buried m'' j))"
    using assms(1,2) mono unfolding cleaned_jobs_def by metis
  show "disk_view m'' k = disk_view m k \<or> (disk_view m'' k = None \<and> (\<exists>j \<in> T. jb_id j = k \<and> buried m'' j))"
    using assms(1,2) mono unfolding cleaned_jobs_def by metis
next
  show "set (map fst (mg_disk m'')) \<subseteq> set (map fst (mg_disk m))"
    using assms(1,2) unfolding cleaned_jobs_def by (meson subset_trans)
qed (use assms(1,2) in \<open>simp_all add: cleaned_jobs_def\<close>)

lemma cleaned_ids_trans:
  assumes "cleaned_ids cfg T m m'" "cleaned_ids cfg T m' m''"
  shows "cleaned_ids cfg T m m''"
  unfolding cleaned_ids_def
proof (intro conjI allI)
  fix r
  have tomb: "map_of (mg_tombstones m') r \<noteq> None \<Longrightarrow> map_of (mg_tombstones m'') r \<noteq> None"
    and exp: "mg_expired m' r \<noteq> None \<Longrightarrow> mg_expired m'' r \<noteq> None"
    using assms(2) unfolding cleaned_ids_def by (metis option.distinct(1))+
  have sub: "mg_submissions m' r = None \<Longrightarrow> mg_submissions m'' r = None"
    using assms(2) unfolding cleaned_ids_def by metis
  show "mg_expired m'' r = mg_expired m r \<or> (\<exists>j \<in> T. rq_id (jb_request j) = r \<and> r \<noteq> []
        \<and> mg_expired m'' r = Some (tombstone_of cfg j) \<and> map_of (mg_tombstones m'') r \<noteq> None
        \<and> mg_submissions m'' r = None)"
    using assms tomb sub unfolding cleaned_ids_def by metis
  show "map_of (mg_tombstones m'') r = map_of (mg_tombstones m) r
        \<or> (\<exists>j \<in> T. rq_id (jb_request j) = r \<and> r \<noteq> [] \<and> map_of (mg_tombstones m'') r = Some (tombstone_of cfg j))"
    using assms unfolding cleaned_ids_def by metis
  show "mg_submissions m'' r = mg_submissions m r
        \<or> (mg_submissions m'' r = None \<and> r \<noteq> [] \<and> mg_expired m'' r \<noteq> None)"
    using assms exp unfolding cleaned_ids_def by metis
qed

lemma cleaned_trans [trans]:
  "cleaned cfg T m m' \<Longrightarrow> cleaned cfg T m' m'' \<Longrightarrow> cleaned cfg T m m''"
  using cleaned_jobs_trans cleaned_ids_trans buried_mono channels_kept_trans
  unfolding cleaned_def cleaned_rest_def by metis

lemma cleaned_disk_only:
  assumes "cleaned_jobs T m m'" "cleaned_rest m m'" "mg_expired m' = mg_expired m"
    "mg_tombstones m' = mg_tombstones m" "mg_submissions m' = mg_submissions m"
  shows "cleaned cfg T m m'"
  using assms by (simp add: cleaned_def cleaned_ids_def)

lemma cleaned_expire:
  assumes "expire cfg ci j m = (err, m')" "j \<in> T"
  shows "cleaned cfg T m m' \<and> (err = None \<longrightarrow> buried m' j)"
proof -
  let ?r = "rq_id (jb_request j)"
  have fj: "find_job (m\<lparr>mg_tombstones := t\<rparr>) = find_job m"
      "find_job (m\<lparr>mg_tombstones := t, mg_expired := e, mg_submissions := s\<rparr>) = find_job m"
      "disk_view (m\<lparr>mg_tombstones := t\<rparr>) = disk_view m"
      "disk_view (m\<lparr>mg_tombstones := t, mg_expired := e, mg_submissions := s\<rparr>) = disk_view m" for t e s
    by (simp_all add: find_job_def disk_view_def fun_eq_iff)
  have kept: "channels_kept m (m\<lparr>mg_tombstones := t\<rparr>)"
      "channels_kept m (m\<lparr>mg_tombstones := t, mg_expired := e, mg_submissions := s\<rparr>)" for t e s
    by (rule channels_kept_same; simp)+
  have one: "cleaned cfg T m (m\<lparr>mg_tombstones := AList.update ?r (tombstone_of cfg j) (mg_tombstones m)\<rparr>)"
    if "?r \<noteq> []"
    using that assms(2) kept
    by (auto simp: cleaned_def cleaned_jobs_def cleaned_ids_def cleaned_rest_def fj update_conv')
  have two: "cleaned cfg T m (m\<lparr>mg_tombstones := AList.update ?r (tombstone_of cfg j) (mg_tombstones m),
      mg_expired := (mg_expired m)(?r \<mapsto> tombstone_of cfg j), mg_submissions := (mg_submissions m)(?r := None)\<rparr>)"
    if "?r \<noteq> []"
    using that assms(2) kept
    by (auto simp: cleaned_def cleaned_jobs_def cleaned_ids_def cleaned_rest_def fj update_conv')
  show ?thesis
    using assms(1) one two
    by (auto simp: expire_def writeTombstone_def Let_def buried_def update_conv' split: prod.splits if_splits
        persist_outcome.splits)
qed

lemma cleaned_remove:
  assumes "removeKnownJob fault (jb_id j) m = (ok, m')" "j \<in> T" "buried m j"
  shows "cleaned cfg T m m'"
proof -
  have jobs: "mg_jobs m' = mg_jobs m" and sel: "mg_events m' = mg_events m"
      "mg_subscribers m' = mg_subscribers m" "mg_expired m' = mg_expired m"
      "mg_tombstones m' = mg_tombstones m" "mg_submissions m' = mg_submissions m"
    and rest: "cleaned_rest m m'"
    using assms(1)
    by (auto simp: removeKnownJob_def cleaned_rest_def channels_kept_same split: option.splits if_splits)
  have fj: "find_job m' = find_job m" using jobs by (simp add: find_job_def fun_eq_iff)
  have bur: "buried m' j" using assms(3) sel by (simp add: buried_def)
  have files: "dir_request (remove_files n d) = dir_request d \<or> dir_request (remove_files n d) = None" for n d
    by (simp add: dir_request_def remove_files_def)
  have disk: "disk_view m' k = disk_view m k \<or> (disk_view m' k = None \<and> jb_id j = k)" for k
  proof (cases "map_of (mg_disk m) (jb_id j)")
    case None
    then show ?thesis using assms(1) by (simp add: removeKnownJob_def)
  next
    case (Some d)
    have dv: "disk_view m (jb_id j) = dir_request d" by (simp add: disk_view_def Some)
    have del: "disk_view (m\<lparr>mg_disk := AList.delete (jb_id j) (mg_disk m)\<rparr>) k
        = (if k = jb_id j then None else disk_view m k)"
      by (simp add: disk_view_def delete_conv')
    have upd: "disk_view (upd_dir (jb_id j) (remove_files n) m) k
        = (if k = jb_id j then dir_request (remove_files n d) else disk_view m k)" for n
      by (simp add: disk_view_upd_dir Some)
    from assms(1) Some consider "m' = m\<lparr>mg_disk := AList.delete (jb_id j) (mg_disk m)\<rparr>"
      | n where "m' = upd_dir (jb_id j) (remove_files n) m"
      by (auto simp: removeKnownJob_def split: option.splits if_splits)
    then show ?thesis
    proof cases
      case 1
      then show ?thesis by (simp add: del)
    next
      case (2 n)
      then show ?thesis using files [of n d] by (auto simp: upd dv)
    qed
  qed
  have "map fst (mg_disk m') = map fst (mg_disk m)
      \<or> map fst (mg_disk m') = removeAll (jb_id j) (map fst (mg_disk m))"
    using assms(1)
    by (auto simp: removeKnownJob_def delete_keys [symmetric] split: option.splits if_splits)
  then have keys: "set (map fst (mg_disk m')) \<subseteq> set (map fst (mg_disk m))"
      "distinct (map fst (mg_disk m)) \<longrightarrow> distinct (map fst (mg_disk m'))"
    by (auto simp: distinct_removeAll simp del: set_map)
  show ?thesis
    by (rule cleaned_disk_only [OF _ rest sel(3-5)])
      (use fj sel bur disk keys jobs assms(2) in \<open>auto simp: cleaned_jobs_def\<close>)
qed

lemma cleaned_forget:
  assumes "j \<in> T" "buried m j"
  shows "cleaned cfg T m (forget (jb_id j) m)"
proof -
  let ?m = "m\<lparr>mg_jobs := AList.delete (jb_id j) (mg_jobs m), mg_events := (mg_events m)(jb_id j := [])\<rparr>"
  have "channels_kept m ?m" by (rule channels_kept_same) simp_all
  then have "channels_kept m (forget (jb_id j) m)"
    unfolding forget_def by (rule channels_kept_trans [OF _ channels_kept_close])
  moreover have "find_job (forget (jb_id j) m) = (find_job m)(jb_id j := None)"
    by (simp add: find_job_def forget_def closeSubscribersLocked_def fun_eq_iff delete_conv')
  moreover have "disk_view (forget (jb_id j) m) = disk_view m"
    by (rule disk_view_cong) (simp add: forget_def closeSubscribersLocked_def)
  ultimately show ?thesis
    using assms
    by (auto simp: cleaned_def cleaned_jobs_def cleaned_ids_def cleaned_rest_def forget_def buried_def
        closeSubscribersLocked_def distinct_delete)
qed

lemma cleaned_prune_job:
  assumes "prune_job cfg ci j m = (err, m')" "j \<in> T"
  shows "cleaned cfg T m m'"
proof -
  obtain e m1 where e: "expire cfg ci j m = (e, m1)" by fastforce
  have m1: "cleaned cfg T m m1" "e = None \<longrightarrow> buried m1 j"
    using cleaned_expire [OF e assms(2)] by simp_all
  show ?thesis
  proof (cases e)
    case None
    obtain ok m2 where r: "removeKnownJob (ci_remove ci (jb_id j)) (jb_id j) m1 = (ok, m2)" by fastforce
    from m1(2) None have b: "buried m1 j" by simp
    have m2: "cleaned cfg T m1 m2" by (rule cleaned_remove [OF r assms(2) b])
    then have b2: "buried m2 j" using b buried_mono by (auto simp: cleaned_def)
    from cleaned_trans [OF m1(1) m2] cleaned_trans [OF cleaned_trans [OF m1(1) m2] cleaned_forget [OF assms(2) b2]]
    show ?thesis using assms(1) e None r by (auto simp: prune_job_def split: bool.splits)
  next
    case (Some x)
    with assms(1) e m1 show ?thesis by (simp add: prune_job_def)
  qed
qed

lemma cleaned_prune_jobs:
  "prune_jobs cfg ci ap js used acc m = (err, used', acc', m') \<Longrightarrow> set js \<subseteq> T \<Longrightarrow> cleaned cfg T m m'"
proof (induction cfg ci ap js used acc m arbitrary: err used' acc' m' rule: prune_jobs.induct)
  case (2 cfg ci ap j js used acc m)
  show ?case
  proof (cases "knownJobSize cfg (ci_stat ci) (jb_id j) m")
    case None
    with 2(3) show ?thesis by simp
  next
    case (Some n)
    obtain e m1 where p: "prune_job cfg ci j m = (e, m1)" by fastforce
    show ?thesis
    proof (cases ap)
      case True
      have "cleaned cfg T m m1" using cleaned_prune_job [OF p] 2(4) by simp
      then show ?thesis
        using 2(2)[OF Some refl refl] 2(3,4) Some True p cleaned_trans
        by (cases e) (auto simp: Let_def)
    next
      case False
      then show ?thesis using 2(1) [OF Some refl refl] 2(3,4) Some by (simp add: Let_def)
    qed
  qed
qed simp

lemma cleaned_store: "cleaned cfg T m (m\<lparr>mg_store := so\<rparr>)"
proof -
  have "channels_kept m (m\<lparr>mg_store := so\<rparr>)" by (rule channels_kept_same) simp_all
  then show ?thesis
    by (simp add: cleaned_def cleaned_jobs_def cleaned_ids_def cleaned_rest_def find_job_def disk_view_def)
qed

lemma evict_preserves:
  assumes "evict cfg ci ap active target as used acc m = (err, acc', m')" and "P m"
    and "\<And>key m ok m'. P m \<Longrightarrow> key \<notin> set active \<Longrightarrow> remove_artifact cfg ci key m = (ok, m') \<Longrightarrow> P m'"
  shows "P m' \<and> (\<not> ap \<longrightarrow> m' = m) \<and> cl_jobs acc' = cl_jobs acc"
  using assms(1,2)
proof (induction "as" arbitrary: used acc m)
  case (Cons a as)
  show ?case
  proof (cases "used \<le> target \<or> sa_id a \<in> set active \<or> owned_size cfg m (sa_id a) = None")
    case True
    then show ?thesis using Cons by (cases "used \<le> target"; cases "sa_id a \<in> set active") auto
  next
    case False
    then have over: "\<not> used \<le> target" and free: "sa_id a \<notin> set active" by simp_all
    from False obtain n safe where Some: "owned_size cfg m (sa_id a) = Some (n, safe)" by auto
    obtain ok m1 where r: "remove_artifact cfg ci (sa_id a) m = (ok, m1)" by fastforce
    have m1: "P m1" by (rule assms(3) [OF Cons.prems(2) free r])
    let ?acc = "acc\<lparr>cl_artifacts := cl_artifacts acc @ [sa_id a], cl_reclaimable := cl_reclaimable acc + n\<rparr>"
    consider "\<not> safe" | "safe" "\<not> ap" | "safe" ap ok | "safe" ap "\<not> ok" by blast
    then show ?thesis
    proof cases
      case 1
      with Cons.prems over free Some have "evict cfg ci ap active target as used acc m = (err, acc', m')"
        by simp
      from Cons.IH [OF this Cons.prems(2)] show ?thesis .
    next
      case 2
      with Cons.prems over free Some have "evict cfg ci ap active target as (used - n) ?acc m = (err, acc', m')"
        by simp
      from Cons.IH [OF this Cons.prems(2)] show ?thesis by simp
    next
      case 3
      with Cons.prems over free Some r have "evict cfg ci ap active target as (used - n) ?acc m1 = (err, acc', m')"
        by simp
      from Cons.IH [OF this m1] 3 show ?thesis by simp
    next
      case 4
      with Cons.prems over free Some r m1 show ?thesis by auto
    qed
  qed
qed auto

text \<open>Every job of the map has its directory.\<close>

definition dirs_ok :: "manager \<Rightarrow> bool" where
  "dirs_ok m \<longleftrightarrow> (\<forall>k. find_job m k \<noteq> None \<longrightarrow> map_of (mg_disk m) k \<noteq> None)"

lemma dirs_ok_same: "find_job m' = find_job m \<Longrightarrow> map fst (mg_disk m') = map fst (mg_disk m) \<Longrightarrow>
    dirs_ok m' = dirs_ok m"
  unfolding dirs_ok_def map_of_eq_None_iff set_map [symmetric] by simp

lemma dirs_ok_prune_job:
  assumes "prune_job cfg ci j m = (err, m')" "dirs_ok m"
  shows "dirs_ok m'"
proof -
  obtain e m1 where e: "expire cfg ci j m = (e, m1)" by fastforce
  have m1: "mg_jobs m1 = mg_jobs m \<and> mg_disk m1 = mg_disk m"
    using e by (auto simp: expire_def writeTombstone_def Let_def split: if_splits prod.splits persist_outcome.splits)
  then have d1: "dirs_ok m1" using assms(2) by (simp add: dirs_ok_def find_job_def)
  show ?thesis
  proof (cases e)
    case None
    obtain ok m2 where r: "removeKnownJob (ci_remove ci (jb_id j)) (jb_id j) m1 = (ok, m2)" by fastforce
    have keys: "mg_jobs m2 = mg_jobs m1 \<and> (\<forall>k. k \<noteq> jb_id j \<longrightarrow> (map_of (mg_disk m2) k = None) = (map_of (mg_disk m1) k = None))
        \<and> (\<not> ok \<longrightarrow> map fst (mg_disk m2) = map fst (mg_disk m1))"
      using r by (auto simp: removeKnownJob_def upd_dir_def map_of_entry split: option.splits if_splits)
    show ?thesis
    proof (cases ok)
      case True
      then have "m' = forget (jb_id j) m2" using assms(1) e None r by (simp add: prune_job_def)
      then have m': "find_job m' = (find_job m1)(jb_id j := None)" "mg_disk m' = mg_disk m2"
        using keys by (simp_all add: forget_def closeSubscribersLocked_def find_job_def delete_conv' fun_eq_iff)
      show ?thesis
        using d1 conjunct1 [OF conjunct2 [OF keys]] unfolding dirs_ok_def m' by (metis fun_upd_apply)
    next
      case False
      then have "m' = m2" using assms(1) e None r by (simp add: prune_job_def)
      then show ?thesis using d1 dirs_ok_same [of m2 m1] keys False by (simp add: find_job_def fun_eq_iff)
    qed
  next
    case (Some x)
    then show ?thesis using assms(1) e d1 by (simp add: prune_job_def)
  qed
qed

lemma dirs_ok_prune_jobs:
  "prune_jobs cfg ci ap js used acc m = (err, used', acc', m') \<Longrightarrow> dirs_ok m \<Longrightarrow> dirs_ok m'"
proof (induction js arbitrary: used acc m)
  case (Cons j js)
  obtain e m1 where p: "prune_job cfg ci j m = (e, m1)" by fastforce
  note d1 = dirs_ok_prune_job [OF p Cons.prems(2)]
  from Cons.prems(1) p have "m' = m \<or> m' = m1 \<or> (\<exists>used1 acc1. prune_jobs cfg ci ap js used1 acc1 m = (err, used', acc', m'))
      \<or> (\<exists>used1 acc1. prune_jobs cfg ci ap js used1 acc1 m1 = (err, used', acc', m'))"
    by (cases ap; cases e) (auto simp: Let_def split: option.splits)
  with Cons.IH Cons.prems(2) d1 show ?case by blast
qed simp

subsection \<open>The guarantees of the cleanup\<close>

definition well_keyed :: "manager \<Rightarrow> bool" where
  "well_keyed m \<longleftrightarrow> distinct (map fst (mg_jobs m)) \<and> (\<forall>k j. find_job m k = Some j \<longrightarrow> jb_id j = k)"

text \<open>Published artifacts are untouched or gone, and the protected ones are untouched.\<close>

definition store_shrinks :: "string list \<Rightarrow> store \<Rightarrow> store \<Rightarrow> bool" where
  "store_shrinks active so so' \<longleftrightarrow> so_path so' = so_path so \<and> so_limits so' = so_limits so
     \<and> (\<forall>key. sha256Pattern key \<longrightarrow> map_of (so_artifacts so') key = map_of (so_artifacts so) key
          \<or> (key \<notin> set active \<and> map_of (so_artifacts so') key = None))"

lemma store_shrinks_refl [simp]: "store_shrinks active so so"
  by (simp add: store_shrinks_def)

lemma store_shrinks_trans:
  "store_shrinks active so so' \<Longrightarrow> store_shrinks active so' so'' \<Longrightarrow> store_shrinks active so so''"
  unfolding store_shrinks_def by metis

lemma store_shrinks_remove:
  assumes "remove_artifact cfg ci key m = (ok, m')" "key \<notin> set active"
  shows "store_shrinks active (mg_store m) (mg_store m')"
proof -
  let ?so = "mg_store m"
  obtain err so' where r: "Remove (cd_parse_json (cf_codec cfg)) (cd_parse_time (cf_codec cfg))
      (ci_artifact ci key) (ci_stage ci) key ?so = (err, so')" by fastforce
  have m': "mg_store m' = so'" using assms(1) r by (auto simp: remove_artifact_def)
  have stage: "map_of (drop_key key ts @ [(deletion_stage key n, t)]) other
      = (if other = key then None else map_of ts other)"
    if "sha256Pattern key" "sha256Pattern other" for ts t n other
    using that sha256Pattern_not_staged deletion_stage_staged [OF that(1), of n]
    by (auto simp: map_of_drop_key map_add_def split: option.splits)
  from Remove_cases [OF r] show ?thesis
    using assms(2) stage by (auto simp: m' store_shrinks_def map_of_drop_key split: if_splits)
qed

lemma evict_shrinks:
  assumes "evict cfg ci ap active target as used acc m = (err, acc', m')"
  shows "store_shrinks active (mg_store m) (mg_store m') \<and> cleaned cfg T m m'"
proof -
  let ?P = "\<lambda>m'. store_shrinks active (mg_store m) (mg_store m') \<and> (\<exists>so. m' = m\<lparr>mg_store := so\<rparr>)"
  have "?P m \<and> (\<exists>so. m = m\<lparr>mg_store := so\<rparr>)" by (auto intro: exI [of _ "mg_store m"])
  moreover have "?P m2" if "?P m1" "key \<notin> set active" "remove_artifact cfg ci key m1 = (ok, m2)"
    for key ok m1 m2
  proof -
    have "\<exists>so. m2 = m1\<lparr>mg_store := so\<rparr>"
      using that(3) by (auto simp: remove_artifact_def Let_def split: prod.splits)
    then show ?thesis
      using that(1) store_shrinks_trans [OF _ store_shrinks_remove [OF that(3,2)]] by auto
  qed
  ultimately have "?P m'" using evict_preserves [OF assms, of ?P] by blast
  then show ?thesis using cleaned_store by auto
qed

lemma prune_job_store:
  assumes "prune_job cfg ci j m = (err, m')"
  shows "mg_store m' = mg_store m"
  using assms
  by (auto simp: prune_job_def expire_def writeTombstone_def removeKnownJob_def forget_def Let_def
      closeSubscribersLocked_def split: prod.splits option.splits if_splits persist_outcome.splits bool.splits)

lemma prune_job_gone:
  assumes "prune_job cfg ci j m = (None, m')"
  shows "find_job m' = (find_job m)(jb_id j := None)"
proof -
  obtain m1 m2 where m1: "expire cfg ci j m = (None, m1)"
    and m2: "removeKnownJob (ci_remove ci (jb_id j)) (jb_id j) m1 = (True, m2)"
    and m': "m' = forget (jb_id j) m2"
    using assms by (auto simp: prune_job_def split: prod.splits option.splits bool.splits)
  have "mg_jobs m1 = mg_jobs m"
    using m1 by (auto simp: expire_def writeTombstone_def Let_def split: if_splits prod.splits persist_outcome.splits)
  moreover have "mg_jobs m2 = mg_jobs m1"
    using m2 by (auto simp: removeKnownJob_def split: option.splits if_splits)
  ultimately show ?thesis
    by (simp add: m' find_job_def forget_def closeSubscribersLocked_def delete_conv' fun_eq_iff)
qed

lemma prune_jobs_store:
  "prune_jobs cfg ci ap js used acc m = (err, used', acc', m') \<Longrightarrow> mg_store m' = mg_store m"
proof (induction js arbitrary: used acc m)
  case (Cons j js)
  obtain e m1 where p: "prune_job cfg ci j m = (e, m1)" by fastforce
  from Cons p prune_job_store [OF p] show ?case
    by (auto simp: Let_def split: option.splits if_splits)
qed simp

lemma prune_jobs_preview:
  "prune_jobs cfg ci False js used acc m = (err, used', acc', m') \<Longrightarrow> m' = m"
  by (induction js arbitrary: used acc) (auto simp: Let_def split: option.splits)

lemma prune_jobs_ids:
  "prune_jobs cfg ci ap js used acc m = (None, used', acc', m') \<Longrightarrow>
    cl_jobs acc' = cl_jobs acc @ map jb_id js"
proof (induction js arbitrary: used acc m)
  case (Cons j js)
  obtain e m1 where p: "prune_job cfg ci j m = (e, m1)" by fastforce
  from Cons.prems p obtain used1 acc1 m2 where "prune_jobs cfg ci ap js used1 acc1 m2 = (None, used', acc', m')"
    and acc1: "cl_jobs acc1 = cl_jobs acc @ [jb_id j]"
    by (cases ap; cases e) (auto simp: Let_def split: option.splits)
  from Cons.IH [OF this(1)] acc1 show ?case by simp
qed simp

lemma prune_jobs_gone:
  "prune_jobs cfg ci True js used acc m = (None, used', acc', m') \<Longrightarrow>
    find_job m' = (\<lambda>k. if k \<in> jb_id ` set js then None else find_job m k)"
proof (induction js arbitrary: used acc m)
  case (Cons j js)
  obtain e m1 where p: "prune_job cfg ci j m = (e, m1)" by fastforce
  with Cons.prems have e: "e = None" by (auto simp: Let_def split: option.splits)
  from Cons.prems p e obtain used1 acc1 where "prune_jobs cfg ci True js used1 acc1 m1 = (None, used', acc', m')"
    by (auto simp: Let_def split: option.splits)
  from Cons.IH [OF this] show ?case
    using prune_job_gone [OF p [unfolded e]] by (auto simp: fun_eq_iff)
qed simp

abbreviation pruned :: "manager \<Rightarrow> job set" where
  "pruned m \<equiv> set (drop completedJobLimit (completed_jobs m))"

lemma finish_cleanup_eq:
  assumes "finish_cleanup cfg ci r = (err, acc, m')"
  shows "m' = snd (snd r) \<and> cl_jobs acc = cl_jobs (fst (snd r)) \<and> (err = None \<longrightarrow> fst r = None)"
  using assms by (cases r) (auto simp: finish_cleanup_def split: option.splits)

lemma evict_artifacts_cases:
  assumes "evict_artifacts cfg ci ap need active order reserved used acc m = (err, acc', m')"
  shows "m' = m \<and> acc' = acc \<or> (\<exists>target used1 acc1 err1.
      evict cfg ci ap active target order used1 acc m = (err1, acc1, m') \<and> cl_jobs acc' = cl_jobs acc1)"
proof -
  have fin: "\<exists>acc1 err1. r = (err1, acc1, m') \<and> cl_jobs acc' = cl_jobs acc1"
    if "finish_cleanup cfg ci r = (err, acc', m')" for r
    using finish_cleanup_eq [OF that] by (cases r) auto
  obtain s ok where s: "status cfg m = (s, ok)" by fastforce
  show ?thesis
  proof (cases "ap \<and> \<not> ok")
    case True
    with assms s show ?thesis by (auto simp: evict_artifacts_def)
  next
    case False
    then obtain target used1 where "finish_cleanup cfg ci (evict cfg ci ap active target order used1 acc m) = (err, acc', m')"
      using assms s by (cases ap) (auto simp: evict_artifacts_def Let_def)
    from fin [OF this] show ?thesis by blast
  qed
qed

lemma cleanupLocked_cases:
  assumes "cleanupLocked cfg ci ap need m = (err, acc, m')"
  obtains (status) "m' = m" "err \<noteq> None"
  | (run) e used0 used acc0 m1 where
      "prune_jobs cfg ci ap (drop completedJobLimit (completed_jobs m)) used0 no_cleanup m = (e, used, acc0, m1)"
      "err = None \<longrightarrow> e = None"
      "store_shrinks (active_artifacts m) (mg_store m1) (mg_store m')" "\<And>T. cleaned cfg T m1 m'"
      "\<not> ap \<longrightarrow> m' = m1" "cl_jobs acc = cl_jobs acc0" "find_job m' = find_job m1"
      "map fst (mg_disk m') = map fst (mg_disk m1)"
proof -
  obtain s ok where s: "status cfg m = (s, ok)" by fastforce
  obtain e used acc0 m1 where p: "prune_jobs cfg ci ap (drop completedJobLimit (completed_jobs m)) (ss_used s) no_cleanup m
      = (e, used, acc0, m1)" by (metis prod.exhaust)
  show ?thesis
  proof (cases ok)
    case False
    with assms s that(1) show ?thesis by (auto simp: cleanupLocked_def)
  next
    case True
    show ?thesis
    proof (cases e)
      case (Some x)
      then have "m' = m1" "err = Some x" "acc = acc0" using assms s p True by (auto simp: cleanupLocked_def)
      then show ?thesis using that(2) [OF p] by simp
    next
      case None
      then have ev: "evict_artifacts cfg ci ap need (active_artifacts m) (eviction_order cfg m) (ss_reserved s) used acc0 m1
          = (err, acc, m')" using assms s p True by (simp add: cleanupLocked_def)
      from evict_artifacts_cases [OF ev] show ?thesis
      proof (elim disjE exE conjE)
        assume "m' = m1" "acc = acc0"
        then show ?thesis using that(2) [OF p] None by simp
      next
        fix target used1 acc1 err1
        assume v: "evict cfg ci ap (active_artifacts m) target (eviction_order cfg m) used1 acc0 m1 = (err1, acc1, m')"
          and acc: "cl_jobs acc = cl_jobs acc1"
        note pres = evict_preserves [OF v, where P = "\<lambda>m. find_job m = find_job m1 \<and> mg_disk m = mg_disk m1"]
        have "(find_job m' = find_job m1 \<and> mg_disk m' = mg_disk m1) \<and> (\<not> ap \<longrightarrow> m' = m1) \<and> cl_jobs acc1 = cl_jobs acc0"
          by (rule pres) (auto simp: remove_artifact_def Let_def find_job_def fun_eq_iff split: prod.splits)
        then show ?thesis
          using that(2) [OF p] None acc evict_shrinks [OF v] by auto
      qed
    qed
  qed
qed

lemma cleanupLocked_cleaned:
  assumes "cleanupLocked cfg ci ap need m = (err, acc, m')"
  shows "cleaned cfg (pruned m) m m' \<and> store_shrinks (active_artifacts m) (mg_store m) (mg_store m')"
  using assms
proof (cases rule: cleanupLocked_cases)
  case (run e used0 used acc0 m1)
  have "cleaned cfg (pruned m) m m1" by (rule cleaned_prune_jobs [OF run(1)]) simp
  from cleaned_trans [OF this run(4)] run(3) prune_jobs_store [OF run(1)] show ?thesis by simp
qed simp_all

lemma cleanupLocked_dirs:
  assumes "cleanupLocked cfg ci ap need m = (err, acc, m')" "dirs_ok m"
  shows "dirs_ok m'"
  using assms(1)
proof (cases rule: cleanupLocked_cases)
  case (run e used0 used acc0 m1)
  have "dirs_ok m1" by (rule dirs_ok_prune_jobs [OF run(1) assms(2)])
  moreover have "map fst (mg_disk m') = map fst (mg_disk m1)" using run(8) .
  ultimately show ?thesis using dirs_ok_same [OF run(7)] by simp
qed (use assms in simp)

lemma in_jobs: "distinct (map fst (mg_jobs m)) \<Longrightarrow> find_job m k = Some j \<longleftrightarrow> (k, j) \<in> set (mg_jobs m)"
  by (simp add: find_job_def)

lemma set_completed:
  "set (completed_jobs m) = {j \<in> set (all_jobs m). Terminal (jb_state j)}"
  by (simp add: completed_jobs_def)

lemma distinct_ids:
  assumes "well_keyed m"
  shows "distinct (map jb_id (completed_jobs m))"
proof -
  have "map jb_id (all_jobs m) = map fst (mg_jobs m)"
    using assms in_jobs [of m] by (auto simp: all_jobs_def well_keyed_def)
  then have "distinct (map jb_id (all_jobs m))" using assms by (simp add: well_keyed_def)
  then have "distinct (map jb_id (filter (\<lambda>j. Terminal (jb_state j)) (all_jobs m)))"
    by (rule distinct_map_filter)
  moreover have "mset (map jb_id (completed_jobs m))
      = mset (map jb_id (filter (\<lambda>j. Terminal (jb_state j)) (all_jobs m)))"
    by (simp only: completed_jobs_def mset_map mset_rev mset_sort)
  ultimately show ?thesis using mset_eq_imp_distinct_iff by blast
qed

lemma kept_not_pruned:
  assumes "well_keyed m" "find_job m k = Some j"
    "\<not> Terminal (jb_state j) \<or> j \<in> set (take completedJobLimit (completed_jobs m))"
  shows "k \<notin> jb_id ` pruned m"
proof
  assume "k \<in> jb_id ` pruned m"
  then obtain j' where j': "j' \<in> pruned m" "jb_id j' = k" by auto
  then have c: "j' \<in> set (completed_jobs m)" by (meson in_set_dropD)
  then have "Terminal (jb_state j')" and "j' \<in> set (all_jobs m)" by (simp_all add: set_completed)
  then have "find_job m k = Some j'"
    using assms(1) j'(2) in_jobs [of m] by (auto simp: all_jobs_def well_keyed_def)
  with assms(2) have eq: "j' = j" by simp
  with \<open>Terminal (jb_state j')\<close> assms(3) have "j \<in> set (take completedJobLimit (completed_jobs m))" by simp
  moreover have "distinct (completed_jobs m)" using distinct_ids [OF assms(1)] distinct_map by blast
  ultimately show False
    using j'(1) eq set_take_disj_set_drop_if_distinct [of "completed_jobs m" completedJobLimit completedJobLimit] by auto
qed


text \<open>C3: the tombstone is a prune journal: whatever fails, a job whose record left the memory or
  the disk had no request id, or a tombstone for that id is durable on disk and known in memory;
  new tombstones name the pruned job and the fingerprint of its request.\<close>

theorem tombstone_before_removal:
  assumes "cleanupLocked cfg ci ap need m = (err, acc, m')" and "well_keyed m"
  shows "(\<forall>k j. find_job m k = Some j \<and> (find_job m' k = None \<or> disk_view m' k \<noteq> disk_view m k) \<longrightarrow>
        rq_id (jb_request j) = [] \<or> (mg_expired m' (rq_id (jb_request j)) \<noteq> None
          \<and> map_of (mg_tombstones m') (rq_id (jb_request j)) \<noteq> None))
    \<and> (\<forall>r. map_of (mg_tombstones m') r = map_of (mg_tombstones m) r
        \<or> (\<exists>k j. find_job m k = Some j \<and> Terminal (jb_state j) \<and> rq_id (jb_request j) = r
           \<and> map_of (mg_tombstones m') r = Some \<lparr>ts_job = k, ts_fingerprint = fingerprint cfg (jb_request j)\<rparr>))"
proof -
  have jobs: "cleaned_jobs (pruned m) m m'" and ids: "cleaned_ids cfg (pruned m) m m'"
    using cleanupLocked_cleaned [OF assms(1)] by (simp_all add: cleaned_def)
  have found: "find_job m (jb_id j) = Some j \<and> Terminal (jb_state j)" if "j \<in> pruned m" for j
  proof -
    from that have "j \<in> set (completed_jobs m)" by (meson in_set_dropD)
    then show ?thesis
      using assms(2) in_jobs [of m] by (auto simp: set_completed all_jobs_def well_keyed_def)
  qed
  have "buried m' j" if j: "find_job m k = Some j" and gone: "find_job m' k = None \<or> disk_view m' k \<noteq> disk_view m k" for k j
  proof -
    from gone j jobs obtain j' where "j' \<in> pruned m" "jb_id j' = k" "buried m' j'"
      unfolding cleaned_jobs_def by (metis option.distinct(1))
    with found [of j'] j show ?thesis by simp
  qed
  moreover have "map_of (mg_tombstones m') r = map_of (mg_tombstones m) r
      \<or> (\<exists>k j. find_job m k = Some j \<and> Terminal (jb_state j) \<and> rq_id (jb_request j) = r
        \<and> map_of (mg_tombstones m') r = Some \<lparr>ts_job = k, ts_fingerprint = fingerprint cfg (jb_request j)\<rparr>)" for r
    using ids found unfolding cleaned_ids_def tombstone_of_def by metis
  ultimately show ?thesis by (auto simp: buried_def)
qed

text \<open>C27: a cleanup that reports success has done exactly what its preview announces: the same
  jobs, which are all completed ones after the 30 newest, are gone and all others are kept; the
  preview itself changes nothing.\<close>

theorem cleanup_matches_preview:
  assumes "cleanupLocked cfg ci True need m = (None, acc, m')"
    and "cleanupLocked cfg ci False need m = (None, preview, m'')" and "well_keyed m"
  shows "m'' = m \<and> cl_jobs acc = cl_jobs preview
    \<and> cl_jobs acc = map jb_id (drop completedJobLimit (completed_jobs m))
    \<and> (\<forall>k. find_job m' k = (if k \<in> set (cl_jobs acc) then None else find_job m k))"
proof -
  from assms(1) obtain used0 used acc0 m1 where r:
    "prune_jobs cfg ci True (drop completedJobLimit (completed_jobs m)) used0 no_cleanup m = (None, used, acc0, m1)"
    "cl_jobs acc = cl_jobs acc0" "find_job m' = find_job m1"
    by (cases rule: cleanupLocked_cases) auto
  from assms(2) obtain used0' used' acc0' m1' where p:
    "prune_jobs cfg ci False (drop completedJobLimit (completed_jobs m)) used0' no_cleanup m = (None, used', acc0', m1')"
    "cl_jobs preview = cl_jobs acc0'" "m'' = m1'"
    by (cases rule: cleanupLocked_cases) auto
  from prune_jobs_gone [OF r(1)] prune_jobs_ids [OF r(1)] prune_jobs_ids [OF p(1)] prune_jobs_preview [OF p(1)] r p
  show ?thesis by (simp add: no_cleanup_def)
qed

definition sample_cleanup_io :: cleanup_io where
  "sample_cleanup_io = \<lparr>ci_stat = (\<lambda>_. True), ci_tombstone = (\<lambda>_. Persisted), ci_remove = (\<lambda>_. None),
     ci_artifact = (\<lambda>_. None), ci_stage = 0\<rparr>"

definition sample_history :: "job list" where
  "sample_history = sample_job ''q'' (sample_request ''rq'' ''a'') Queued 100
     # map (\<lambda>i. sample_job (show_nat i) (sample_request (''r'' @ show_nat i) ''a'') Succeeded (int i)) [10..<41]"

lemma sample_history_cleanup:
  "fst (cleanupLocked sample_config sample_cleanup_io True 0 (sample_manager sample_history)) = None"
  by code_simp

lemma well_keyed_sample:
  assumes "distinct (map jb_id js)"
  shows "well_keyed (sample_manager js)"
proof -
  have "map fst (map (\<lambda>j. (jb_id j, j)) js) = map jb_id js" by simp
  then show ?thesis
    using assms by (auto simp: well_keyed_def sample_manager_def find_job_def comp_def dest: map_of_SomeD)
qed

lemma sample_history_keyed: "well_keyed (sample_manager sample_history)"
  by (rule well_keyed_sample) code_simp

lemma sample_history_pruned: "map jb_id (drop completedJobLimit (completed_jobs (sample_manager sample_history))) = [''10'']"
  by code_simp

abbreviation cleaned_sample :: "bool \<Rightarrow> cleanup_error option \<times> cleanup \<times> manager" where
  "cleaned_sample ap \<equiv> cleanupLocked sample_config sample_cleanup_io ap 0 (sample_manager sample_history)"


lemma tombstone_before_removal_witness:
  "map_of (mg_tombstones (snd (snd (cleaned_sample True)))) ''other'' = None
   \<and> ((\<exists>j. find_job (snd (snd (cleaned_sample True))) ''10'' = Some j)
      \<or> (\<exists>t. map_of (mg_tombstones (snd (snd (cleaned_sample True)))) ''r10'' = Some t))"
proof -
  let ?m = "sample_manager sample_history" and ?m' = "snd (snd (cleaned_sample True))"
  have e: "cleaned_sample True = (fst (cleaned_sample True), fst (snd (cleaned_sample True)), ?m')" by simp
  note t = tombstone_before_removal [OF e sample_history_keyed]
  have other: "rq_id (jb_request j) \<noteq> ''other''" if "find_job ?m k = Some j" for k j
  proof -
    have "j \<in> set sample_history"
      using that by (auto simp: find_job_def sample_manager_def dest: map_of_SomeD)
    then show ?thesis by (auto simp: sample_history_def sample_job_def sample_request_def)
  qed
  have none: "mg_tombstones ?m = []" by (simp add: sample_manager_def)
  have "map_option (\<lambda>j. rq_id (jb_request j)) (find_job ?m ''10'') = Some ''r10''" by code_simp
  then have ten: "\<exists>j. find_job ?m ''10'' = Some j \<and> rq_id (jb_request j) = ''r10''" by auto
  have "map_of (mg_tombstones ?m') ''other'' = None"
    using conjunct2 [OF t] other by (metis none map_of.simps(1))
  moreover have "(\<exists>j. find_job ?m' ''10'' = Some j) \<or> (\<exists>t. map_of (mg_tombstones ?m') ''r10'' = Some t)"
  proof (cases "find_job ?m' ''10''")
    case None
    with conjunct1 [OF t] ten show ?thesis by (metis list.discI not_None_eq)
  qed blast
  ultimately show ?thesis by blast
qed

lemma cleanup_matches_preview_witness:
  "cl_jobs (fst (snd (cleaned_sample True))) = [''10''] \<and> snd (snd (cleaned_sample False)) = sample_manager sample_history
    \<and> find_job (snd (snd (cleaned_sample True))) ''10'' = None"
proof -
  have "fst (cleaned_sample False) = None" by code_simp
  then have p: "cleaned_sample False = (None, fst (snd (cleaned_sample False)), snd (snd (cleaned_sample False)))"
    by (metis prod.collapse)
  have a: "cleaned_sample True = (None, fst (snd (cleaned_sample True)), snd (snd (cleaned_sample True)))"
    using sample_history_cleanup by (metis prod.collapse)
  from cleanup_matches_preview [OF a p sample_history_keyed] show ?thesis
    unfolding sample_history_pruned by (elim conjE) (metis list.set_intros(1))
qed

end
