(* ===== verification/SerialModel.thy ===== *)
theory SerialModel
  imports Manifest
begin

text \<open>
  The serial ports (\<open>internal/serialconsole/model.go\<close>): what discovery reports about a port, the
  identity derived from it, and \<open>normalizeCandidates\<close>, which decides which ports may be matched
  to a cable by their USB serial and which only by hand.  Then the part of the manager that looks
  at a discovery (\<open>List\<close>, \<open>MatchCableSerial\<close> in \<open>internal/serialconsole/manager.go\<close>).
  Parameter: \<open>sha\<close>, the hexadecimal SHA-256 of the identity text.
\<close>

definition FTDIVendorID :: string where "FTDIVendorID = ''0403''"
definition FT2232HProductID :: string where "FT2232HProductID = ''6010''"
definition FT2232HUARTChannel :: string where "FT2232HUARTChannel = ''B''"
definition DefaultBaudRate :: int where "DefaultBaudRate = 115200"
definition DefaultReplayBytes :: int where "DefaultReplayBytes = 256 * 2 ^ 10"

record candidate =
  cand_name :: string
  cand_vendor :: string
  cand_product :: string
  cand_usb :: string
  cand_channel :: string

record port =
  pt_key :: string
  pt_name :: string
  pt_vendor :: string
  pt_product :: string
  pt_usb :: string
  pt_channel :: string
  pt_busy :: bool
  pt_controller :: bool
  pt_baud :: int

datatype warning = SerialMissing string | SerialDuplicate string \<comment> \<open>port name; USB serial\<close>

record discovery =
  dc_ports :: "port list"
  dc_warnings :: "warning list"

definition nul :: char where "nul = char_of (0 :: nat)"

definition portFromIdentity :: "(string \<Rightarrow> string) \<Rightarrow> candidate \<Rightarrow> string \<Rightarrow> port" where
  "portFromIdentity sha v identity = \<lparr>pt_key = sha identity, pt_name = cand_name v,
     pt_vendor = cand_vendor v, pt_product = cand_product v, pt_usb = cand_usb v,
     pt_channel = cand_channel v, pt_busy = False, pt_controller = False, pt_baud = 0\<rparr>"

definition newPort :: "(string \<Rightarrow> string) \<Rightarrow> candidate \<Rightarrow> port" where
  "newPort sha v = portFromIdentity sha v (join_with nul [''mnc-serial-console-v1'', cand_vendor v,
     cand_product v, cand_usb v, cand_channel v])"

definition newManualPort :: "(string \<Rightarrow> string) \<Rightarrow> candidate \<Rightarrow> port" where
  "newManualPort sha v = portFromIdentity sha v
     (join_with nul [''mnc-serial-console-manual-v1'', cand_name v])"

text \<open>\<open>strings.EqualFold\<close> against a constant without the letters k and s, the only ASCII letters
  that fold to characters outside ASCII.\<close>

definition equal_fold :: "string \<Rightarrow> string \<Rightarrow> bool" where
  "equal_fold s t \<longleftrightarrow> map ascii_upper s = map ascii_upper t"

definition automaticCandidate :: "candidate \<Rightarrow> bool" where
  "automaticCandidate v \<longleftrightarrow> equal_fold (cand_vendor v) FTDIVendorID
     \<and> equal_fold (cand_product v) FT2232HProductID \<and> equal_fold (cand_channel v) FT2232HUARTChannel"

definition automaticallyMatchable :: "port \<Rightarrow> bool" where
  "automaticallyMatchable p \<longleftrightarrow> automaticCandidate \<lparr>cand_name = [], cand_vendor = pt_vendor p,
     cand_product = pt_product p, cand_usb = pt_usb p, cand_channel = pt_channel p\<rparr> \<and> pt_usb p \<noteq> []"

definition same_serial :: "string \<Rightarrow> candidate list \<Rightarrow> candidate list" where
  "same_serial usb vs = filter (\<lambda>v. automaticCandidate v \<and> cand_usb v \<noteq> [] \<and> cand_usb v = usb) vs"

fun normalize :: "(string \<Rightarrow> string) \<Rightarrow> (string \<Rightarrow> nat) \<Rightarrow> string list \<Rightarrow> candidate list \<Rightarrow> discovery" where
  "normalize sha counts seen [] = \<lparr>dc_ports = [], dc_warnings = []\<rparr>"
| "normalize sha counts seen (v # vs) =
     (if cand_name v = [] \<or> cand_name v \<in> set seen then normalize sha counts seen vs
      else (let d = normalize sha counts (cand_name v # seen) vs; matchable = automaticCandidate v in
        if matchable \<and> cand_usb v = []
        then \<lparr>dc_ports = newManualPort sha v # dc_ports d,
              dc_warnings = SerialMissing (cand_name v) # dc_warnings d\<rparr>
        else if matchable \<and> counts (cand_usb v) \<noteq> 1
        then \<lparr>dc_ports = newManualPort sha v # dc_ports d,
              dc_warnings = SerialDuplicate (cand_usb v) # dc_warnings d\<rparr>
        else if matchable then d\<lparr>dc_ports := newPort sha v # dc_ports d\<rparr>
        else d\<lparr>dc_ports := newManualPort sha v # dc_ports d\<rparr>))"

definition normalizeCandidates :: "(string \<Rightarrow> string) \<Rightarrow> candidate list \<Rightarrow> discovery" where
  "normalizeCandidates sha vs = normalize sha (\<lambda>usb. length (same_serial usb vs)) [] vs"

definition ValidateBaudRate :: "int \<Rightarrow> bool" where
  "ValidateBaudRate n \<longleftrightarrow> \<not> (n < 300 \<or> n > 4000000)"

definition windowsFTDIIdentity :: "string \<Rightarrow> (string \<times> string) option" where
  "windowsFTDIIdentity s = (if length s < 2 then None
     else (let channel = [ascii_upper (last s)] in
       if channel \<noteq> ''A'' \<and> channel \<noteq> ''B'' then None else Some (butlast s, channel)))"

subsection \<open>Listing and matching\<close>

datatype match = Matched port | Ambiguous | NotFoundPort

text \<open>The connections that are open, by port id: whether it has a controller, its baud rate.\<close>

definition mark_busy :: "(string \<Rightarrow> (bool \<times> int) option) \<Rightarrow> port \<Rightarrow> port" where
  "mark_busy conns p = (case conns (pt_key p) of
       None \<Rightarrow> p
     | Some (controller, baud) \<Rightarrow> p\<lparr>pt_busy := True, pt_controller := controller, pt_baud := baud\<rparr>)"

definition List_ports :: "(string \<Rightarrow> (bool \<times> int) option) \<Rightarrow> discovery \<Rightarrow> discovery" where
  "List_ports conns d = d\<lparr>dc_ports := map (mark_busy conns) (dc_ports d)\<rparr>"

definition MatchCableSerial :: "(string \<Rightarrow> (bool \<times> int) option) \<Rightarrow> discovery \<Rightarrow> string \<Rightarrow> match" where
  "MatchCableSerial conns d serial = (let r = List_ports conns d in
     if SerialDuplicate serial \<in> set (dc_warnings r) then Ambiguous
     else (case find (\<lambda>p. automaticallyMatchable p \<and> pt_usb p = serial) (dc_ports r) of
         Some p \<Rightarrow> Matched p
       | None \<Rightarrow> NotFoundPort))"

lemma mark_busy_sel [simp]:
  "pt_vendor (mark_busy conns p) = pt_vendor p" "pt_product (mark_busy conns p) = pt_product p"
  "pt_usb (mark_busy conns p) = pt_usb p" "pt_channel (mark_busy conns p) = pt_channel p"
  "pt_key (mark_busy conns p) = pt_key p" "pt_name (mark_busy conns p) = pt_name p"
  by (simp_all add: mark_busy_def split: option.splits)

lemma matchable_mark_busy [simp]: "automaticallyMatchable (mark_busy conns p) = automaticallyMatchable p"
  by (simp add: automaticallyMatchable_def)

lemma matchable_new [simp]:
  "automaticallyMatchable (newPort sha v) \<longleftrightarrow> automaticCandidate v \<and> cand_usb v \<noteq> []"
  "automaticallyMatchable (newManualPort sha v) \<longleftrightarrow> automaticCandidate v \<and> cand_usb v \<noteq> []"
  by (simp_all add: automaticallyMatchable_def newPort_def newManualPort_def portFromIdentity_def
      automaticCandidate_def)

lemma usb_new [simp]: "pt_usb (newPort sha v) = cand_usb v" "pt_usb (newManualPort sha v) = cand_usb v"
  by (simp_all add: newPort_def newManualPort_def portFromIdentity_def)

text \<open>A port of the result that may be matched comes from a candidate, as an automatic port when
  its serial is unique; otherwise its serial is reported as duplicate.\<close>

lemma normalize_skip:
  "cand_name v = [] \<or> cand_name v \<in> set seen \<Longrightarrow> normalize sha counts seen (v # vs) = normalize sha counts seen vs"
  by simp

lemma normalize_take:
  assumes "\<not> (cand_name v = [] \<or> cand_name v \<in> set seen)"
  shows "set (dc_warnings (normalize sha counts (cand_name v # seen) vs)) \<subseteq> set (dc_warnings (normalize sha counts seen (v # vs)))
    \<and> (\<exists>p. dc_ports (normalize sha counts seen (v # vs)) = p # dc_ports (normalize sha counts (cand_name v # seen) vs)
       \<and> (automaticallyMatchable p \<longrightarrow> automaticCandidate v \<and> cand_usb v \<noteq> [] \<and> pt_usb p = cand_usb v
         \<and> (if counts (cand_usb v) = 1 then p = newPort sha v
            else SerialDuplicate (cand_usb v) \<in> set (dc_warnings (normalize sha counts seen (v # vs)))))
       \<and> (automaticCandidate v \<and> cand_usb v \<noteq> [] \<and> counts (cand_usb v) = 1 \<longrightarrow> p = newPort sha v))"
  using assms by (auto simp: Let_def)

lemma normalize_ports:
  "p \<in> set (dc_ports (normalize sha counts seen vs)) \<Longrightarrow> automaticallyMatchable p \<Longrightarrow>
     \<exists>v \<in> set vs. automaticCandidate v \<and> cand_usb v \<noteq> [] \<and> pt_usb p = cand_usb v
       \<and> (if counts (cand_usb v) = 1 then p = newPort sha v
          else SerialDuplicate (cand_usb v) \<in> set (dc_warnings (normalize sha counts seen vs)))"
proof (induction vs arbitrary: seen)
  case (Cons v vs)
  show ?case
  proof (cases "cand_name v = [] \<or> cand_name v \<in> set seen")
    case True
    with Cons.prems have "p \<in> set (dc_ports (normalize sha counts seen vs))" by simp
    from Cons.IH [OF this Cons.prems(2)] show ?thesis
      unfolding normalize_skip [OF True] by auto
  next
    case False
    let ?d = "normalize sha counts seen (v # vs)" and ?t = "normalize sha counts (cand_name v # seen) vs"
    obtain q where q: "set (dc_warnings ?t) \<subseteq> set (dc_warnings ?d)" "dc_ports ?d = q # dc_ports ?t"
      "automaticallyMatchable q \<longrightarrow> automaticCandidate v \<and> cand_usb v \<noteq> [] \<and> pt_usb q = cand_usb v
        \<and> (if counts (cand_usb v) = 1 then q = newPort sha v
           else SerialDuplicate (cand_usb v) \<in> set (dc_warnings ?d))"
      using normalize_take [OF False, of sha counts vs] by blast
    show ?thesis
    proof (cases "p \<in> set (dc_ports ?t)")
      case True
      from Cons.IH [OF this Cons.prems(2)] obtain v' where "v' \<in> set vs" "automaticCandidate v'"
        "cand_usb v' \<noteq> []" "pt_usb p = cand_usb v'" "if counts (cand_usb v') = 1 then p = newPort sha v'
          else SerialDuplicate (cand_usb v') \<in> set (dc_warnings ?t)" by blast
      with q(1) show ?thesis by (intro bexI [of _ v']) (auto split: if_splits)
    next
      case new: False
      with Cons.prems(1) q(2) have "p = q" by (simp only: list.set insert_iff) simp
      with q(3) Cons.prems(2) show ?thesis by (metis list.set_intros(1))
    qed
  qed
qed simp

lemma normalize_unique:
  "v \<in> set vs \<Longrightarrow> automaticCandidate v \<Longrightarrow> cand_usb v \<noteq> [] \<Longrightarrow> counts (cand_usb v) = 1 \<Longrightarrow>
     cand_name v \<noteq> [] \<Longrightarrow> cand_name v \<notin> set seen \<Longrightarrow> (\<forall>v' \<in> set vs. cand_name v' = cand_name v \<longrightarrow> v' = v) \<Longrightarrow>
     newPort sha v \<in> set (dc_ports (normalize sha counts seen vs))"
proof (induction vs arbitrary: seen)
  case (Cons u vs)
  show ?case
  proof (cases "u = v")
    case True
    with Cons.prems have "\<not> (cand_name u = [] \<or> cand_name u \<in> set seen)" by simp
    from normalize_take [OF this, of sha counts vs] True Cons.prems show ?thesis by auto
  next
    case False
    then have v: "v \<in> set vs" using Cons.prems(1) by simp
    show ?thesis
    proof (cases "cand_name u = [] \<or> cand_name u \<in> set seen")
      case True
      with Cons.IH [OF v Cons.prems(2-6)] Cons.prems(7) show ?thesis
        unfolding normalize_skip [OF True] by simp
    next
      case fresh: False
      have "cand_name v \<notin> set (cand_name u # seen)" using False Cons.prems(6,7) by auto
      from Cons.IH [OF v Cons.prems(2-5) this] Cons.prems(7) normalize_take [OF fresh, of sha counts vs]
      show ?thesis by auto
    qed
  qed
qed simp

lemma normalize_duplicate:
  "SerialDuplicate usb \<in> set (dc_warnings (normalize sha counts seen vs)) \<Longrightarrow>
     usb \<noteq> [] \<and> counts usb \<noteq> 1 \<and> (\<exists>v \<in> set vs. automaticCandidate v \<and> cand_usb v = usb)"
  by (induction vs arbitrary: seen) (auto simp: Let_def split: if_splits)

lemma same_serial_iff: "v \<in> set (same_serial usb vs) \<longleftrightarrow>
    v \<in> set vs \<and> automaticCandidate v \<and> cand_usb v \<noteq> [] \<and> cand_usb v = usb"
  by (auto simp: same_serial_def)

text \<open>A cable is matched to a console only when its serial identifies it: a match is the
  automatic port of the one automatic candidate with that serial, an ambiguous answer means that
  at least two are present, and a single candidate is missed only when its port name is empty or
  taken by another candidate.\<close>

theorem MatchCableSerial_unique:
  "(case MatchCableSerial conns (normalizeCandidates sha vs) serial of
      Matched p \<Rightarrow> \<exists>v. same_serial serial vs = [v] \<and> p = mark_busy conns (newPort sha v)
    | Ambiguous \<Rightarrow> length (same_serial serial vs) \<ge> 2
    | NotFoundPort \<Rightarrow> \<forall>v. same_serial serial vs = [v] \<longrightarrow>
        cand_name v = [] \<or> (\<exists>v' \<in> set vs. v' \<noteq> v \<and> cand_name v' = cand_name v))"
proof -
  let ?counts = "\<lambda>usb. length (same_serial usb vs)"
  let ?d = "normalizeCandidates sha vs"
  let ?hit = "\<lambda>p. automaticallyMatchable p \<and> pt_usb p = serial"
  have d: "?d = normalize sha ?counts [] vs" by (simp add: normalizeCandidates_def)
  show ?thesis
  proof (cases "SerialDuplicate serial \<in> set (dc_warnings ?d)")
    case True
    from normalize_duplicate [OF this [unfolded d]] obtain v where
      "v \<in> set (same_serial serial vs)" "?counts serial \<noteq> 1" by (auto simp: same_serial_iff)
    then have "?counts serial \<ge> 2" by (cases "same_serial serial vs" rule: remdups_adj.cases) auto
    with True show ?thesis by (simp add: MatchCableSerial_def List_ports_def)
  next
    case False
    show ?thesis
    proof (cases "find ?hit (dc_ports (List_ports conns ?d))")
      case None
      have "cand_name v = [] \<or> (\<exists>v' \<in> set vs. v' \<noteq> v \<and> cand_name v' = cand_name v)"
        if v: "same_serial serial vs = [v]" for v
      proof (rule ccontr)
        assume contra: "\<not> ?thesis"
        have m: "v \<in> set vs" "automaticCandidate v" "cand_usb v \<noteq> []" "cand_usb v = serial"
          using same_serial_iff [of v serial vs] v by auto
        have "newPort sha v \<in> set (dc_ports ?d)"
          unfolding d by (rule normalize_unique) (use m v contra in auto)
        then have "mark_busy conns (newPort sha v) \<in> set (dc_ports (List_ports conns ?d))"
          by (simp add: List_ports_def)
        moreover have "?hit (mark_busy conns (newPort sha v))" using m by simp
        ultimately show False using None unfolding find_None_iff by blast
      qed
      with False None show ?thesis by (simp add: MatchCableSerial_def List_ports_def)
    next
      case (Some p)
      then have p: "p \<in> set (dc_ports (List_ports conns ?d))" and hit: "?hit p"
        unfolding find_Some_iff by auto
      from p obtain q where q: "q \<in> set (dc_ports ?d)" "p = mark_busy conns q"
        by (auto simp: List_ports_def)
      from normalize_ports [OF q(1) [unfolded d]] hit q(2) obtain v where
        v: "v \<in> set (same_serial serial vs)" and c: "if ?counts serial = 1 then q = newPort sha v
          else SerialDuplicate serial \<in> set (dc_warnings ?d)"
        by (auto simp: same_serial_iff d)
      from c False have "?counts serial = 1" "q = newPort sha v" by (simp_all split: if_splits)
      with v have "same_serial serial vs = [v]"
        by (cases "same_serial serial vs" rule: remdups_adj.cases) auto
      with False Some q(2) \<open>q = newPort sha v\<close> show ?thesis by (simp add: MatchCableSerial_def List_ports_def)
    qed
  qed
qed

definition sample_candidate :: "string \<Rightarrow> string \<Rightarrow> candidate" where
  "sample_candidate name usb = \<lparr>cand_name = name, cand_vendor = ''0403'', cand_product = ''6010'',
     cand_usb = usb, cand_channel = ''b''\<rparr>"

lemma MatchCableSerial_unique_witness:
  "\<exists>v. same_serial ''S1'' [sample_candidate ''u1'' ''S1'', sample_candidate ''u2'' ''S2''] = [v]
     \<and> newPort (\<lambda>s. s) (sample_candidate ''u1'' ''S1'') = newPort (\<lambda>s. s) v"
proof -
  have "MatchCableSerial (\<lambda>_. None) (normalizeCandidates (\<lambda>s. s)
      [sample_candidate ''u1'' ''S1'', sample_candidate ''u2'' ''S2'']) ''S1''
      = Matched (newPort (\<lambda>s. s) (sample_candidate ''u1'' ''S1''))" by code_simp
  then show ?thesis
    using MatchCableSerial_unique [where conns = "\<lambda>_. None" and sha = "\<lambda>s. s" and serial = "''S1''"
        and vs = "[sample_candidate ''u1'' ''S1'', sample_candidate ''u2'' ''S2'']"]
    by (simp add: mark_busy_def)
qed

end
