(* ===== verification/Jobs.thy ===== *)
theory Jobs
  imports Retention SerialModel
begin

text \<open>
  The operations of the job manager a client calls (\<open>internal/jobs/manager.go\<close>): submission with
  its checks, admission, validation, insertion and enqueueing, and \<open>Submission\<close>, \<open>Get\<close>, \<open>List\<close>,
  \<open>Cancel\<close>, \<open>Events\<close> and \<open>Subscribe\<close>.  Submission is one definition per critical section, because
  other operations run between them; \<open>CreateSubmissionContext\<close> runs them in order.
\<close>

subsection \<open>Looking up\<close>

definition Get :: "config \<Rightarrow> manager \<Rightarrow> string \<Rightarrow> job option" where
  "Get cfg m key = map_option (inspectJob cfg m) (find_job m key)"

definition List_jobs :: "config \<Rightarrow> manager \<Rightarrow> job list" where
  "List_jobs cfg m = sort_key (\<lambda>j. - jb_created j) (map (inspectJob cfg m) (all_jobs m))"

definition requestIDPattern :: "string \<Rightarrow> bool" where
  "requestIDPattern s \<longleftrightarrow> length s = 32 \<and> list_all is_lower_hex s"

datatype lookup = InvalidRequestID | ExpiredSubmission string | NotSubmitted | NilJob | Accepted job

definition Submission :: "config \<Rightarrow> manager \<Rightarrow> string \<Rightarrow> lookup" where
  "Submission cfg m r = (if \<not> requestIDPattern r then InvalidRequestID
     else (case mg_expired m r of
         Some t \<Rightarrow> ExpiredSubmission (ts_job t)
       | None \<Rightarrow> (case mg_submissions m r of
           None \<Rightarrow> NotSubmitted
         | Some key \<Rightarrow> (case find_job m key of None \<Rightarrow> NilJob | Some j \<Rightarrow> Accepted (inspectJob cfg m j)))))"

subsection \<open>Events\<close>

fun page :: "int \<Rightarrow> nat \<Rightarrow> event list \<Rightarrow> event list \<Rightarrow> event list" where
  "page after limit acc [] = acc"
| "page after limit acc (e # es) =
     (if ev_sequence e > after
      then (if 0 < limit \<and> length (acc @ [e]) = limit then acc @ [e] else page after limit (acc @ [e]) es)
      else page after limit acc es)"

definition EventsLimit :: "manager \<Rightarrow> string \<Rightarrow> int \<Rightarrow> nat \<Rightarrow> event list option" where
  "EventsLimit m key after limit = (case find_job m key of
       None \<Rightarrow> None
     | Some _ \<Rightarrow> Some (page after limit [] (mg_events m key)))"

definition Subscribe :: "manager \<Rightarrow> string \<Rightarrow> int \<Rightarrow> (event list \<times> nat) option \<times> manager" where
  "Subscribe m key after = (case find_job m key of
       None \<Rightarrow> (None, m)
     | Some j \<Rightarrow>
         (let h = length (mg_channels m); done = Terminal (jb_state j) in
          (Some (filter (\<lambda>e. ev_sequence e > after) (mg_events m key), h),
           m\<lparr>mg_channels := mg_channels m @ [\<lparr>ch_buffer = [], ch_closed = done\<rparr>],
             mg_subscribers := (if done then mg_subscribers m
               else (mg_subscribers m)(key := mg_subscribers m key @ [h]))\<rparr>)))"

definition Unsubscribe :: "string \<Rightarrow> nat \<Rightarrow> manager \<Rightarrow> manager" where
  "Unsubscribe key h m = (if h \<in> set (mg_subscribers m key)
     then m\<lparr>mg_channels := close_channel h (mg_channels m),
            mg_subscribers := (mg_subscribers m)(key := removeAll h (mg_subscribers m key)),
            mg_panic := (mg_panic m \<or> \<not> open_channel (mg_channels m) h)\<rparr>
     else m)"

text \<open>A subscriber takes the next event from its channel.\<close>

definition receive :: "nat \<Rightarrow> manager \<Rightarrow> manager" where
  "receive h m = (if h < length (mg_channels m)
     then m\<lparr>mg_channels := (mg_channels m)[h := (mg_channels m ! h)\<lparr>ch_buffer := tl (ch_buffer (mg_channels m ! h))\<rparr>]\<rparr>
     else m)"

subsection \<open>Cancelling\<close>

datatype cancel_result = NoSuchJob | Current job

definition cancel_section :: "config \<Rightarrow> io \<Rightarrow> string \<Rightarrow> manager \<Rightarrow> cancel_result \<times> manager" where
  "cancel_section cfg w key m = (case find_job m key of
       None \<Rightarrow> (NoSuchJob, m)
     | Some j \<Rightarrow>
         (let m' = (if Terminal (jb_state j) then m
            else if key \<in> set (mg_cancellers m) then m\<lparr>mg_canceled := key # mg_canceled m\<rparr>
            else persist cfg w key (emitLocked cfg w key ''warning'' ''Job canceled before execution''
                   (upd_job key (\<lambda>j. j\<lparr>jb_state := Canceled, jb_finished := Some (io_now w)\<rparr>) m)))
          in case find_job m' key of None \<Rightarrow> (NoSuchJob, m') | Some j' \<Rightarrow> (Current (inspectJob cfg m' j'), m')))"

definition Cancel :: "config \<Rightarrow> io \<Rightarrow> cleanup_io \<Rightarrow> string \<Rightarrow> manager \<Rightarrow> cancel_result \<times> manager" where
  "Cancel cfg w ci key m = (let (result, m') = cancel_section cfg w key m
     in (result, retentionAfterCompletion cfg ci m'))"

subsection \<open>Submission\<close>

datatype create_error =
    RequestUnencodable
  | RequestTooLarge
  | TooManyTasks
  | QueueFull
  | BadPlan plan_error
  | NoArtifactID
  | NoConsole
  | NoPortID
  | BadSelection
  | BadBaudRate
  | ArtifactMissing load_error
  | ArtifactDamaged verify_error
  | RunnerRefused
  | NoRandomID
  | DirectoryExists
  | PersistError

datatype submit_error =
    BadRequestID
  | AdmissionStopped
  | RequestConflict string
  | Expired string
  | ShuttingDown
  | NoSpace "cleanup_error ensure_error"
  | Refused create_error

datatype verdict = Reject submit_error | Replay job | NilOriginal | Admit

definition submit_check :: "config \<Rightarrow> request \<Rightarrow> manager \<Rightarrow> verdict" where
  "submit_check cfg r m =
     (if rq_id r \<noteq> [] \<and> \<not> requestIDPattern (rq_id r) then Reject BadRequestID
      else if mg_admission_error m then Reject AdmissionStopped
      else (case (if rq_id r = [] then None else mg_expired m (rq_id r)) of
          Some t \<Rightarrow> if ts_fingerprint t \<noteq> fingerprint cfg r then Reject (RequestConflict (rq_id r))
                    else Reject (Expired (ts_job t))
        | None \<Rightarrow> (case (if rq_id r = [] then None else mg_submissions m (rq_id r)) of
            Some key \<Rightarrow> (case find_job m key of
                None \<Rightarrow> NilOriginal
              | Some j \<Rightarrow> (let original = inspectJob cfg m j in
                  if cf_marshal cfg (jb_request original) \<noteq> cf_marshal cfg r
                  then Reject (RequestConflict (rq_id r)) else Replay original))
          | None \<Rightarrow> if mg_closed m then Reject ShuttingDown else Admit)))"

definition submit_admit :: "config \<Rightarrow> cleanup_io \<Rightarrow> request \<Rightarrow> manager \<Rightarrow>
    cleanup_error ensure_error option \<times> manager" where
  "submit_admit cfg ci r m = (if mg_budget m = None then (None, m)
     else EnsureLocked the_gate (disk_entries cfg) (Some (reclaim cfg ci)) (outputReservation cfg)
            (m\<lparr>mg_pins := rq_artifact r # mg_pins m\<rparr>))"

definition check_serial :: "config \<Rightarrow> serial_request option \<Rightarrow> create_error option" where
  "check_serial cfg s = (case s of
       None \<Rightarrow> None
     | Some sr \<Rightarrow> first_error
        [(\<not> cf_console cfg, NoConsole),
         (sr_port sr = [], NoPortID),
         (sr_selection sr \<notin> {[], ''matched'', ''manual''}, BadSelection),
         (sr_baud sr \<noteq> 0 \<and> \<not> ValidateBaudRate (sr_baud sr), BadBaudRate)])"

definition create_validate :: "config \<Rightarrow> string list \<Rightarrow> request \<Rightarrow> manager \<Rightarrow> create_error option" where
  "create_validate cfg faults r m = (case cf_request_json cfg r of
       None \<Rightarrow> Some RequestUnencodable
     | Some n \<Rightarrow>
         if n > 256 * 2 ^ 10 then Some RequestTooLarge
         else if length (all_invocations (rq_tasks r)) > 128 then Some TooManyTasks
         else if length (mg_queue m) \<ge> 128 then Some QueueFull
         else (case Validate_plan (cf_registry cfg) (rq_tasks r) of
             Some e \<Rightarrow> Some (BadPlan e)
           | None \<Rightarrow>
               if rq_artifact r = [] then Some NoArtifactID
               else (case check_serial cfg (rq_serial r) of
                   Some e \<Rightarrow> Some e
                 | None \<Rightarrow> (case load (cf_codec cfg) (mg_store m) (rq_artifact r) of
                     Inl e \<Rightarrow> Some (ArtifactMissing e)
                   | Inr a \<Rightarrow> (case Verify (cf_codec cfg) faults (mg_store m) a of
                       Some e \<Rightarrow> Some (ArtifactDamaged e)
                     | None \<Rightarrow> if \<not> cf_validate cfg a r then Some RunnerRefused else None)))))"

definition new_job :: "string \<Rightarrow> request \<Rightarrow> int \<Rightarrow> job" where
  "new_job key r now = \<lparr>jb_id = key, jb_request = r, jb_state = Queued, jb_created = now,
     jb_started = None, jb_finished = None, jb_error = [], jb_event_count = 0,
     jb_events_truncated = False, jb_task_results = [], jb_deployment_error = [],
     jb_deployment_outcome = [], jb_task_errors = [], jb_capture = None, jb_available = False\<rparr>"

definition insert_job :: "string \<Rightarrow> job \<Rightarrow> manager \<Rightarrow> manager" where
  "insert_job key j m = m\<lparr>mg_jobs := AList.update key j (mg_jobs m), mg_events := (mg_events m)(key := []),
     mg_disk := AList.update key empty_dir (mg_disk m)\<rparr>"

definition create_insert :: "config \<Rightarrow> io \<Rightarrow> string option \<Rightarrow> request \<Rightarrow> manager \<Rightarrow>
    (create_error + string \<times> job) \<times> manager" where
  "create_insert cfg w random r m = (case random of
       None \<Rightarrow> (Inl NoRandomID, m)
     | Some key \<Rightarrow>
         if map_of (mg_disk m) key \<noteq> None then (Inl DirectoryExists, m)
         else (let (ok, m') = persistLocked cfg w key (emitLocked cfg w key ''info'' ''Job queued''
                     (insert_job key (new_job key r (io_now w)) m)) in
           if \<not> ok then (Inl PersistError, m'\<lparr>mg_jobs := AList.delete key (mg_jobs m'),
                  mg_events := (mg_events m')(key := []), mg_admission_error := True\<rparr>)
           else (let m'' = (if rq_id r = [] then m'
                       else m'\<lparr>mg_submissions := (mg_submissions m')(rq_id r \<mapsto> key)\<rparr>)
             in (case find_job m'' key of
                  None \<Rightarrow> (Inl PersistError, m''\<lparr>mg_panic := True\<rparr>)
                | Some j \<Rightarrow> (Inr (key, inspectJob cfg m'' j), m'')))))"

text \<open>The send to the queue; it is skipped only when the manager's context is done.\<close>

definition create_enqueue :: "bool \<Rightarrow> string \<Rightarrow> manager \<Rightarrow> manager" where
  "create_enqueue skip key m = (if mg_closed m \<and> skip then m else m\<lparr>mg_queue := mg_queue m @ [key]\<rparr>)"

definition submit_reserve :: "config \<Rightarrow> string \<Rightarrow> manager \<Rightarrow> manager" where
  "submit_reserve cfg key m = m\<lparr>mg_budget := map_option
     (set_reservation key (outputReservation cfg) (output_files cfg key)) (mg_budget m)\<rparr>"

definition unpin :: "request \<Rightarrow> manager \<Rightarrow> manager" where
  "unpin r m = m\<lparr>mg_pins := removeAll (rq_artifact r) (mg_pins m)\<rparr>"

record submit_io =
  su_cleanup :: cleanup_io
  su_faults :: "string list"
  su_io :: io
  su_random :: "string option"
  su_skip :: bool

definition CreateSubmissionContext :: "config \<Rightarrow> submit_io \<Rightarrow> request \<Rightarrow> manager \<Rightarrow>
    (submit_error + job \<times> bool) \<times> manager" where
  "CreateSubmissionContext cfg su r m = (case submit_check cfg r m of
       Reject e \<Rightarrow> (Inl e, m)
     | NilOriginal \<Rightarrow> (Inl BadRequestID, m\<lparr>mg_panic := True\<rparr>)
     | Replay j \<Rightarrow> (Inr (j, True), m)
     | Admit \<Rightarrow> (case submit_admit cfg (su_cleanup su) r m of
         (Some e, m1) \<Rightarrow> (Inl (NoSpace e), unpin r m1)
       | (None, m1) \<Rightarrow> (case create_validate cfg (su_faults su) r m1 of
           Some e \<Rightarrow> (Inl (Refused e), unpin r m1)
         | None \<Rightarrow> (case create_insert cfg (su_io su) (su_random su) r m1 of
             (Inl e, m2) \<Rightarrow> (Inl (Refused e), unpin r m2)
           | (Inr (key, j), m2) \<Rightarrow>
               (Inr (j, False), unpin r (submit_reserve cfg key (create_enqueue (su_skip su) key m2)))))))"

text \<open>Cancelling a job that has not started ends it and leaves its subscribers registered; \<open>run\<close>
  returns at once for such a job, so nothing closes their channels afterwards.\<close>

lemma persist_subscribers: "mg_subscribers (persist cfg w key m) = mg_subscribers m"
  by (simp add: persist_def persistLocked_def Let_def split: option.split prod.split)

lemma emitLocked_subscribers: "mg_subscribers (emitLocked cfg w key level message m) = mg_subscribers m"
  by (simp add: emitLocked_def log_event_def deliver_def appendEventLocked_def Let_def split: option.split)

lemma cancel_keeps_subscribers:
  assumes "find_job m key = Some j" "\<not> Terminal (jb_state j)" "key \<notin> set (mg_cancellers m)"
  shows "mg_subscribers (snd (cancel_section cfg w key m)) = mg_subscribers m"
  using assms by (simp add: cancel_section_def persist_subscribers emitLocked_subscribers Let_def split: option.split)

subsection \<open>Pages of events\<close>

lemma page_acc:
  "0 < limit \<Longrightarrow> length acc < limit \<Longrightarrow>
     page after limit acc es = acc @ take (limit - length acc) (filter (\<lambda>e. ev_sequence e > after) es)"
proof (induction after limit acc es rule: page.induct)
  case (2 after limit acc e es)
  show ?case
  proof (cases "ev_sequence e > after \<and> length (acc @ [e]) = limit")
    case True
    with 2(3,4) show ?thesis by (auto simp: Suc_diff_le take_Cons')
  next
    case False
    show ?thesis
    proof (cases "ev_sequence e > after")
      case True
      with False 2(3,4) have short: "length (acc @ [e]) < limit" by simp
      with 2(1) [OF True] False True 2(3) have "page after limit (acc @ [e]) es
          = (acc @ [e]) @ take (limit - length (acc @ [e])) (filter (\<lambda>e. ev_sequence e > after) es)" by simp
      with True False short show ?thesis
        by (simp add: take_Cons' Suc_diff_Suc)
    next
      case skip: False
      with 2(2) [OF skip 2(3,4)] show ?thesis by simp
    qed
  qed
qed simp

lemma page_unlimited: "page after 0 acc es = acc @ filter (\<lambda>e. ev_sequence e > after) es"
  by (induction es arbitrary: acc) auto

lemma sorted_after_page:
  assumes "sorted_wrt (<) (map ev_sequence es)" "n \<le> length es" "0 < n"
  shows "filter (\<lambda>e. ev_sequence e > ev_sequence (es ! (n - 1))) es = drop n es"
proof -
  have less: "ev_sequence (es ! i) < ev_sequence (es ! j)" if "i < j" "j < length es" for i j
    using assms(1) that by (auto simp: sorted_wrt_iff_nth_less)
  have "filter (\<lambda>e. ev_sequence e > ev_sequence (es ! (n - 1))) (take n es) = []"
  proof -
    have "\<not> ev_sequence e > ev_sequence (es ! (n - 1))" if e: "e \<in> set (take n es)" for e
    proof -
      from e obtain i where i: "i < n" "e = es ! i"
        using assms(2) by (auto simp: in_set_conv_nth)
      show ?thesis
      proof (cases "i = n - 1")
        case False
        then have "ev_sequence (es ! i) < ev_sequence (es ! (n - 1))"
          by (intro less) (use i assms(2,3) in simp_all)
        with i show ?thesis by simp
      qed (simp add: i)
    qed
    then show ?thesis by (simp add: filter_empty_conv)
  qed
  moreover have "filter (\<lambda>e. ev_sequence e > ev_sequence (es ! (n - 1))) (drop n es) = drop n es"
  proof -
    have "ev_sequence e > ev_sequence (es ! (n - 1))" if e: "e \<in> set (drop n es)" for e
    proof -
      from e obtain i where "i < length es - n" "e = es ! (n + i)" by (auto simp: in_set_conv_nth)
      then show ?thesis using less [of "n - 1" "n + i"] assms(3) by simp
    qed
    then show ?thesis by (simp add: filter_id_conv)
  qed
  ultimately show ?thesis by (metis append_Nil append_take_drop_id filter_append)
qed

text \<open>A page holds the first \<open>limit\<close> events after the cursor, all of them when the limit is 0;
  and when the events are numbered in increasing order, asking again with the last number of a
  full page continues exactly where it ended, so no event is skipped or repeated.\<close>

theorem EventsLimit_pages:
  assumes "find_job m key = Some j" and "sorted_wrt (<) (map ev_sequence (mg_events m key))"
  shows "EventsLimit m key after 0 = Some (filter (\<lambda>e. ev_sequence e > after) (mg_events m key))
    \<and> (\<forall>limit > 0. \<exists>es. EventsLimit m key after 0 = Some es
        \<and> EventsLimit m key after limit = Some (take limit es)
        \<and> (limit \<le> length es \<longrightarrow>
             EventsLimit m key (ev_sequence (last (take limit es))) 0 = Some (drop limit es)))"
proof -
  let ?all = "mg_events m key"
  have unlimited: "EventsLimit m key a 0 = Some (filter (\<lambda>e. ev_sequence e > a) ?all)" for a
    using assms(1) by (simp add: EventsLimit_def page_unlimited)
  let ?es = "filter (\<lambda>e. ev_sequence e > after) ?all"
  have sorted: "sorted_wrt (<) (map ev_sequence ?es)"
    using assms(2) by (simp add: sorted_wrt_map sorted_wrt_filter)
  have "EventsLimit m key after limit = Some (take limit ?es)" if "limit > 0" for limit
    using that assms(1) by (simp add: EventsLimit_def page_acc)
  moreover have "EventsLimit m key (ev_sequence (last (take limit ?es))) 0 = Some (drop limit ?es)"
    if n: "limit > 0" "limit \<le> length ?es" for limit
  proof -
    have last: "last (take limit ?es) = ?es ! (limit - 1)"
      using n by (subst last_conv_nth) (auto simp: take_eq_Nil min_def)
    have "ev_sequence (?es ! (limit - 1)) > after"
    proof -
      have "limit - 1 < length ?es" using n by linarith
      then have "?es ! (limit - 1) \<in> set ?es" by (rule nth_mem)
      then show ?thesis by simp
    qed
    then have "filter (\<lambda>e. ev_sequence e > ev_sequence (?es ! (limit - 1))) ?all
        = filter (\<lambda>e. ev_sequence e > ev_sequence (?es ! (limit - 1))) ?es"
      by (auto simp: filter_filter intro!: filter_cong)
    then show ?thesis using sorted_after_page [OF sorted n(2,1)] by (simp add: unlimited last)
  qed
  ultimately show ?thesis using unlimited by auto
qed

subsection \<open>Inserting a job\<close>

lemma find_insert: "find_job (insert_job key j m) = (find_job m)(key \<mapsto> j)"
  by (simp add: find_job_def insert_job_def update_conv' fun_eq_iff)

lemma view_find: "view m k = map_option (\<lambda>j. (jb_id j, jb_request j, jb_state j)) (find_job m k)"
  by (simp add: view_def)

lemma view_Some: "view m k = Some v \<longleftrightarrow>
    (\<exists>j. find_job m k = Some j \<and> v = (jb_id j, jb_request j, jb_state j))"
  by (auto simp: view_find)

lemma view_None: "view m k = None \<longleftrightarrow> find_job m k = None"
  by (simp add: view_find)

lemma view_insert: "view (insert_job key j m) = (view m)(key \<mapsto> (jb_id j, jb_request j, jb_state j))"
  by (simp add: view_find find_insert fun_eq_iff)

lemma disk_view_insert: "disk_view (insert_job key j m) = (disk_view m)(key := None)"
  by (simp add: disk_view_def insert_job_def update_conv' fun_eq_iff dir_request_def empty_dir_def)

definition same_rest :: "manager \<Rightarrow> manager \<Rightarrow> bool" where
  "same_rest m m' \<longleftrightarrow> mg_cancellers m' = mg_cancellers m \<and> mg_canceled m' = mg_canceled m
     \<and> mg_expired m' = mg_expired m \<and> mg_queue m' = mg_queue m \<and> mg_closed m' = mg_closed m
     \<and> mg_tombstones m' = mg_tombstones m \<and> mg_store m' = mg_store m \<and> mg_budget m' = mg_budget m
     \<and> mg_pins m' = mg_pins m \<and> mg_other m' = mg_other m"

lemma same_frame_rest: "same_frame m m' \<Longrightarrow> same_rest m m'"
  by (simp add: same_frame_def same_rest_def)

lemma same_rest_trans: "same_rest m m' \<Longrightarrow> same_rest m' m'' \<Longrightarrow> same_rest m m''"
  by (simp add: same_rest_def)

lemma same_rest_insert: "same_rest m (insert_job key j m)"
  by (simp add: same_rest_def insert_job_def)

text \<open>The manager after the record of a new job was written or not.\<close>

lemma inserted:
  fixes key r w m cfg
  defines "m1 \<equiv> emitLocked cfg w key ''info'' ''Job queued'' (insert_job key (new_job key r (io_now w)) m)"
  assumes "persistLocked cfg w key m1 = (ok, m')"
  shows "view m' = (view m)(key \<mapsto> (key, r, Queued))"
    and "\<forall>k. k \<noteq> key \<longrightarrow> disk_view m' k = disk_view m k"
    and "disk_view m' key = None \<or> disk_view m' key = Some (key, r)"
    and "ok \<Longrightarrow> disk_view m' key = Some (key, r)"
    and "same_rest m m'" "mg_submissions m' = mg_submissions m" "mg_admission_error m' = mg_admission_error m"
    and "map fst (mg_jobs m') = map fst (mg_jobs (insert_job key (new_job key r (io_now w)) m))"
    and "map fst (mg_disk m') = map fst (mg_disk (insert_job key (new_job key r (io_now w)) m))"
    and "channels_kept m m'"
proof -
  let ?m0 = "insert_job key (new_job key r (io_now w)) m"
  have m': "m' = persist cfg w key m1" using assms(2) by (simp add: persist_def)
  have f0: "find_job ?m0 key = Some (new_job key r (io_now w))" by (simp add: find_insert)
  have f1: "find_job m1 key \<noteq> None" by (simp add: m1_def f0)
  have frame: "same_frame ?m0 m'"
    unfolding m' m1_def by (rule same_frame_trans [OF same_frame_emitLocked same_frame_persist])
  then have "view m' = view ?m0" by (simp add: same_frame_def)
  then show view: "view m' = (view m)(key \<mapsto> (key, r, Queued))"
    by (simp add: view_insert new_job_def)
  from frame show "map fst (mg_jobs m') = map fst (mg_jobs ?m0)" "map fst (mg_disk m') = map fst (mg_disk ?m0)"
    by (simp_all add: same_frame_def)
  from frame have "mg_submissions m' = mg_submissions ?m0" "mg_admission_error m' = mg_admission_error ?m0"
    by (simp_all add: same_frame_def)
  then show "mg_submissions m' = mg_submissions m" "mg_admission_error m' = mg_admission_error m"
    by (simp_all add: insert_job_def)
  show "same_rest m m'"
    by (rule same_rest_trans [OF same_rest_insert same_frame_rest [OF frame]])
  have "channels_kept m ?m0" by (rule channels_kept_same) (simp_all add: insert_job_def)
  then show "channels_kept m m'"
    unfolding m' m1_def
    by (rule channels_kept_trans [OF channels_kept_trans [OF _ channels_kept_emitLocked] channels_kept_persist])
      (use f0 f1 in \<open>simp_all add: m1_def\<close>)
  obtain j1 where j1: "find_job m1 key = Some j1" using f1 by auto
  have "view m1 = view ?m0" using same_frame_emitLocked unfolding m1_def same_frame_def by blast
  then have id1: "jb_id j1 = key" "jb_request j1 = r"
    using j1 view_insert [of key "new_job key r (io_now w)" m] view_Some [of m1 key "(key, r, Queued)"]
    by (auto simp: new_job_def)
  have d1: "disk_view m1 = (disk_view m)(key := None)" by (simp add: m1_def disk_view_insert)
  show "\<forall>k. k \<noteq> key \<longrightarrow> disk_view m' k = disk_view m k"
    and "disk_view m' key = None \<or> disk_view m' key = Some (key, r)"
    using disk_view_persist [OF j1, of cfg w] d1 id1 by (auto simp: m') metis+
  show "disk_view m' key = Some (key, r)" if ok
    using persistLocked_True [of cfg w key m1] assms(2) that j1 id1 by (simp add: m')
qed

lemma create_insert_ok:
  assumes "create_insert cfg w random r m = (Inr (key, j), m')"
  shows "random = Some key" "map_of (mg_disk m) key = None"
    and "view m' = (view m)(key \<mapsto> (key, r, Queued))"
    and "disk_view m' = (disk_view m)(key \<mapsto> (key, r))"
    and "same_rest m m'" "mg_admission_error m' = mg_admission_error m"
    and "mg_submissions m' = (if rq_id r = [] then mg_submissions m else (mg_submissions m)(rq_id r \<mapsto> key))"
    and "distinct (map fst (mg_jobs m)) \<Longrightarrow> distinct (map fst (mg_jobs m'))"
    and "distinct (map fst (mg_disk m)) \<Longrightarrow> distinct (map fst (mg_disk m'))"
    and "channels_kept m m'" "jb_id j = key" "jb_request j = r"
    and "\<exists>j0. find_job m' key = Some j0 \<and> j = inspectJob cfg m' j0"
proof -
  from assms have random: "random = Some key" and disk: "map_of (mg_disk m) key = None"
    by (auto simp: create_insert_def Let_def split: option.splits if_splits prod.splits)
  obtain ok m1 where p: "persistLocked cfg w key (emitLocked cfg w key ''info'' ''Job queued''
      (insert_job key (new_job key r (io_now w)) m)) = (ok, m1)" by fastforce
  let ?m2 = "if rq_id r = [] then m1 else m1\<lparr>mg_submissions := (mg_submissions m1)(rq_id r \<mapsto> key)\<rparr>"
  note ins = inserted [OF p]
  have fj: "find_job ?m2 = find_job m1" by (simp add: find_job_def fun_eq_iff)
  from assms random disk p have ok: ok and m': "m' = ?m2" and j: "\<exists>j0. find_job m1 key = Some j0 \<and> j = inspectJob cfg m' j0"
    by (auto simp: create_insert_def Let_def fj split: option.splits if_splits)
  have vw: "view ?m2 = view m1" "disk_view ?m2 = disk_view m1"
    by (simp_all add: view_find fj disk_view_def fun_eq_iff)
  show "random = Some key" "map_of (mg_disk m) key = None" by fact+
  show "view m' = (view m)(key \<mapsto> (key, r, Queued))" using ins(1) vw m' by simp
  show "disk_view m' = (disk_view m)(key \<mapsto> (key, r))"
    using ins(2) ins(4) [OF ok] vw m' by (auto simp: fun_eq_iff)
  show "same_rest m m'" using ins(5) m' by (simp add: same_rest_def)
  show "mg_admission_error m' = mg_admission_error m" using ins(7) m' by simp
  show "mg_submissions m' = (if rq_id r = [] then mg_submissions m else (mg_submissions m)(rq_id r \<mapsto> key))"
    using ins(6) m' by simp
  show "distinct (map fst (mg_jobs m'))" if "distinct (map fst (mg_jobs m))"
    using that ins(8) m' by (simp add: insert_job_def distinct_update)
  show "distinct (map fst (mg_disk m'))" if "distinct (map fst (mg_disk m))"
    using that ins(9) m' by (simp add: insert_job_def distinct_update)
  have "channels_kept m1 ?m2" by (rule channels_kept_same) simp_all
  with ins(10) m' show "channels_kept m m'" using channels_kept_trans by blast
  from j obtain j0 where j0: "find_job m1 key = Some j0" "j = inspectJob cfg m' j0" by blast
  with ins(1) view_Some [of m1 key "(key, r, Queued)"] show "jb_id j = key" "jb_request j = r"
    by (auto simp: inspectJob_def)
  show "\<exists>j0. find_job m' key = Some j0 \<and> j = inspectJob cfg m' j0" using j0 fj m' by simp
qed

lemma create_insert_fail:
  assumes "create_insert cfg w random r m = (Inl e, m')"
  shows "m' = m \<or> (\<exists>key. map_of (mg_disk m) key = None \<and> view m' = (view m)(key := None)
    \<and> (\<forall>k. k \<noteq> key \<longrightarrow> disk_view m' k = disk_view m k)
    \<and> (disk_view m' key = None \<or> disk_view m' key = Some (key, r))
    \<and> same_rest m m' \<and> mg_submissions m' = mg_submissions m \<and> mg_admission_error m'
    \<and> (distinct (map fst (mg_jobs m)) \<longrightarrow> distinct (map fst (mg_jobs m')))
    \<and> (distinct (map fst (mg_disk m)) \<longrightarrow> distinct (map fst (mg_disk m'))) \<and> channels_kept m m')"
proof (cases "m' = m")
  case False
  with assms obtain key where random: "random = Some key" and disk: "map_of (mg_disk m) key = None"
    by (auto simp: create_insert_def split: option.splits if_splits)
  obtain ok m1 where p: "persistLocked cfg w key (emitLocked cfg w key ''info'' ''Job queued''
      (insert_job key (new_job key r (io_now w)) m)) = (ok, m1)" by fastforce
  note ins = inserted [OF p]
  have present: "find_job m1 key \<noteq> None" using ins(1) view_None [of m1 key] by simp
  have fj: "find_job (if rq_id r = [] then m1 else m1\<lparr>mg_submissions := (mg_submissions m1)(rq_id r \<mapsto> key)\<rparr>) = find_job m1"
    by (simp add: find_job_def fun_eq_iff)
  let ?m2 = "m1\<lparr>mg_jobs := AList.delete key (mg_jobs m1), mg_events := (mg_events m1)(key := []), mg_admission_error := True\<rparr>"
  have m': "m' = ?m2"
    using assms random disk p present by (auto simp: create_insert_def Let_def fj split: option.splits if_splits)
  have fm: "find_job ?m2 = (find_job m1)(key := None)"
    by (simp add: find_job_def delete_conv' fun_eq_iff)
  have v: "view m' = (view m)(key := None)"
    using ins(1) by (simp add: m' view_find fm fun_eq_iff)
  have d: "disk_view m' = disk_view m1" by (simp add: m' disk_view_def fun_eq_iff)
  have c: "channels_kept m m'"
    unfolding m' by (rule channels_kept_trans [OF ins(10) channels_kept_same]) simp_all
  have rest: "same_rest m m'" "mg_submissions m' = mg_submissions m" "mg_admission_error m'"
    using ins(5,6) by (simp_all add: m' same_rest_def)
  have keys: "distinct (map fst (mg_jobs m)) \<longrightarrow> distinct (map fst (mg_jobs m'))"
      "distinct (map fst (mg_disk m)) \<longrightarrow> distinct (map fst (mg_disk m'))"
    using ins(8,9) by (simp_all add: m' insert_job_def distinct_update distinct_delete)
  show ?thesis
    using v d c rest keys disk ins(2,3) by (intro disjI2 exI [of _ key]) simp
qed simp

subsection \<open>A request id is accepted once\<close>

lemma EnsureLocked_world:
  "snd (EnsureLocked g es (Some f) n w) = w \<or> snd (EnsureLocked g es (Some f) n w) = snd (f n w)"
  by (auto simp: EnsureLocked_def Let_def split: prod.splits option.splits if_splits)

text \<open>Admission changes at most what a cleanup changes, and pins the artifact.\<close>

lemma submit_admit_cleaned:
  assumes "submit_admit cfg ci r m = (err, m')"
  shows "m' = m \<or> (let m0 = m\<lparr>mg_pins := rq_artifact r # mg_pins m\<rparr> in
    cleaned cfg (pruned m0) m0 m' \<and> store_shrinks (active_artifacts m0) (mg_store m0) (mg_store m'))"
proof (cases "mg_budget m = None")
  case False
  let ?m0 = "m\<lparr>mg_pins := rq_artifact r # mg_pins m\<rparr>"
  from assms False EnsureLocked_world [of the_gate "disk_entries cfg" "reclaim cfg ci" "outputReservation cfg" ?m0]
  have m': "m' = ?m0 \<or> m' = snd (reclaim cfg ci (outputReservation cfg) ?m0)"
    by (simp add: submit_admit_def)
  obtain e acc m1 where c: "cleanupLocked cfg ci True (outputReservation cfg) ?m0 = (e, acc, m1)"
    by (metis prod.exhaust)
  have "snd (reclaim cfg ci (outputReservation cfg) ?m0) = m1" by (simp add: reclaim_def c)
  with m' cleanupLocked_cleaned [OF c] show ?thesis by (auto simp: Let_def)
qed (use assms in \<open>simp add: submit_admit_def\<close>)

definition ids_known :: "manager \<Rightarrow> bool" where
  "ids_known m \<longleftrightarrow> (\<forall>k j. find_job m k = Some j \<and> rq_id (jb_request j) \<noteq> [] \<longrightarrow>
     mg_submissions m (rq_id (jb_request j)) = Some k \<or> mg_expired m (rq_id (jb_request j)) \<noteq> None)"

lemma pruned_found:
  assumes "well_keyed m" "j \<in> pruned m"
  shows "find_job m (jb_id j) = Some j" "Terminal (jb_state j)"
proof -
  from assms(2) have "j \<in> set (completed_jobs m)" by (meson in_set_dropD)
  then show "find_job m (jb_id j) = Some j" "Terminal (jb_state j)"
    using assms(1) in_jobs [of m] by (auto simp: set_completed all_jobs_def well_keyed_def)
qed

lemma well_keyed_pins [simp]: "well_keyed (m\<lparr>mg_pins := p\<rparr>) = well_keyed m"
  by (simp add: well_keyed_def find_job_def)

lemma submit_admit_fresh:
  assumes "submit_admit cfg ci r m = (err, m')" "well_keyed m" "ids_known m"
    "mg_expired m q = None" "mg_submissions m q = None" "q \<noteq> []"
  shows "mg_expired m' q = None" "mg_submissions m' q = None" "mg_admission_error m' = mg_admission_error m"
    "mg_closed m' = mg_closed m"
proof -
  let ?m0 = "m\<lparr>mg_pins := rq_artifact r # mg_pins m\<rparr>"
  have "mg_expired m' q = None \<and> mg_submissions m' q = None \<and> mg_admission_error m' = mg_admission_error m
    \<and> mg_closed m' = mg_closed m"
  proof (cases "m' = m")
    case False
    then have c: "cleaned cfg (pruned ?m0) ?m0 m'"
      using submit_admit_cleaned [OF assms(1)] by (auto simp: Let_def)
    have none: "rq_id (jb_request j) \<noteq> q" if "j \<in> pruned ?m0" for j
    proof -
      have "find_job m (jb_id j) = Some j"
        using pruned_found [OF _ that] assms(2) by (simp add: find_job_def)
      with assms(3) have "rq_id (jb_request j) \<noteq> [] \<Longrightarrow>
          mg_submissions m (rq_id (jb_request j)) \<noteq> None \<or> mg_expired m (rq_id (jb_request j)) \<noteq> None"
        unfolding ids_known_def by (metis option.distinct(1))
      with assms(4-6) show ?thesis by auto
    qed
    have "mg_expired m' q = mg_expired ?m0 q"
      using c none unfolding cleaned_def cleaned_ids_def by blast
    moreover have "mg_submissions m' q = None"
      using c assms(5) unfolding cleaned_def cleaned_ids_def by (metis (no_types, lifting) manager.select_convs(8) manager.surjective manager.update_convs(18))
    ultimately show ?thesis using c assms(4) by (simp add: cleaned_def cleaned_rest_def)
  qed (use assms in simp_all)
  then show "mg_expired m' q = None" "mg_submissions m' q = None" "mg_admission_error m' = mg_admission_error m"
    "mg_closed m' = mg_closed m" by simp_all
qed

lemma find_bookkeeping [simp]:
  "find_job (unpin r m) = find_job m" "find_job (submit_reserve cfg key m) = find_job m"
  "find_job (create_enqueue skip key m) = find_job m"
  by (simp_all add: find_job_def unpin_def submit_reserve_def create_enqueue_def fun_eq_iff)

lemma bookkeeping_sel:
  "mg_expired (unpin r m) = mg_expired m" "mg_submissions (unpin r m) = mg_submissions m"
  "mg_admission_error (unpin r m) = mg_admission_error m"
  "mg_expired (submit_reserve cfg key m) = mg_expired m" "mg_submissions (submit_reserve cfg key m) = mg_submissions m"
  "mg_admission_error (submit_reserve cfg key m) = mg_admission_error m"
  "mg_expired (create_enqueue skip key m) = mg_expired m" "mg_submissions (create_enqueue skip key m) = mg_submissions m"
  "mg_admission_error (create_enqueue skip key m) = mg_admission_error m"
  by (simp_all add: unpin_def submit_reserve_def create_enqueue_def)

text \<open>C28: a request id is accepted once: after a submission was accepted, sending it again
  answers with the same job as a replay, and another request under the same id is a conflict;
  neither changes anything, so nothing is enqueued again.\<close>

theorem accepted_request_is_replayed:
  assumes "CreateSubmissionContext cfg su r m = (Inr (j, False), m')" and "rq_id r \<noteq> []"
    and "well_keyed m" "ids_known m"
  shows "(\<exists>j'. CreateSubmissionContext cfg su' r m' = (Inr (j', True), m') \<and> jb_id j' = jb_id j \<and> jb_request j' = r)
    \<and> (\<forall>r'. rq_id r' = rq_id r \<and> cf_marshal cfg r' \<noteq> cf_marshal cfg r \<longrightarrow>
         CreateSubmissionContext cfg su' r' m' = (Inl (RequestConflict (rq_id r)), m'))"
proof -
  from assms(1) obtain m1 key m2 where admit: "submit_check cfg r m = Admit"
    and m1: "submit_admit cfg (su_cleanup su) r m = (None, m1)"
    and ins: "create_insert cfg (su_io su) (su_random su) r m1 = (Inr (key, j), m2)"
    and m': "m' = unpin r (submit_reserve cfg key (create_enqueue (su_skip su) key m2))"
    by (auto simp: CreateSubmissionContext_def split: verdict.splits prod.splits option.splits sum.splits)
  from admit assms(2) have pat: "requestIDPattern (rq_id r)" and adm: "\<not> mg_admission_error m"
    and fresh: "mg_expired m (rq_id r) = None" "mg_submissions m (rq_id r) = None"
    by (auto simp: submit_check_def Let_def split: if_splits option.splits)
  note f = submit_admit_fresh [OF m1 assms(3,4) fresh assms(2)]
  note i = create_insert_ok [OF ins]
  from i(13) obtain j0 where j0: "find_job m2 key = Some j0" "j = inspectJob cfg m2 j0" by blast
  have ids: "jb_id j0 = key" "jb_request j0 = r"
    using i(11,12) j0(2) by (simp_all add: inspectJob_def)
  have exp: "mg_expired m' (rq_id r) = None" and sub: "mg_submissions m' (rq_id r) = Some key"
    and ad: "\<not> mg_admission_error m'" and fj: "find_job m' key = Some j0"
    using f i(5-7) adm assms(2) j0(1) by (simp_all add: m' bookkeeping_sel same_rest_def)
  have check: "submit_check cfg r' m' = (if cf_marshal cfg r \<noteq> cf_marshal cfg r'
      then Reject (RequestConflict (rq_id r)) else Replay (inspectJob cfg m' j0))" if "rq_id r' = rq_id r" for r'
    using that assms(2) pat ad exp sub fj ids by (simp add: submit_check_def inspectJob_def)
  show ?thesis
    using check [of r] check ids i(11) by (auto simp: CreateSubmissionContext_def inspectJob_def)
qed

definition demo_codec :: codec where
  "demo_codec = \<lparr>cd_sha = (\<lambda>_. sample_key), cd_untar = (\<lambda>_. sample_archive),
     cd_parse_json = sample_parse_json, cd_print_json = (\<lambda>_. []), cd_parse_time = atoi,
     cd_print_time = itoa\<rparr>"

definition demo_config :: config where
  "demo_config = sample_config\<lparr>cf_codec := demo_codec\<rparr>"

definition demo_start :: manager where
  "demo_start = (sample_manager [])\<lparr>mg_store := sample_store\<rparr>"

definition demo_request :: request where
  "demo_request = sample_request (replicate 32 CHR ''a'') sample_key"

definition demo_submit :: "string \<Rightarrow> submit_io" where
  "demo_submit key = \<lparr>su_cleanup = sample_cleanup_io, su_faults = [], su_io = sample_io,
     su_random = Some key, su_skip = False\<rparr>"


lemma demo_accepted: "case CreateSubmissionContext demo_config (demo_submit ''j1'') demo_request demo_start of
    (Inr (j, replay), m') \<Rightarrow> \<not> replay \<and> jb_id j = ''j1'' \<and> mg_queue m' = [''j1'']
  | _ \<Rightarrow> False"
  by code_simp

lemma demo_start_ok: "well_keyed demo_start" "ids_known demo_start"
  by (simp_all add: demo_start_def sample_manager_def well_keyed_def ids_known_def find_job_def)

lemma accepted_request_is_replayed_witness:
  "\<exists>j m'. CreateSubmissionContext demo_config (demo_submit ''j1'') demo_request demo_start = (Inr (j, False), m')
    \<and> (\<exists>j'. CreateSubmissionContext demo_config (demo_submit ''j2'') demo_request m' = (Inr (j', True), m')
         \<and> jb_id j' = ''j1'')"
proof -
  obtain j m' where run: "CreateSubmissionContext demo_config (demo_submit ''j1'') demo_request demo_start
      = (Inr (j, False), m')" and j: "jb_id j = ''j1''"
    using demo_accepted by (auto split: prod.splits sum.splits)
  have "rq_id demo_request \<noteq> []" by (simp add: demo_request_def sample_request_def)
  from accepted_request_is_replayed [OF run this demo_start_ok, of "demo_submit ''j2''"] run j show ?thesis
    by auto
qed

lemma EventsLimit_pages_witness:
  "let es = map (\<lambda>i. \<lparr>ev_sequence = i, ev_time = 0, ev_level = ''info'', ev_message = ''m''\<rparr>) [1, 2, 3];
       m = (sample_manager [sample_job ''j'' (sample_request [] ''a'') Running 1])\<lparr>mg_events := (\<lambda>_. es)\<rparr>
   in EventsLimit m ''j'' 0 2 = Some (take 2 es) \<and> EventsLimit m ''j'' 2 0 = Some (drop 2 es)"
proof -
  let ?es = "map (\<lambda>i. \<lparr>ev_sequence = i, ev_time = 0, ev_level = ''info'', ev_message = ''m''\<rparr>) [1, 2, 3]"
  let ?m = "(sample_manager [sample_job ''j'' (sample_request [] ''a'') Running 1])\<lparr>mg_events := (\<lambda>_. ?es)\<rparr>"
  have j: "find_job ?m ''j'' = Some (sample_job ''j'' (sample_request [] ''a'') Running 1)"
    by (simp add: find_job_def sample_manager_def sample_job_def)
  have sorted: "sorted_wrt (<) (map ev_sequence (mg_events ?m ''j''))" by simp
  note p = EventsLimit_pages [OF j sorted, of 0]
  from p have all: "EventsLimit ?m ''j'' 0 0 = Some ?es" by simp
  from p obtain es where es: "EventsLimit ?m ''j'' 0 0 = Some es" "EventsLimit ?m ''j'' 0 2 = Some (take 2 es)"
    "2 \<le> length es \<longrightarrow> EventsLimit ?m ''j'' (ev_sequence (last (take 2 es))) 0 = Some (drop 2 es)"
    by (metis zero_less_numeral)
  from es(1) all have "es = ?es" by simp
  with es(2,3) show ?thesis by (simp add: Let_def numeral_2_eq_2)
qed

end
