(* ===== verification/JobRun.thy ===== *)
theory JobRun
  imports Jobs
begin

text \<open>
  The worker (\<open>run\<close>, \<open>runTaskPhase\<close> and \<open>worker\<close> in \<open>internal/jobs/manager.go\<close>): the critical
  sections of a run, one definition each, and \<open>run\<close>, which performs them in the order of the code
  when nothing else happens in between.  What artifact, runner, console and tasks do is the input
  record \<open>run_io\<close>; the texts of errors are a parameter.
\<close>

subsection \<open>Failures of a run\<close>

datatype failure =
    LoadFailed load_error
  | VerifyFailed verify_error
  | CaptureFailed string
  | RunnerFailed bool string \<comment> \<open>wraps \<open>context.Canceled\<close>; text\<close>
  | HookFailed run_error
  | ContextCanceled

fun is_canceled :: "failure \<Rightarrow> bool" where
  "is_canceled ContextCanceled = True"
| "is_canceled (RunnerFailed c _) = c"
| "is_canceled (HookFailed (ContextError c)) = (c = CtxCanceled)"
| "is_canceled (HookFailed (TaskError _ _ c)) = (c = CtxCanceled)"
| "is_canceled _ = False"

type_synonym texts = "failure \<Rightarrow> string"

definition run_context_done :: "string \<Rightarrow> manager \<Rightarrow> bool" where
  "run_context_done key m \<longleftrightarrow> mg_closed m \<or> key \<in> set (mg_canceled m)"

text \<open>\<open>if runContext.Err() != nil { runErr = runContext.Err() }\<close>\<close>

definition with_context :: "string \<Rightarrow> manager \<Rightarrow> failure option \<Rightarrow> failure option" where
  "with_context key m err = (if run_context_done key m then Some ContextCanceled else err)"

subsection \<open>Critical sections\<close>

definition run_start :: "config \<Rightarrow> io \<Rightarrow> string \<Rightarrow> manager \<Rightarrow> request option \<times> manager" where
  "run_start cfg w key m = (case find_job m key of
       None \<Rightarrow> (None, m)
     | Some j \<Rightarrow> if jb_state j \<noteq> Queued then (None, m)
         else (Some (jb_request j), persist cfg w key (emitLocked cfg w key ''info'' ''Job started''
           (upd_job key (\<lambda>j. j\<lparr>jb_state := Running, jb_started := Some (io_now w)\<rparr>)
             (m\<lparr>mg_cancellers := key # mg_cancellers m, mg_canceled := removeAll key (mg_canceled m)\<rparr>)))))"

definition run_load :: "config \<Rightarrow> string list \<Rightarrow> request \<Rightarrow> manager \<Rightarrow> failure option" where
  "run_load cfg faults r m = (case load (cf_codec cfg) (mg_store m) (rq_artifact r) of
       Inl e \<Rightarrow> Some (LoadFailed e)
     | Inr a \<Rightarrow> map_option VerifyFailed (Verify (cf_codec cfg) faults (mg_store m) a))"

definition manual_text :: string where
  "manual_text = ''Serial console was selected manually; JTAG-to-UART identity was not verified''"

definition run_warn_manual :: "config \<Rightarrow> io \<Rightarrow> string \<Rightarrow> request \<Rightarrow> manager \<Rightarrow> manager" where
  "run_warn_manual cfg w key r m = (case rq_serial r of
       Some sr \<Rightarrow> if sr_selection sr = ''manual'' then emit cfg w key ''warning'' manual_text m else m
     | None \<Rightarrow> m)"

definition set_capture :: "string \<Rightarrow> serial_capture \<Rightarrow> manager \<Rightarrow> manager" where
  "set_capture key c = upd_job key (\<lambda>j. j\<lparr>jb_capture := Some c\<rparr>)"

definition run_capture_started :: "config \<Rightarrow> io \<Rightarrow> string \<Rightarrow> serial_capture \<Rightarrow> int \<Rightarrow> manager \<Rightarrow> manager" where
  "run_capture_started cfg w key c baud m = persist cfg w key (emitLocked cfg w key ''info''
     (''Serial console capture started at '' @ itoa baud @ '' baud'') (set_capture key c m))"

definition run_capture_stopped :: "config \<Rightarrow> io \<Rightarrow> string \<Rightarrow> serial_capture \<Rightarrow> manager \<Rightarrow> manager" where
  "run_capture_stopped cfg w key c m = persist cfg w key (set_capture key c m)"

definition outcome_phase :: "failure option \<Rightarrow> phase \<times> string" where
  "outcome_phase err = (case err of
       None \<Rightarrow> (OnSuccess, ''succeeded'')
     | Some f \<Rightarrow> if is_canceled f then (OnCancel, ''canceled'') else (OnFailure, ''failed''))"

definition run_outcome :: "config \<Rightarrow> texts \<Rightarrow> io \<Rightarrow> string \<Rightarrow> failure option \<Rightarrow> manager \<Rightarrow> manager" where
  "run_outcome cfg tx w key err m = persist cfg w key
     (upd_job key (\<lambda>j. j\<lparr>jb_deployment_outcome := snd (outcome_phase err),
        jb_deployment_error := (case err of None \<Rightarrow> jb_deployment_error j | Some f \<Rightarrow> tx f)\<rparr>) m)"

text \<open>The observer of a task phase: the result with the same id is replaced, or appended.\<close>

definition phase_name :: "phase \<Rightarrow> string" where
  "phase_name p = (case p of BeforeBoot \<Rightarrow> ''beforeBoot'' | OnSuccess \<Rightarrow> ''onSuccess''
     | OnFailure \<Rightarrow> ''onFailure'' | OnCancel \<Rightarrow> ''onCancel'')"

definition task_state_name :: "task_state \<Rightarrow> string" where
  "task_state_name s = (case s of TRunning \<Rightarrow> ''running'' | TSucceeded \<Rightarrow> ''succeeded''
     | TFailed \<Rightarrow> ''failed'' | TCanceled \<Rightarrow> ''canceled'' | TInterrupted \<Rightarrow> ''interrupted'')"

fun put_result :: "task_result \<Rightarrow> task_result list \<Rightarrow> task_result list" where
  "put_result t [] = [t]"
| "put_result t (u # us) = (if tk_id u = tk_id t then t # us else u # put_result t us)"

definition run_observe :: "config \<Rightarrow> io \<Rightarrow> string \<Rightarrow> task_result \<Rightarrow> manager \<Rightarrow> manager" where
  "run_observe cfg w key t m = persist cfg w key (emitLocked cfg w key ''info''
     (''Task '' @ tk_id t @ '' ('' @ phase_name (tk_phase t) @ '') '' @ task_state_name (tk_state t))
     (upd_job key (\<lambda>j. j\<lparr>jb_task_results := put_result t (jb_task_results j)\<rparr>) m))"

definition run_hook_failed :: "config \<Rightarrow> texts \<Rightarrow> io \<Rightarrow> string \<Rightarrow> run_error \<Rightarrow> manager \<Rightarrow> manager" where
  "run_hook_failed cfg tx w key e m = emitLocked cfg w key ''error'' (tx (HookFailed e))
     (upd_job key (\<lambda>j. j\<lparr>jb_task_errors := jb_task_errors j @ [tx (HookFailed e)]\<rparr>) m)"

definition final_job_state :: "failure option \<Rightarrow> job_state" where
  "final_job_state err = (case err of None \<Rightarrow> Succeeded
     | Some f \<Rightarrow> if is_canceled f then Canceled else Failed)"

definition final_event :: "texts \<Rightarrow> failure option \<Rightarrow> string \<times> string" where
  "final_event tx err = (case err of
       None \<Rightarrow> (''info'', ''Job completed successfully'')
     | Some f \<Rightarrow> if is_canceled f then (''warning'', ''Job canceled'') else (''error'', ''Job failed: '' @ tx f))"

definition finish_record :: "texts \<Rightarrow> int \<Rightarrow> failure option \<Rightarrow> job \<Rightarrow> job" where
  "finish_record tx now err j = j\<lparr>jb_finished := Some now, jb_state := final_job_state err,
     jb_error := (case err of None \<Rightarrow> jb_error j | Some f \<Rightarrow>
       if is_canceled f then ''canceled'' else boundedText (tx f) 8192)\<rparr>"

definition run_finish :: "config \<Rightarrow> texts \<Rightarrow> io \<Rightarrow> string \<Rightarrow> failure option \<Rightarrow> manager \<Rightarrow> manager" where
  "run_finish cfg tx w key err0 m =
     (let err = with_context key m err0;
          m1 = m\<lparr>mg_cancellers := removeAll key (mg_cancellers m)\<rparr> in
      case find_job m1 key of
        None \<Rightarrow> m1
      | Some _ \<Rightarrow> closeSubscribersLocked key (persist cfg w key
          (emitLocked cfg w key (fst (final_event tx err)) (snd (final_event tx err))
            (upd_job key (finish_record tx (io_now w) err) m1))))"

subsection \<open>A whole run\<close>

record run_io =
  ri_io :: "nat \<Rightarrow> io" \<comment> \<open>the disk at each section\<close>
  ri_faults :: "string list"
  ri_attach :: "string + serial_capture \<times> int" \<comment> \<open>\<open>Attach\<close> and the transcript file\<close>
  ri_boot :: "run_env option" \<comment> \<open>the runner called the before-boot hook\<close>
  ri_runner :: "failure option" \<comment> \<open>what ended the execution: the runner or the capture\<close>
  ri_stop :: "serial_capture \<times> failure option"
  ri_hooks :: run_env

definition phase_tasks :: "config \<Rightarrow> run_env \<Rightarrow> request \<Rightarrow> phase \<Rightarrow> task_result list \<times> run_error option" where
  "phase_tasks cfg env r ph = Run (cf_registry cfg) env ph 0 (Phase (rq_tasks r) ph)"

definition observe_all :: "config \<Rightarrow> io \<Rightarrow> string \<Rightarrow> task_result list \<Rightarrow> manager \<Rightarrow> manager" where
  "observe_all cfg w key obs m = fold (run_observe cfg w key) obs m"

definition run_execute :: "config \<Rightarrow> run_io \<Rightarrow> string \<Rightarrow> request \<Rightarrow> manager \<Rightarrow> failure option \<times> manager" where
  "run_execute cfg ri key r m = (ri_runner ri, case ri_boot ri of
       None \<Rightarrow> m
     | Some env \<Rightarrow> observe_all cfg (ri_io ri 1) key (fst (phase_tasks cfg env r BeforeBoot)) m)"

definition run_deploy :: "config \<Rightarrow> run_io \<Rightarrow> string \<Rightarrow> request \<Rightarrow> manager \<Rightarrow> failure option \<times> manager" where
  "run_deploy cfg ri key r m = (case run_load cfg (ri_faults ri) r m of
       Some f \<Rightarrow> (Some f, m)
     | None \<Rightarrow>
         (let m1 = run_warn_manual cfg (ri_io ri 2) key r m in
          case rq_serial r of
            None \<Rightarrow> run_execute cfg ri key r m1
          | Some sr \<Rightarrow> (case (if cf_console cfg then ri_attach ri else Inl ''not configured'') of
              Inl t \<Rightarrow> (Some (CaptureFailed t), m1)
            | Inr (c, baud) \<Rightarrow>
                (let (err, m2) = run_execute cfg ri key r (run_capture_started cfg (ri_io ri 3) key c baud m1)
                 in (if err = None then snd (ri_stop ri) else err,
                     run_capture_stopped cfg (ri_io ri 4) key (fst (ri_stop ri)) m2)))))"

definition run_hooks :: "config \<Rightarrow> texts \<Rightarrow> run_io \<Rightarrow> string \<Rightarrow> request \<Rightarrow> failure option \<Rightarrow> manager \<Rightarrow>
    failure option \<times> manager" where
  "run_hooks cfg tx ri key r err m =
     (let (obs, herr) = phase_tasks cfg (ri_hooks ri) r (fst (outcome_phase err));
          m1 = observe_all cfg (ri_io ri 5) key obs m in
      case herr of
        None \<Rightarrow> (err, m1)
      | Some e \<Rightarrow> (if err = None then Some (HookFailed e) else err, run_hook_failed cfg tx (ri_io ri 6) key e m1))"

definition run :: "config \<Rightarrow> texts \<Rightarrow> run_io \<Rightarrow> string \<Rightarrow> manager \<Rightarrow> manager" where
  "run cfg tx ri key m = (case run_start cfg (ri_io ri 7) key m of
       (None, m1) \<Rightarrow> m1
     | (Some r, m1) \<Rightarrow>
         (let (err0, m2) = run_deploy cfg ri key r m1;
              err = with_context key m2 err0;
              (err', m3) = run_hooks cfg tx ri key r err (run_outcome cfg tx (ri_io ri 8) key err m2)
          in run_finish cfg tx (ri_io ri 9) key err' m3))"

subsection \<open>What a run leaves behind\<close>

text \<open>The facts a section keeps: the job is there, with its request, and its task results belong
  to the given phases.\<close>

definition job_with :: "manager \<Rightarrow> string \<Rightarrow> request \<Rightarrow> phase set \<Rightarrow> string \<Rightarrow> bool" where
  "job_with m key r phs outcome \<longleftrightarrow> (\<exists>j. find_job m key = Some j \<and> jb_request j = r
     \<and> tk_phase ` set (jb_task_results j) \<subseteq> phs \<and> jb_deployment_outcome j = outcome)"

lemma job_with_upd:
  assumes "job_with m key r phs outcome"
    and "\<And>j. jb_request (f j) = jb_request j"
    and "\<And>j. tk_phase ` set (jb_task_results j) \<subseteq> phs \<Longrightarrow> tk_phase ` set (jb_task_results (f j)) \<subseteq> phs'"
    and "\<And>j. jb_deployment_outcome j = outcome \<Longrightarrow> jb_deployment_outcome (f j) = outcome'"
  shows "job_with (upd_job key f m) key r phs' outcome'"
  using assms by (auto simp: job_with_def find_upd_job)

lemma job_with_emitLocked:
  assumes "job_with m key r phs outcome"
  shows "job_with (emitLocked cfg w k level message m) key r phs outcome"
proof (cases "find_job m k")
  case None
  with assms show ?thesis by (simp add: emitLocked_def job_with_def)
next
  case (Some j)
  show ?thesis
    by (rule emitLocked_log [OF Some, of cfg w level message]) (use assms Some in \<open>auto simp: job_with_def\<close>)
qed

lemma job_with_emit:
  "job_with m key r phs outcome \<Longrightarrow> job_with (emit cfg w k level message m) key r phs outcome"
  by (simp add: emit_def job_with_emitLocked split: option.splits)

lemma job_with_persist:
  "job_with m key r phs outcome \<Longrightarrow> job_with (persist cfg w k m) key r phs outcome"
  by (auto simp: job_with_def persist_jobs bound_record_def split: option.splits)

lemma put_result_phases: "tk_phase ` set (put_result t ts) \<subseteq> insert (tk_phase t) (tk_phase ` set ts)"
  by (induction t ts rule: put_result.induct) auto

lemma job_with_observe:
  assumes "job_with m key r phs outcome" "tk_phase t \<in> phs"
  shows "job_with (run_observe cfg w key t m) key r phs outcome"
  unfolding run_observe_def
  by (intro job_with_persist job_with_emitLocked job_with_upd [OF assms(1)])
    (use put_result_phases [of t] assms(2) in fastforce)+

lemma job_with_observe_all:
  "job_with m key r phs outcome \<Longrightarrow> tk_phase ` set obs \<subseteq> phs \<Longrightarrow>
     job_with (observe_all cfg w key obs m) key r phs outcome"
  by (induction obs arbitrary: m) (simp_all add: observe_all_def job_with_observe)

lemma Run_phases:
  "Run registry env ph i ivs = (obs, err) \<Longrightarrow> tk_phase ` set obs \<subseteq> {ph}"
  by (induction ivs arbitrary: i obs err)
    (fastforce simp: Let_def observed_def split: option.splits prod.splits)+

lemma phase_tasks_phases: "tk_phase ` set (fst (phase_tasks cfg env r ph)) \<subseteq> {ph}"
  by (cases "phase_tasks cfg env r ph") (auto simp: phase_tasks_def dest: Run_phases)

lemma job_with_mono: "job_with m key r phs outcome \<Longrightarrow> phs \<subseteq> phs' \<Longrightarrow> job_with m key r phs' outcome"
  by (auto simp: job_with_def)

lemma job_with_execute:
  assumes "job_with m key r {BeforeBoot} outcome"
  shows "job_with (snd (run_execute cfg ri key r m)) key r {BeforeBoot} outcome"
  using assms by (simp add: run_execute_def job_with_observe_all phase_tasks_phases split: option.splits)

lemma job_with_deploy:
  assumes "job_with m key r {BeforeBoot} outcome"
  shows "job_with (snd (run_deploy cfg ri key r m)) key r {BeforeBoot} outcome"
proof -
  have warn: "job_with (run_warn_manual cfg (ri_io ri 2) key r m) key r {BeforeBoot} outcome"
    using assms by (simp add: run_warn_manual_def job_with_emit split: option.splits)
  have cap: "job_with (set_capture key c m') key r {BeforeBoot} outcome"
    if "job_with m' key r {BeforeBoot} outcome" for c m'
    unfolding set_capture_def by (rule job_with_upd [OF that]) simp_all
  show ?thesis
    using assms warn job_with_execute [OF warn, of cfg ri]
    by (auto simp: run_deploy_def Let_def split_beta run_capture_started_def run_capture_stopped_def
        intro!: job_with_persist cap job_with_execute job_with_emitLocked split: option.splits sum.splits)
qed

lemma job_with_outcome:
  assumes "job_with m key r phs outcome"
  shows "job_with (run_outcome cfg tx w key err m) key r phs (snd (outcome_phase err))"
  unfolding run_outcome_def by (rule job_with_persist, rule job_with_upd [OF assms]) simp_all

lemma job_with_hooks:
  assumes "job_with m key r {BeforeBoot} outcome"
  shows "job_with (snd (run_hooks cfg tx ri key r err m)) key r {BeforeBoot, fst (outcome_phase err)} outcome"
proof -
  let ?ph = "fst (outcome_phase err)"
  let ?obs = "fst (phase_tasks cfg (ri_hooks ri) r ?ph)"
  have obs: "job_with (observe_all cfg (ri_io ri 5) key ?obs m) key r {BeforeBoot, ?ph} outcome"
    by (rule job_with_observe_all [OF job_with_mono [OF assms]])
      (use phase_tasks_phases [of cfg "ri_hooks ri" r ?ph] in auto)
  have "job_with (run_hook_failed cfg tx w key e m') key r {BeforeBoot, ?ph} outcome"
    if "job_with m' key r {BeforeBoot, ?ph} outcome" for w e m'
    unfolding run_hook_failed_def by (rule job_with_emitLocked, rule job_with_upd [OF that]) simp_all
  with obs show ?thesis by (simp add: run_hooks_def Let_def split_beta split: option.splits)
qed

lemma emitLocked_find:
  "find_job m key = Some j \<Longrightarrow> \<exists>j'. find_job (emitLocked cfg w key level message m) key = Some j'
     \<and> jb_state j' = jb_state j \<and> jb_request j' = jb_request j
     \<and> jb_task_results j' = jb_task_results j \<and> jb_deployment_outcome j' = jb_deployment_outcome j"
  by (rule emitLocked_log [of m key j cfg w level message]) auto

lemma find_close [simp]: "find_job (closeSubscribersLocked key m) = find_job m"
  by (simp add: find_job_def closeSubscribersLocked_def fun_eq_iff)

lemma run_finish_job:
  fixes cfg tx w err m key
  assumes "job_with m key r phs outcome"
  defines "m' \<equiv> run_finish cfg tx w key err m"
  shows "job_with m' key r phs outcome
    \<and> (\<exists>j. find_job m' key = Some j \<and> jb_state j = final_job_state (with_context key m err))
    \<and> mg_subscribers m' key = [] \<and> key \<notin> set (mg_cancellers m')"
proof -
  let ?err = "with_context key m err"
  let ?m1 = "m\<lparr>mg_cancellers := removeAll key (mg_cancellers m)\<rparr>"
  let ?f = "finish_record tx (io_now w) ?err"
  obtain j where j: "find_job m key = Some j" "jb_request j = r" "tk_phase ` set (jb_task_results j) \<subseteq> phs"
    "jb_deployment_outcome j = outcome" using assms(1) by (auto simp: job_with_def)
  have j1: "find_job ?m1 key = Some j" using j(1) by (simp add: find_job_def)
  have j2: "find_job (upd_job key ?f ?m1) key = Some (?f j)" by (simp add: find_upd_job j1)
  define level message where "level = fst (final_event tx ?err)" and "message = snd (final_event tx ?err)"
  have m': "m' = closeSubscribersLocked key (persist cfg w key
      (emitLocked cfg w key level message (upd_job key ?f ?m1)))"
    using j1 by (simp add: m'_def run_finish_def Let_def level_def message_def)
  obtain j3 where j3: "find_job (emitLocked cfg w key level message (upd_job key ?f ?m1)) key = Some j3"
    "jb_state j3 = final_job_state ?err" "jb_request j3 = r" "tk_phase ` set (jb_task_results j3) \<subseteq> phs"
    "jb_deployment_outcome j3 = outcome"
    using emitLocked_find [OF j2, of cfg w level message] j by (auto simp: finish_record_def)
  have jobs: "find_job m' key = Some (bound_record j3)"
    by (simp add: m' persist_jobs j3(1))
  moreover have "same_frame (upd_job key ?f ?m1) m'"
    unfolding m' by (rule same_frame_trans [OF same_frame_trans [OF same_frame_emitLocked same_frame_persist] same_frame_close])
  then have "mg_cancellers m' = removeAll key (mg_cancellers m)"
    by (simp add: same_frame_def)
  moreover have "mg_subscribers m' key = []" by (simp add: m' closeSubscribersLocked_def)
  ultimately show ?thesis
    using j3 by (auto simp: job_with_def bound_record_def)
qed

lemma Terminal_final: "Terminal (final_job_state e)"
  by (simp add: final_job_state_def split: option.splits)

lemma final_Succeeded: "final_job_state (with_context key m e) = Succeeded \<Longrightarrow> e = None"
  by (auto simp: final_job_state_def with_context_def split: option.splits if_splits)

lemma outcome_OnCancel: "fst (outcome_phase e) = OnCancel \<Longrightarrow> \<exists>f. e = Some f \<and> is_canceled f"
  by (auto simp: outcome_phase_def split: option.splits if_splits)

lemma final_canceled: "is_canceled f \<Longrightarrow> final_job_state (with_context key m (Some f)) = Canceled"
  by (simp add: final_job_state_def with_context_def)

lemma outcome_phase_cases: "(snd (outcome_phase err), fst (outcome_phase err))
    \<in> {(''succeeded'', OnSuccess), (''failed'', OnFailure), (''canceled'', OnCancel)}"
  by (simp add: outcome_phase_def split: option.splits)

text \<open>C29: a run of a queued job ends it: its state is terminal, its cancel function is gone and
  its subscribers are closed; exactly one outcome phase was selected from the deployment, and
  only tasks of that phase and of the boot hook left results; the final state agrees with the
  outcome: success needs a successful deployment, a canceled deployment ends as canceled.\<close>

theorem run_ends_job:
  assumes "find_job m key = Some j" and "jb_state j = Queued" and "jb_task_results j = []"
  shows "let m' = run cfg tx ri key m in \<exists>j' ph. find_job m' key = Some j' \<and> jb_request j' = jb_request j \<and> Terminal (jb_state j')
    \<and> (jb_deployment_outcome j', ph) \<in> {(''succeeded'', OnSuccess), (''failed'', OnFailure), (''canceled'', OnCancel)}
    \<and> tk_phase ` set (jb_task_results j') \<subseteq> {BeforeBoot, ph}
    \<and> (jb_state j' = Succeeded \<longrightarrow> ph = OnSuccess) \<and> (ph = OnCancel \<longrightarrow> jb_state j' = Canceled)
    \<and> mg_subscribers m' key = [] \<and> key \<notin> set (mg_cancellers m')"
proof -
  define m' where "m' = run cfg tx ri key m"
  let ?r = "jb_request j"
  let ?f = "\<lambda>j. j\<lparr>jb_state := Running, jb_started := Some (io_now (ri_io ri 7))\<rparr>"
  let ?m0 = "m\<lparr>mg_cancellers := key # mg_cancellers m, mg_canceled := removeAll key (mg_canceled m)\<rparr>"
  define m1 where "m1 = persist cfg (ri_io ri 7) key (emitLocked cfg (ri_io ri 7) key ''info'' ''Job started'' (upd_job key ?f ?m0))"
  have start: "run_start cfg (ri_io ri 7) key m = (Some ?r, m1)"
    by (simp add: run_start_def assms(1,2) m1_def)
  have "find_job ?m0 key = Some j" using assms(1) by (simp add: find_job_def)
  then have "job_with ?m0 key ?r {BeforeBoot} (jb_deployment_outcome j)"
    using assms(3) by (simp add: job_with_def)
  then have "job_with m1 key ?r {BeforeBoot} (jb_deployment_outcome j)"
    unfolding m1_def by (intro job_with_persist job_with_emitLocked job_with_upd) simp_all
  note w2 = job_with_deploy [OF this, of cfg ri]
  obtain err0 m2 where d: "run_deploy cfg ri key ?r m1 = (err0, m2)" by fastforce
  define err where "err = with_context key m2 err0"
  have w3: "job_with (run_outcome cfg tx (ri_io ri 8) key err m2) key ?r {BeforeBoot} (snd (outcome_phase err))"
    using w2 d by (simp add: job_with_outcome)
  obtain err' m3 where h: "run_hooks cfg tx ri key ?r err (run_outcome cfg tx (ri_io ri 8) key err m2) = (err', m3)"
    by fastforce
  have w4: "job_with m3 key ?r {BeforeBoot, fst (outcome_phase err)} (snd (outcome_phase err))"
    using job_with_hooks [OF w3, of cfg tx ri err] h by simp
  have m': "m' = run_finish cfg tx (ri_io ri 9) key err' m3"
    unfolding m'_def run_def start d Let_def prod.case option.case err_def [symmetric] h by (rule refl)
  note fin = run_finish_job [OF w4, of cfg tx "ri_io ri 9" err', folded m']
  obtain j' where j': "find_job m' key = Some j'" "jb_request j' = ?r"
    "tk_phase ` set (jb_task_results j') \<subseteq> {BeforeBoot, fst (outcome_phase err)}"
    "jb_deployment_outcome j' = snd (outcome_phase err)" "jb_state j' = final_job_state (with_context key m3 err')"
    using conjunct1 [OF fin] conjunct1 [OF conjunct2 [OF fin]] unfolding job_with_def by force
  have keep: "err' = err \<or> (err = None \<and> err' \<noteq> None)"
  proof (cases "snd (phase_tasks cfg (ri_hooks ri) ?r (fst (outcome_phase err)))")
    case None
    then show ?thesis using arg_cong [OF h, of fst] by (simp add: run_hooks_def Let_def split_beta)
  next
    case (Some e)
    then have "err' = (if err = None then Some (HookFailed e) else err)"
      using arg_cong [OF h, of fst] by (simp add: run_hooks_def Let_def split_beta)
    then show ?thesis by simp
  qed
  have ended: "Terminal (jb_state j')" unfolding j'(5) by (rule Terminal_final)
  have succ: "jb_state j' = Succeeded \<longrightarrow> fst (outcome_phase err) = OnSuccess"
    unfolding j'(5) using keep by (intro impI) (drule final_Succeeded, auto simp: outcome_phase_def)
  have canc: "fst (outcome_phase err) = OnCancel \<longrightarrow> jb_state j' = Canceled"
    unfolding j'(5) using keep by (intro impI) (drule outcome_OnCancel, auto simp: final_canceled)
  have sel: "(jb_deployment_outcome j', fst (outcome_phase err))
      \<in> {(''succeeded'', OnSuccess), (''failed'', OnFailure), (''canceled'', OnCancel)}"
    unfolding j'(4) by (rule outcome_phase_cases)
  have gone: "mg_subscribers m' key = []" "key \<notin> set (mg_cancellers m')"
    using conjunct2 [OF conjunct2 [OF fin]] by (rule conjunct1, rule conjunct2)
  show ?thesis
    unfolding Let_def m'_def [symmetric] using j'(1,2) ended sel j'(3) succ canc gone
    by (intro exI [of _ j'] exI [of _ "fst (outcome_phase err)"] conjI)
qed

definition sample_capture :: serial_capture where
  "sample_capture = \<lparr>sc_state = ''complete'', sc_received = 0, sc_retained = 0, sc_truncated = False,
     sc_started = 0, sc_finished = None\<rparr>"

definition demo_run_io :: run_io where
  "demo_run_io = \<lparr>ri_io = (\<lambda>_. sample_io), ri_faults = [], ri_attach = Inl [], ri_boot = None,
     ri_runner = Some (RunnerFailed False ''xsct exited''), ri_stop = (sample_capture, None),
     ri_hooks = \<lparr>re_ctx = (\<lambda>_. None), re_run = (\<lambda>_. None), re_task_ctx = (\<lambda>_. None)\<rparr>\<rparr>"

lemma run_ends_job_witness:
  "\<exists>j'. find_job (run demo_config (\<lambda>_. ''failed'') demo_run_io ''q'' (sample_manager sample_history)) ''q'' = Some j'
     \<and> Terminal (jb_state j')"
proof -
  have "find_job (sample_manager sample_history) ''q'' = Some (sample_job ''q'' (sample_request ''rq'' ''a'') Queued 100)"
    by (simp add: find_job_def sample_manager_def sample_history_def sample_job_def)
  from run_ends_job [OF this, of demo_config "\<lambda>_. ''failed''" demo_run_io] show ?thesis
    by (auto simp: sample_job_def Let_def)
qed

end
