(* ===== verification/JobRecovery.thy ===== *)
theory JobRecovery
  imports JobRun
begin

text \<open>
  Starting the manager on the disk a previous process left (\<open>OpenManager\<close>, \<open>load\<close>, \<open>loadEvents\<close>
  in \<open>internal/jobs/manager.go\<close>, \<open>loadTombstones\<close>, \<open>boundHistoricalOutput\<close> in
  \<open>internal/jobs/retention.go\<close>): tombstones first, then every published job, unless its request id
  has a tombstone; a job that was queued or running has failed; output of older versions is cut to
  the limits.
\<close>

subsection \<open>Reading the events file\<close>

text \<open>The scanner stops at a line longer than 1 MiB; a line that does not parse is skipped.\<close>

fun loadEvents :: "config \<Rightarrow> line list \<Rightarrow> event list" where
  "loadEvents cfg [] = []"
| "loadEvents cfg (l # ls) = (if line_size cfg l > 2 ^ 20 then []
     else (case l of Line e \<Rightarrow> e # loadEvents cfg ls | Junk _ \<Rightarrow> loadEvents cfg ls))"

definition max_sequence :: "event list \<Rightarrow> int" where
  "max_sequence es = foldl (\<lambda>n e. if ev_sequence e > n then ev_sequence e else n) 0 es"

subsection \<open>Bounding historical output\<close>

fun fitting :: "config \<Rightarrow> int \<Rightarrow> line list \<Rightarrow> line list" where
  "fitting cfg n [] = []"
| "fitting cfg n (l # ls) = (if line_size cfg l \<le> n then l # fitting cfg (n - line_size cfg l) ls else [])"

text \<open>The last line of the last 32 KiB, when it parses.\<close>

definition last_event :: "config \<Rightarrow> job_dir \<Rightarrow> event option" where
  "last_event cfg d = (if jd_torn d \<noteq> 0 \<or> jd_events d = [] then None
     else (case last (jd_events d) of
         Line e \<Rightarrow> if line_bytes cfg e \<le> 32 * 2 ^ 10 \<and> ev_sequence e \<noteq> 0 then Some e else None
       | Junk _ \<Rightarrow> None))"

definition truncation_notice :: "int \<Rightarrow> job \<Rightarrow> event" where
  "truncation_notice now j = \<lparr>ev_sequence = jb_event_count j, ev_time = now, ev_level = ''warning'',
     ev_message = ''Historical events truncated by storage retention''\<rparr>"

definition bound_events :: "config \<Rightarrow> int \<Rightarrow> job \<Rightarrow> job_dir \<Rightarrow> bool \<times> job \<times> job_dir" where
  "bound_events cfg now j d = (if events_size cfg d \<le> eventLimitBytes then (False, j, d)
     else (let e = (case last_event cfg d of Some e \<Rightarrow> e | None \<Rightarrow> truncation_notice now j) in
       (True, j\<lparr>jb_events_truncated := True\<rparr>,
        d\<lparr>jd_events := fitting cfg (eventLimitBytes - 32 * 2 ^ 10) (jd_events d)
            @ [Line (e\<lparr>ev_message := boundedText (ev_message e) 2048\<rparr>)], jd_torn := 0\<rparr>)))"

definition bound_transcript :: "config \<Rightarrow> job \<Rightarrow> job_dir \<Rightarrow> bool \<times> job \<times> job_dir" where
  "bound_transcript cfg j d = (case (jb_capture j, jd_serial d) of
       (Some c, Some n) \<Rightarrow>
         if 0 < cf_console_limit cfg \<and> cf_console_limit cfg < n
         then (True, j\<lparr>jb_capture := Some (c\<lparr>sc_truncated := True, sc_retained := cf_console_limit cfg\<rparr>)\<rparr>,
               d\<lparr>jd_serial := Some (cf_console_limit cfg)\<rparr>)
         else (False, j, d)
     | _ \<Rightarrow> (False, j, d))"

definition boundHistoricalOutput :: "config \<Rightarrow> io \<Rightarrow> bool \<Rightarrow> job \<Rightarrow> job_dir \<Rightarrow> bool \<times> job \<times> job_dir" where
  "boundHistoricalOutput cfg w budgeted j d = (if \<not> budgeted then (True, j, d)
     else (let (c1, j1, d1) = bound_events cfg (io_now w) j d; (c2, j2, d2) = bound_transcript cfg j1 d1 in
       if \<not> c1 \<and> \<not> c2 then (True, j2, d2)
       else (let (ok, d3) = publish_record cfg w budgeted (bound_record j2) d2 in (ok, bound_record j2, d3))))"

subsection \<open>Loading the published jobs\<close>

record recover_io =
  rv_io :: "string \<Rightarrow> io"
  rv_readable :: "string \<Rightarrow> bool" \<comment> \<open>the record can be read and parsed\<close>
  rv_remove :: "string \<Rightarrow> nat option"
  rv_cleanup :: cleanup_io

datatype load_failure =
    Unreadable string
  | InvalidJob string
  | TombstoneMismatch string
  | RemoveFailure string
  | InvalidJobRequestID string
  | DuplicateRequestID
  | HistoryFailure string
  | RecoveryPersist string
  | InvalidTombstone string
  | RetentionFailure cleanup_error

definition stop_text :: string where "stop_text = ''station stopped before the job completed''"

definition interrupt :: "task_result \<Rightarrow> task_result" where
  "interrupt t = (if tk_state t = TRunning
     then t\<lparr>tk_state := TInterrupted, tk_error := ''station stopped during task execution''\<rparr> else t)"

definition interrupt_capture :: "int \<Rightarrow> int option \<Rightarrow> serial_capture \<Rightarrow> serial_capture" where
  "interrupt_capture now serial c = (if sc_state c \<noteq> ''capturing'' then c
     else (let c1 = c\<lparr>sc_state := ''failed'', sc_finished := Some now\<rparr> in
       case serial of
         None \<Rightarrow> c1
       | Some n \<Rightarrow> c1\<lparr>sc_retained := n, sc_received := (if sc_received c < n then n else sc_received c)\<rparr>))"

definition recover_job :: "int \<Rightarrow> int option \<Rightarrow> job \<Rightarrow> job" where
  "recover_job now serial j = j\<lparr>jb_state := Failed, jb_finished := Some now, jb_error := stop_text,
     jb_task_results := map interrupt (jb_task_results j),
     jb_capture := map_option (interrupt_capture now serial) (jb_capture j)\<rparr>"

definition unfinished :: "job_state \<Rightarrow> bool" where
  "unfinished st \<longleftrightarrow> st = Queued \<or> st = Running"

definition adopt_job :: "config \<Rightarrow> string \<Rightarrow> job \<Rightarrow> job_dir \<Rightarrow> manager \<Rightarrow> manager" where
  "adopt_job cfg key j d m = (let es = loadEvents cfg (jd_events d) in
     m\<lparr>mg_jobs := AList.update key (j\<lparr>jb_event_count := max_sequence es\<rparr>) (mg_jobs m),
       mg_events := (mg_events m)(key := es),
       mg_event_bytes := (mg_event_bytes m)(key := events_size cfg d),
       mg_disk := AList.map_entry key (\<lambda>_. d) (mg_disk m)\<rparr>)"

definition load_job :: "config \<Rightarrow> recover_io \<Rightarrow> string \<Rightarrow> job \<Rightarrow> job_dir \<Rightarrow> manager \<Rightarrow>
    load_failure option \<times> manager" where
  "load_job cfg rv key j d m =
     (let w = rv_io rv key; (ok, j1, d1) = boundHistoricalOutput cfg w (mg_budget m \<noteq> None) j d in
      if \<not> ok then (Some (HistoryFailure key), upd_dir key (\<lambda>_. d1) m)
      else (let m1 = adopt_job cfg key j1 d1 m in
        if unfinished (jb_state j)
        then (let (done, m2) = persistLocked cfg w key (emitLocked cfg w key ''error'' stop_text
                   (upd_job key (recover_job (io_now w) (jd_serial d1)) m1))
              in (if done then None else Some (RecoveryPersist key), m2))
        else (None, m1)))"

definition load_entry :: "config \<Rightarrow> recover_io \<Rightarrow> string \<times> job_dir \<Rightarrow> manager \<Rightarrow> load_failure option \<times> manager"
where
  "load_entry cfg rv e m = (case e of (key, d) \<Rightarrow> (case jd_job d of
       None \<Rightarrow> (None, m)
     | Some (j, _) \<Rightarrow>
         (let r = rq_id (jb_request j) in
          if \<not> rv_readable rv key then (Some (Unreadable key), m)
          else if jb_id j \<noteq> key then (Some (InvalidJob key), m)
          else (case mg_expired m r of
              Some t \<Rightarrow>
                if ts_job t \<noteq> key \<or> ts_fingerprint t \<noteq> fingerprint cfg (jb_request j)
                then (Some (TombstoneMismatch key), m)
                else (case removeKnownJob (rv_remove rv key) key m of
                    (True, m1) \<Rightarrow> (None, m1) | (False, m1) \<Rightarrow> (Some (RemoveFailure key), m1))
            | None \<Rightarrow>
                if r \<noteq> [] \<and> \<not> requestIDPattern r then (Some (InvalidJobRequestID key), m)
                else if r \<noteq> [] \<and> mg_submissions m r \<noteq> None then (Some DuplicateRequestID, m)
                else load_job cfg rv key j d
                  (if r = [] then m else m\<lparr>mg_submissions := (mg_submissions m)(r \<mapsto> key)\<rparr>)))))"

fun load_jobs :: "config \<Rightarrow> recover_io \<Rightarrow> (string \<times> job_dir) list \<Rightarrow> manager \<Rightarrow> load_failure option \<times> manager"
where
  "load_jobs cfg rv [] m = (None, m)"
| "load_jobs cfg rv (e # es) m = (case load_entry cfg rv e m of
       (Some f, m') \<Rightarrow> (Some f, m')
     | (None, m') \<Rightarrow> load_jobs cfg rv es m')"

subsection \<open>Loading the tombstones\<close>

record tombstone_file =
  tf_name :: string
  tf_dir :: bool
  tf_content :: "tombstone option" \<comment> \<open>when it can be read and parsed\<close>

definition trim_json :: "string \<Rightarrow> string" where
  "trim_json s = (if suffix ''.json'' s then take (length s - 5) s else s)"

definition is_hex :: "char \<Rightarrow> bool" where
  "is_hex c \<longleftrightarrow> is_digit c \<or> (let n = of_char c :: nat in (65 \<le> n \<and> n \<le> 70) \<or> (97 \<le> n \<and> n \<le> 102))"

fun load_tombstones :: "tombstone_file list \<Rightarrow> (string \<rightharpoonup> tombstone) \<Rightarrow> string + (string \<rightharpoonup> tombstone)" where
  "load_tombstones [] acc = Inr acc"
| "load_tombstones (f # fs) acc =
     (if prefix ''.submission-'' (tf_name f) then load_tombstones fs acc
      else (let key = trim_json (tf_name f) in
        if \<not> requestIDPattern key \<or> tf_dir f then Inl key
        else (case tf_content f of
            None \<Rightarrow> Inl key
          | Some t \<Rightarrow>
              if \<not> requestIDPattern (ts_job t) \<or> length (ts_fingerprint t) \<noteq> 64
                 \<or> \<not> list_all is_hex (ts_fingerprint t) then Inl key
              else load_tombstones fs (acc(key \<mapsto> t)))))"

definition tombstone_files :: "(string \<times> tombstone) list \<Rightarrow> tombstone_file list" where
  "tombstone_files ts = map (\<lambda>(r, t). \<lparr>tf_name = r @ ''.json'', tf_dir = False, tf_content = Some t\<rparr>) ts"

subsection \<open>OpenManager\<close>

text \<open>A new process: the memory is empty, the disk is as it was.\<close>

definition fresh_memory :: "int option \<Rightarrow> manager \<Rightarrow> manager" where
  "fresh_memory limit m = m\<lparr>mg_jobs := [], mg_events := (\<lambda>_. []), mg_event_bytes := (\<lambda>_. 0),
     mg_subscribers := (\<lambda>_. []), mg_channels := [], mg_cancellers := [], mg_canceled := [],
     mg_submissions := (\<lambda>_. None), mg_expired := (\<lambda>_. None), mg_queue := [],
     mg_admission_error := False, mg_closed := False, mg_panic := False,
     mg_budget := map_option new_gate limit, mg_pins := []\<rparr>"

definition OpenManager :: "config \<Rightarrow> recover_io \<Rightarrow> int option \<Rightarrow> manager \<Rightarrow> load_failure option \<times> manager" where
  "OpenManager cfg rv limit disk =
     (let m0 = fresh_memory limit disk in
      case load_tombstones (tombstone_files (mg_tombstones disk)) (\<lambda>_. None) of
        Inl key \<Rightarrow> (Some (InvalidTombstone key), m0)
      | Inr expired \<Rightarrow>
          (case load_jobs cfg rv (mg_disk disk) (m0\<lparr>mg_expired := expired\<rparr>) of
            (Some f, m1) \<Rightarrow> (Some f, m1)
          | (None, m1) \<Rightarrow> (case initializeRetention cfg (rv_cleanup rv) m1 of
              (Some e, m2) \<Rightarrow> (Some (RetentionFailure e), m2)
            | (None, m2) \<Rightarrow> (None, m2))))"

end
