(* ===== verification/Transition.thy ===== *)
theory Transition
  imports Prelude
begin

text \<open>
  Systems that take steps: the states reachable from a start, and the two arguments the components
  with a state machine use: an invariant that every step keeps, and a fact that stays true once it
  is true.
\<close>

inductive reach :: "('s \<Rightarrow> bool) \<Rightarrow> ('s \<Rightarrow> 's \<Rightarrow> bool) \<Rightarrow> 's \<Rightarrow> bool" for start :: "'s \<Rightarrow> bool" and move :: "'s \<Rightarrow> 's \<Rightarrow> bool"
where
  reach_start: "start s \<Longrightarrow> reach start move s"
| reach_move: "reach start move s \<Longrightarrow> move s s' \<Longrightarrow> reach start move s'"

inductive_cases reachE: "reach start move s"

locale step_invariant =
  fixes start :: "'s \<Rightarrow> bool" and move :: "'s \<Rightarrow> 's \<Rightarrow> bool" and invariant :: "'s \<Rightarrow> bool"
  assumes established: "start s \<Longrightarrow> invariant s"
    and preserved: "invariant s \<Longrightarrow> move s s' \<Longrightarrow> invariant s'"
begin

lemma reached: "reach start move s \<Longrightarrow> invariant s"
  by (induction rule: reach.induct) (blast intro: established preserved)+

lemma onward: "move\<^sup>*\<^sup>* s s' \<Longrightarrow> invariant s \<Longrightarrow> invariant s'"
  by (induction rule: rtranclp_induct) (blast intro: preserved)+

end

locale stable_fact = step_invariant +
  fixes fact :: "'s \<Rightarrow> bool"
  assumes stays: "invariant s \<Longrightarrow> fact s \<Longrightarrow> move s s' \<Longrightarrow> fact s'"
begin

lemma stable: "reach start move s \<Longrightarrow> move\<^sup>*\<^sup>* s s' \<Longrightarrow> fact s \<Longrightarrow> fact s'"
proof -
  assume r: "reach start move s" and f: "fact s"
  assume "move\<^sup>*\<^sup>* s s'"
  then have "invariant s' \<and> fact s'"
    by (induction rule: rtranclp_induct) (use r f reached stays preserved in blast)+
  then show ?thesis by blast
qed

end

end
