(* ===== verification/JobSystem.thy ===== *)
theory JobSystem
  imports JobRecovery Transition
begin

text \<open>
  The job manager as a concurrent system (\<open>internal/jobs\<close>): the worker, one submission at a time
  (they share \<open>submissionMutex\<close>), any number of clients that cancel and subscribe, cleanups, and a
  crash with a restart on the same disk at any moment.  A step is one critical section; what the
  disk, the runner, the tasks and the clock do is chosen freely.  The log of started runs is a
  history variable.  The theorems about its
  reachable states are in \<open>JobSafety\<close>.
\<close>

subsection \<open>The steps\<close>

datatype worker =
    Idle
  | Exited
  | Loading string request
  | Starting string request
  | Deploying string request bool "task_result list"
  | Captured string request "failure option"
  | Deciding string request "failure option"
  | Hooking string request "failure option" "task_result list" "run_error option"
  | Closing string request "failure option"
  | Retiring

datatype creator =
    Resting
  | Checked request
  | Admitted request
  | Validated request
  | Inserted string request

record system =
  sy_mgr :: manager
  sy_worker :: worker
  sy_creator :: creator
  sy_log :: "string list" \<comment> \<open>the request ids of the runs started so far, newest last\<close>

definition with_mgr :: "system \<Rightarrow> manager \<Rightarrow> system" where
  "with_mgr s m = s\<lparr>sy_mgr := m\<rparr>"

definition with_worker :: "system \<Rightarrow> manager \<Rightarrow> worker \<Rightarrow> system" where
  "with_worker s m w = s\<lparr>sy_mgr := m, sy_worker := w\<rparr>"

definition with_creator :: "system \<Rightarrow> manager \<Rightarrow> creator \<Rightarrow> system" where
  "with_creator s m c = s\<lparr>sy_mgr := m, sy_creator := c\<rparr>"

definition started :: "manager \<Rightarrow> string list \<Rightarrow> system" where
  "started m hist = \<lparr>sy_mgr = m, sy_worker = Idle, sy_creator = Resting, sy_log = hist\<rparr>"

fun busy :: "worker \<Rightarrow> string option" where
  "busy (Loading k _) = Some k" | "busy (Starting k _) = Some k" | "busy (Deploying k _ _ _) = Some k"
| "busy (Captured k _ _) = Some k" | "busy (Deciding k _ _) = Some k"
| "busy (Hooking k _ _ _ _) = Some k" | "busy (Closing k _ _) = Some k"
| "busy _ = None"

inductive step :: "config \<Rightarrow> texts \<Rightarrow> system \<Rightarrow> system \<Rightarrow> bool" for cfg :: config and tx :: texts
where
  \<comment> \<open>the worker\<close>
  start: "sy_worker s = Idle \<Longrightarrow> mg_queue (sy_mgr s) = key # rest \<Longrightarrow>
    run_start cfg w key ((sy_mgr s)\<lparr>mg_queue := rest\<rparr>) = (Some r, m') \<Longrightarrow>
    step cfg tx s (with_worker s m' (Loading key r)\<lparr>sy_log := sy_log s @ [rq_id r]\<rparr>)"
| skip: "sy_worker s = Idle \<Longrightarrow> mg_queue (sy_mgr s) = key # rest \<Longrightarrow>
    run_start cfg w key ((sy_mgr s)\<lparr>mg_queue := rest\<rparr>) = (None, m') \<Longrightarrow>
    step cfg tx s (with_worker s m' Idle)"
| exit_worker: "sy_worker s = Idle \<Longrightarrow> mg_closed (sy_mgr s) \<Longrightarrow> step cfg tx s (with_worker s (sy_mgr s) Exited)"
| load_failed: "sy_worker s = Loading key r \<Longrightarrow> run_load cfg faults r (sy_mgr s) = Some f \<Longrightarrow>
    step cfg tx s (with_worker s (sy_mgr s) (Deciding key r (Some f)))"
| loaded: "sy_worker s = Loading key r \<Longrightarrow> run_load cfg faults r (sy_mgr s) = None \<Longrightarrow>
    step cfg tx s (with_worker s (run_warn_manual cfg w key r (sy_mgr s)) (Starting key r))"
| no_capture: "sy_worker s = Starting key r \<Longrightarrow> rq_serial r = None \<Longrightarrow>
    step cfg tx s (with_worker s (sy_mgr s) (Deploying key r False []))"
| capture_failed: "sy_worker s = Starting key r \<Longrightarrow> rq_serial r = Some sr \<Longrightarrow>
    step cfg tx s (with_worker s (sy_mgr s) (Deciding key r (Some (CaptureFailed t))))"
| capture_started: "sy_worker s = Starting key r \<Longrightarrow> rq_serial r = Some sr \<Longrightarrow> cf_console cfg \<Longrightarrow>
    step cfg tx s (with_worker s (run_capture_started cfg w key c baud (sy_mgr s)) (Deploying key r True []))"
| boot_hook: "sy_worker s = Deploying key r cap [] \<Longrightarrow>
    step cfg tx s (with_worker s (sy_mgr s) (Deploying key r cap (fst (phase_tasks cfg env r BeforeBoot))))"
| boot_observe: "sy_worker s = Deploying key r cap (t # ts) \<Longrightarrow>
    step cfg tx s (with_worker s (run_observe cfg w key t (sy_mgr s)) (Deploying key r cap ts))"
| message: "busy (sy_worker s) = Some key \<Longrightarrow>
    step cfg tx s (with_mgr s (emit cfg w key level text (sy_mgr s)))"
| executed: "sy_worker s = Deploying key r False ts \<Longrightarrow>
    step cfg tx s (with_worker s (sy_mgr s) (Deciding key r err))"
| executed_captured: "sy_worker s = Deploying key r True ts \<Longrightarrow>
    step cfg tx s (with_worker s (sy_mgr s) (Captured key r err))"
| capture_stopped: "sy_worker s = Captured key r err \<Longrightarrow> err' = (if err = None then stop_err else err) \<Longrightarrow>
    step cfg tx s (with_worker s (run_capture_stopped cfg w key c (sy_mgr s)) (Deciding key r err'))"
| decide: "sy_worker s = Deciding key r err0 \<Longrightarrow> err = with_context key (sy_mgr s) err0 \<Longrightarrow>
    phase_tasks cfg env r (fst (outcome_phase err)) = (obs, herr) \<Longrightarrow>
    step cfg tx s (with_worker s (run_outcome cfg tx w key err (sy_mgr s)) (Hooking key r err obs herr))"
| hook_observe: "sy_worker s = Hooking key r err (t # ts) herr \<Longrightarrow>
    step cfg tx s (with_worker s (run_observe cfg w key t (sy_mgr s)) (Hooking key r err ts herr))"
| hooks_passed: "sy_worker s = Hooking key r err [] None \<Longrightarrow>
    step cfg tx s (with_worker s (sy_mgr s) (Closing key r err))"
| hooks_failed: "sy_worker s = Hooking key r err [] (Some e) \<Longrightarrow>
    step cfg tx s (with_worker s (run_hook_failed cfg tx w key e (sy_mgr s))
      (Closing key r (if err = None then Some (HookFailed e) else err)))"
| finish: "sy_worker s = Closing key r err \<Longrightarrow>
    step cfg tx s (with_worker s (run_finish cfg tx w key err (sy_mgr s)) Retiring)"
| retire: "sy_worker s = Retiring \<Longrightarrow>
    step cfg tx s (with_worker s (retentionAfterCompletion cfg ci (sy_mgr s)) Idle)"
  \<comment> \<open>one submission\<close>
| check: "sy_creator s = Resting \<Longrightarrow> submit_check cfg r (sy_mgr s) = Admit \<Longrightarrow>
    step cfg tx s (with_creator s (sy_mgr s) (Checked r))"
| admitted: "sy_creator s = Checked r \<Longrightarrow> submit_admit cfg ci r (sy_mgr s) = (None, m') \<Longrightarrow>
    step cfg tx s (with_creator s m' (Admitted r))"
| not_admitted: "sy_creator s = Checked r \<Longrightarrow> submit_admit cfg ci r (sy_mgr s) = (Some e, m') \<Longrightarrow>
    step cfg tx s (with_creator s (unpin r m') Resting)"
| validated: "sy_creator s = Admitted r \<Longrightarrow> create_validate cfg faults r (sy_mgr s) = None \<Longrightarrow>
    step cfg tx s (with_creator s (sy_mgr s) (Validated r))"
| not_validated: "sy_creator s = Admitted r \<Longrightarrow> create_validate cfg faults r (sy_mgr s) = Some e \<Longrightarrow>
    step cfg tx s (with_creator s (unpin r (sy_mgr s)) Resting)"
| inserted: "sy_creator s = Validated r \<Longrightarrow> create_insert cfg w random r (sy_mgr s) = (Inr (key, j), m') \<Longrightarrow>
    step cfg tx s (with_creator s m' (Inserted key r))"
| not_inserted: "sy_creator s = Validated r \<Longrightarrow> create_insert cfg w random r (sy_mgr s) = (Inl e, m') \<Longrightarrow>
    step cfg tx s (with_creator s (unpin r m') Resting)"
| enqueued: "sy_creator s = Inserted key r \<Longrightarrow> mg_closed (sy_mgr s) \<and> skip \<or> length (mg_queue (sy_mgr s)) < 128 \<Longrightarrow>
    step cfg tx s (with_creator s (unpin r (submit_reserve cfg key (create_enqueue skip key (sy_mgr s)))) Resting)"
  \<comment> \<open>clients, retention, other components\<close>
| cancel: "step cfg tx s (with_mgr s (snd (cancel_section cfg w key (sy_mgr s))))"
| retention: "step cfg tx s (with_mgr s (retentionAfterCompletion cfg ci (sy_mgr s)))"
| cleanup: "mg_budget (sy_mgr s) \<noteq> None \<Longrightarrow>
    step cfg tx s (with_mgr s (snd (snd (cleanupLocked cfg ci apply need (sy_mgr s)))))"
| subscribe: "step cfg tx s (with_mgr s (snd (Subscribe (sy_mgr s) key after)))"
| unsubscribe: "step cfg tx s (with_mgr s (Unsubscribe key h (sy_mgr s)))"
| deliver_next: "step cfg tx s (with_mgr s (receive h (sy_mgr s)))"
| close: "step cfg tx s (with_mgr s ((sy_mgr s)\<lparr>mg_closed := True\<rparr>))"
| outside: "step cfg tx s (with_mgr s ((sy_mgr s)\<lparr>mg_store := so, mg_other := es\<rparr>))"
  \<comment> \<open>the process dies and the station is started again\<close>
| restart: "OpenManager cfg rv limit (sy_mgr s) = (None, m') \<Longrightarrow>
    step cfg tx s (started m' (sy_log s))"

text \<open>The first start finds a disk without jobs.\<close>

definition blank :: "store \<Rightarrow> entry list \<Rightarrow> manager" where
  "blank so es = \<lparr>mg_jobs = [], mg_events = (\<lambda>_. []), mg_event_bytes = (\<lambda>_. 0),
     mg_subscribers = (\<lambda>_. []), mg_channels = [], mg_cancellers = [], mg_canceled = [],
     mg_submissions = (\<lambda>_. None), mg_expired = (\<lambda>_. None), mg_queue = [],
     mg_admission_error = False, mg_closed = False, mg_panic = False, mg_disk = [],
     mg_tombstones = [], mg_store = so, mg_budget = None, mg_pins = [], mg_other = es\<rparr>"

inductive first_start :: "config \<Rightarrow> system \<Rightarrow> bool" for cfg :: config where
  first: "OpenManager cfg rv limit (blank so es) = (None, m) \<Longrightarrow> first_start cfg (started m [])"

abbreviation reachable :: "config \<Rightarrow> texts \<Rightarrow> system \<Rightarrow> bool" where
  "reachable cfg tx \<equiv> reach (first_start cfg) (step cfg tx)"

subsection \<open>The books of the manager\<close>

text \<open>How the job map, the submission and tombstone maps and the disk agree.\<close>

definition keyed :: "manager \<Rightarrow> bool" where
  "keyed m \<longleftrightarrow> (\<forall>k i q st. view m k = Some (i, q, st) \<longrightarrow> i = k \<and> (rq_id q = [] \<or> requestIDPattern (rq_id q)))
     \<and> distinct (map fst (mg_jobs m)) \<and> distinct (map fst (mg_disk m))
     \<and> (\<forall>k. view m k \<noteq> None \<longrightarrow> map_of (mg_disk m) k \<noteq> None)"

definition ids_agree :: "manager \<Rightarrow> bool" where
  "ids_agree m \<longleftrightarrow> (\<forall>r k. mg_submissions m r = Some k \<longrightarrow> r \<noteq> [] \<and> (\<exists>i q st. view m k = Some (i, q, st) \<and> rq_id q = r))
     \<and> (\<forall>k i q st. view m k = Some (i, q, st) \<and> rq_id q \<noteq> [] \<longrightarrow>
          mg_submissions m (rq_id q) = Some k \<or> mg_expired m (rq_id q) \<noteq> None)
     \<and> (\<forall>k i q st. view m k = Some (i, q, st) \<and> mg_expired m (rq_id q) \<noteq> None \<longrightarrow> Terminal st)
     \<and> (\<forall>r. mg_expired m r \<noteq> None \<longrightarrow> mg_submissions m r = None) \<and> mg_expired m [] = None"

definition durable :: "manager \<Rightarrow> bool" where
  "durable m \<longleftrightarrow> (\<forall>r. mg_expired m r \<noteq> None \<longrightarrow> map_of (mg_tombstones m) r \<noteq> None \<and> requestIDPattern r)
     \<and> (\<forall>k i q st. view m k = Some (i, q, st) \<and> rq_id q \<noteq> [] \<longrightarrow>
          disk_view m k = Some (k, q) \<or> mg_expired m (rq_id q) \<noteq> None)"

definition books :: "manager \<Rightarrow> bool" where
  "books m \<longleftrightarrow> keyed m \<and> ids_agree m \<and> durable m"

text \<open>Every run in the log is accounted for: its request id is expired, or belongs to a job that
  is no longer queued.\<close>

definition spent :: "manager \<Rightarrow> string \<Rightarrow> bool" where
  "spent m r \<longleftrightarrow> mg_expired m r \<noteq> None
     \<or> (\<exists>k i q st. view m k = Some (i, q, st) \<and> rq_id q = r \<and> st \<noteq> Queued)"

definition accounted :: "manager \<Rightarrow> string list \<Rightarrow> bool" where
  "accounted m hist \<longleftrightarrow> distinct (filter (\<lambda>r. r \<noteq> []) hist)
     \<and> (\<forall>r \<in> set hist. r \<noteq> [] \<longrightarrow> spent m r)"

lemma accounted_mono:
  assumes "accounted m hist" "\<And>r. r \<noteq> [] \<Longrightarrow> spent m r \<Longrightarrow> spent m' r"
  shows "accounted m' hist"
  using assms by (simp add: accounted_def)

lemma keyed_well_keyed: "keyed m \<Longrightarrow> well_keyed m"
proof -
  assume k: "keyed m"
  have "jb_id j = key" if "find_job m key = Some j" for key j
  proof -
    have "view m key = Some (jb_id j, jb_request j, jb_state j)" using that by (simp add: view_find)
    with k show ?thesis unfolding keyed_def by blast
  qed
  with k show ?thesis by (simp add: well_keyed_def keyed_def)
qed

lemma books_well_keyed: "books m \<Longrightarrow> well_keyed m"
  by (simp add: books_def keyed_well_keyed)

lemma books_ids_known: "books m \<Longrightarrow> ids_known m"
  unfolding books_def ids_agree_def ids_known_def view_Some by blast

text \<open>A section that keeps the frame, and on the disk republishes at most the same request.\<close>

definition logs_only :: "manager \<Rightarrow> manager \<Rightarrow> bool" where
  "logs_only m m' \<longleftrightarrow> same_frame m m' \<and> (\<forall>k. disk_view m' k = disk_view m k
     \<or> (\<exists>i q st. view m k = Some (i, q, st) \<and> disk_view m' k = Some (i, q)))"

lemma same_keys: "map fst xs = map fst ys \<Longrightarrow> map_of xs k = None \<longleftrightarrow> map_of ys k = None"
  by (metis map_of_eq_None_iff set_map)

lemma books_logs_only:
  assumes "logs_only m m'" "books m"
  shows "books m'"
proof -
  have f: "view m' = view m" "map fst (mg_jobs m') = map fst (mg_jobs m)"
    "map fst (mg_disk m') = map fst (mg_disk m)" "mg_submissions m' = mg_submissions m"
    "mg_expired m' = mg_expired m" "mg_tombstones m' = mg_tombstones m"
    using assms(1) by (simp_all add: logs_only_def same_frame_def)
  have keyed: "keyed m" and ids: "ids_agree m" and dur: "durable m"
    using assms(2) by (simp_all add: books_def)
  have "keyed m'"
    using keyed unfolding keyed_def f same_keys [OF f(3)] by blast
  moreover have "ids_agree m'" using ids unfolding ids_agree_def f .
  moreover have "durable m'"
    unfolding durable_def f
  proof (intro conjI allI impI)
    fix r assume "mg_expired m r \<noteq> None"
    with dur show "map_of (mg_tombstones m) r \<noteq> None" "requestIDPattern r" by (simp_all add: durable_def)
  next
    fix k i q st assume v: "view m k = Some (i, q, st) \<and> rq_id q \<noteq> []"
    with dur have "disk_view m k = Some (k, q) \<or> mg_expired m (rq_id q) \<noteq> None" by (simp add: durable_def)
    moreover have "i = k" using keyed v by (auto simp: keyed_def)
    moreover have "disk_view m' k = disk_view m k \<or> disk_view m' k = Some (i, q)"
      using assms(1) v by (auto simp: logs_only_def)
    ultimately show "disk_view m' k = Some (k, q) \<or> mg_expired m (rq_id q) \<noteq> None" by auto
  qed
  ultimately show ?thesis by (simp add: books_def)
qed

lemma accounted_frame: "same_frame m m' \<Longrightarrow> accounted m hist \<Longrightarrow> accounted m' hist"
  by (simp add: accounted_def spent_def same_frame_def)

lemma logs_only_refl [simp]: "logs_only m m"
  by (simp add: logs_only_def)

lemma logs_only_trans: "logs_only m m' \<Longrightarrow> logs_only m' m'' \<Longrightarrow> logs_only m m''"
  unfolding logs_only_def same_frame_def by metis

lemma logs_only_emitLocked: "logs_only m (emitLocked cfg w key level message m)"
  by (simp add: logs_only_def same_frame_emitLocked)

lemma logs_only_emit: "logs_only m (emit cfg w key level message m)"
  by (simp add: logs_only_def same_frame_emit)

lemma logs_only_close: "logs_only m (closeSubscribersLocked key m)"
  by (simp add: logs_only_def same_frame_close)

lemma logs_only_persist: "logs_only m (persist cfg w key m)"
proof (cases "find_job m key")
  case None
  then have "disk_view (persist cfg w key m) = disk_view m"
    by (intro disk_view_cong) (simp add: persist_def persistLocked_def)
  then show ?thesis by (simp add: logs_only_def same_frame_persist)
next
  case (Some j)
  then have "view m key = Some (jb_id j, jb_request j, jb_state j)" by (simp add: view_find)
  then show ?thesis
    using disk_view_persist [OF Some, of cfg w] by (auto simp: logs_only_def same_frame_persist)
qed

lemma logs_only_upd_job:
  assumes "\<And>j. find_job m key = Some j \<Longrightarrow> jb_id (f j) = jb_id j \<and> jb_request (f j) = jb_request j
    \<and> jb_state (f j) = jb_state j"
  shows "logs_only m (upd_job key f m)"
  by (simp add: logs_only_def same_frame_upd_job [OF assms])

text \<open>A section that moves one job to another state, ended jobs staying ended.\<close>

definition moves :: "string \<Rightarrow> job_state \<Rightarrow> manager \<Rightarrow> manager \<Rightarrow> bool" where
  "moves key st' m m' \<longleftrightarrow> (\<exists>q st. view m key = Some (key, q, st) \<and> (Terminal st \<longrightarrow> Terminal st')
       \<and> view m' = (view m)(key \<mapsto> (key, q, st')))
     \<and> map fst (mg_jobs m') = map fst (mg_jobs m) \<and> map fst (mg_disk m') = map fst (mg_disk m)
     \<and> mg_submissions m' = mg_submissions m \<and> mg_expired m' = mg_expired m
     \<and> mg_tombstones m' = mg_tombstones m \<and> disk_view m' = disk_view m"

lemma books_moves:
  assumes "moves key st' m m'" "books m"
  shows "books m'"
proof -
  from assms(1) obtain q st where v: "view m key = Some (key, q, st)" "Terminal st \<longrightarrow> Terminal st'"
    and v': "view m' = (view m)(key \<mapsto> (key, q, st'))"
    and f: "map fst (mg_jobs m') = map fst (mg_jobs m)" "map fst (mg_disk m') = map fst (mg_disk m)"
      "mg_submissions m' = mg_submissions m" "mg_expired m' = mg_expired m"
      "mg_tombstones m' = mg_tombstones m" "disk_view m' = disk_view m"
    by (auto simp: moves_def)
  have keyed: "keyed m" and ids: "ids_agree m" and dur: "durable m"
    using assms(2) by (simp_all add: books_def)
  have bwd: "\<exists>i s. view m k = Some (i, q', s) \<and> i = i' \<and> (Terminal s \<longrightarrow> Terminal s')"
    if "view m' k = Some (i', q', s')" for k i' q' s'
    using that v by (auto simp: v' split: if_splits)
  have fwd: "\<exists>s'. view m' k = Some (i, q', s')" if "view m k = Some (i, q', s)" for k i q' s
    using that v by (auto simp: v')
  have "keyed m'"
    unfolding keyed_def f same_keys [OF f(2)]
  proof (intro conjI allI impI)
    fix k i q' s assume "view m' k = Some (i, q', s)"
    from bwd [OF this] keyed show "i = k" "rq_id q' = [] \<or> requestIDPattern (rq_id q')" unfolding keyed_def by blast+
  next
    fix k assume "view m' k \<noteq> None"
    then obtain i q' s where "view m' k = Some (i, q', s)" by (metis option.exhaust surj_pair)
    from bwd [OF this] keyed show "map_of (mg_disk m) k \<noteq> None" unfolding keyed_def by (metis option.distinct(1))
  qed (use keyed in \<open>simp_all add: keyed_def\<close>)
  moreover have "ids_agree m'"
    unfolding ids_agree_def f
  proof (intro conjI allI impI)
    fix r k assume "mg_submissions m r = Some k"
    then show "r \<noteq> []" "\<exists>i q st. view m' k = Some (i, q, st) \<and> rq_id q = r"
      using ids fwd unfolding ids_agree_def by metis+
  next
    fix k i q' s assume a: "view m' k = Some (i, q', s) \<and> rq_id q' \<noteq> []"
    then show "mg_submissions m (rq_id q') = Some k \<or> mg_expired m (rq_id q') \<noteq> None"
      using ids bwd unfolding ids_agree_def by metis
  next
    fix k i q' s assume a: "view m' k = Some (i, q', s) \<and> mg_expired m (rq_id q') \<noteq> None"
    then show "Terminal s" using ids bwd unfolding ids_agree_def by metis
  next
    fix r assume "mg_expired m r \<noteq> None"
    then show "mg_submissions m r = None" using ids unfolding ids_agree_def by metis
  qed (use ids in \<open>simp add: ids_agree_def\<close>)
  moreover have "durable m'"
    unfolding durable_def f using dur bwd unfolding durable_def by metis
  ultimately show ?thesis by (simp add: books_def)
qed

lemma accounted_moves:
  assumes "moves key st' m m'" "st' \<noteq> Queued" "accounted m hist"
  shows "accounted m' hist"
proof -
  from assms(1) obtain q st where v: "view m key = Some (key, q, st)"
    and v': "view m' = (view m)(key \<mapsto> (key, q, st'))" and e: "mg_expired m' = mg_expired m"
    by (auto simp: moves_def)
  have "spent m' r" if sp: "spent m r" for r
  proof (cases "mg_expired m r = None")
    case True
    with sp obtain k i q' s where o: "view m k = Some (i, q', s)" "rq_id q' = r" "s \<noteq> Queued"
      by (auto simp: spent_def)
    then have "\<exists>s'. view m' k = Some (i, q', s') \<and> s' \<noteq> Queued"
      using v assms(2) by (cases "k = key") (auto simp: v')
    with o show ?thesis unfolding spent_def by blast
  qed (simp add: spent_def e)
  then show ?thesis by (rule accounted_mono [OF assms(3)])
qed

text \<open>A cleanup keeps the books.\<close>

lemma found_pruned:
  assumes "keyed m" "j \<in> pruned m"
  shows "view m (jb_id j) = Some (jb_id j, jb_request j, jb_state j)" "Terminal (jb_state j)"
proof -
  have "well_keyed m" using assms(1) by (rule keyed_well_keyed)
  from pruned_found [OF this assms(2)] show "view m (jb_id j) = Some (jb_id j, jb_request j, jb_state j)"
    "Terminal (jb_state j)" by (auto simp: view_Some)
qed

lemma cleaned_view:
  assumes "cleaned cfg (pruned m) m m'" "keyed m"
  shows "view m' k = view m k \<or> (view m' k = None \<and> (\<exists>q st. view m k = Some (k, q, st) \<and> Terminal st
      \<and> (rq_id q = [] \<or> (mg_expired m' (rq_id q) \<noteq> None))))"
proof -
  have "find_job m' k = find_job m k \<or> (find_job m' k = None \<and> (\<exists>j \<in> pruned m. jb_id j = k \<and> buried m' j))"
    using assms(1) unfolding cleaned_def cleaned_jobs_def by blast
  then show ?thesis
  proof
    assume "find_job m' k = find_job m k"
    then show ?thesis by (simp add: view_find)
  next
    assume "find_job m' k = None \<and> (\<exists>j \<in> pruned m. jb_id j = k \<and> buried m' j)"
    then obtain j where j: "find_job m' k = None" "j \<in> pruned m" "jb_id j = k" "buried m' j" by blast
    from found_pruned [OF assms(2) j(2)] j show ?thesis by (auto simp: view_None buried_def)
  qed
qed

lemma cleaned_expired:
  assumes "cleaned cfg (pruned m) m m'" "keyed m"
  shows "mg_expired m' r = mg_expired m r \<or> (r \<noteq> [] \<and> mg_submissions m' r = None \<and> map_of (mg_tombstones m') r \<noteq> None
    \<and> (\<exists>k q st. view m k = Some (k, q, st) \<and> Terminal st \<and> rq_id q = r))"
proof -
  from assms(1) have "mg_expired m' r = mg_expired m r \<or> (\<exists>j \<in> pruned m. rq_id (jb_request j) = r \<and> r \<noteq> []
        \<and> mg_expired m' r = Some (tombstone_of cfg j) \<and> map_of (mg_tombstones m') r \<noteq> None
        \<and> mg_submissions m' r = None)"
    unfolding cleaned_def cleaned_ids_def by blast
  with found_pruned [OF assms(2)] show ?thesis by blast
qed

lemma cleaned_submissions:
  assumes "cleaned cfg T m m'"
  shows "mg_submissions m' r = mg_submissions m r \<or> (mg_submissions m' r = None \<and> r \<noteq> [] \<and> mg_expired m' r \<noteq> None)"
    and "mg_expired m r \<noteq> None \<Longrightarrow> mg_expired m' r \<noteq> None"
    and "map_of (mg_tombstones m) r \<noteq> None \<Longrightarrow> map_of (mg_tombstones m') r \<noteq> None"
  using assms unfolding cleaned_def cleaned_ids_def by (blast, metis option.distinct(1), metis option.distinct(1))

lemma books_cleaned:
  assumes c: "cleaned cfg (pruned m) m m'" and b: "books m" and dirs: "dirs_ok m \<longrightarrow> dirs_ok m'"
  shows "books m'"
proof -
  have keyed: "keyed m" and ids: "ids_agree m" and dur: "durable m"
    using b by (simp_all add: books_def)
  note vw = cleaned_view [OF c keyed] and ex = cleaned_expired [OF c keyed] and su = cleaned_submissions [OF c]
  have view': "view m k = Some v" if "view m' k = Some v" for k v using vw [of k] that by auto
  have "dirs_ok m" using keyed by (auto simp: keyed_def dirs_ok_def view_None)
  with dirs have dirs': "dirs_ok m'" by blast
  have "keyed m'"
    unfolding keyed_def
  proof (intro conjI allI impI)
    fix k i q st assume "view m' k = Some (i, q, st)"
    from view' [OF this] keyed show "i = k" "rq_id q = [] \<or> requestIDPattern (rq_id q)" unfolding keyed_def by blast+
  next
    fix k assume "view m' k \<noteq> None"
    with dirs' show "map_of (mg_disk m') k \<noteq> None" by (simp add: dirs_ok_def view_None)
  qed (use c keyed in \<open>auto simp: cleaned_def cleaned_jobs_def keyed_def\<close>)
  moreover have "ids_agree m'"
    unfolding ids_agree_def
  proof (intro conjI allI impI)
    fix r k assume s: "mg_submissions m' r = Some k"
    then have "mg_submissions m r = Some k" using su(1) [of r] by auto
    with ids obtain i q st where r: "r \<noteq> []" and v: "view m k = Some (i, q, st)" "rq_id q = r"
      unfolding ids_agree_def by metis
    show "r \<noteq> []" by fact
    have "mg_expired m' r = None"
    proof (rule ccontr)
      assume "mg_expired m' r \<noteq> None"
      with ex [of r] s have "mg_expired m r \<noteq> None" by auto
      with ids \<open>mg_submissions m r = Some k\<close> show False unfolding ids_agree_def by (metis option.distinct(1))
    qed
    with vw [of k] v r have "view m' k = view m k" by auto
    with v show "\<exists>i q st. view m' k = Some (i, q, st) \<and> rq_id q = r" by simp
  next
    fix k i q st assume a: "view m' k = Some (i, q, st) \<and> rq_id q \<noteq> []"
    with view' ids have "mg_submissions m (rq_id q) = Some k \<or> mg_expired m (rq_id q) \<noteq> None"
      unfolding ids_agree_def by blast
    with su show "mg_submissions m' (rq_id q) = Some k \<or> mg_expired m' (rq_id q) \<noteq> None" by metis
  next
    fix k i q st assume a: "view m' k = Some (i, q, st) \<and> mg_expired m' (rq_id q) \<noteq> None"
    with view' have v: "view m k = Some (i, q, st)" by blast
    show "Terminal st"
    proof (cases "mg_expired m (rq_id q) = None")
      case False
      with ids v show ?thesis unfolding ids_agree_def by blast
    next
      case True
      with ex [of "rq_id q"] a obtain k' q' st' where o: "rq_id q \<noteq> []" "view m k' = Some (k', q', st')"
        "Terminal st'" "rq_id q' = rq_id q" by auto
      with ids True v have "mg_submissions m (rq_id q) = Some k" "mg_submissions m (rq_id q) = Some k'"
        unfolding ids_agree_def by metis+
      with o v show ?thesis by simp
    qed
  next
    fix r assume e: "mg_expired m' r \<noteq> None"
    show "mg_submissions m' r = None"
    proof (cases "mg_expired m' r = mg_expired m r")
      case True
      with e ids have "mg_submissions m r = None" unfolding ids_agree_def by metis
      with su(1) [of r] show ?thesis by auto
    next
      case False
      with ex [of r] show ?thesis by blast
    qed
  next
    show "mg_expired m' [] = None" using ex [of "[]"] ids by (auto simp: ids_agree_def)
  qed
  moreover have "durable m'"
    unfolding durable_def
  proof (intro conjI allI impI)
    fix r assume e: "mg_expired m' r \<noteq> None"
    with ex [of r] su(3) [of r] dur show "map_of (mg_tombstones m') r \<noteq> None"
      unfolding durable_def by metis
    from e ex [of r] dur keyed show "requestIDPattern r"
      unfolding durable_def keyed_def by metis
  next
    fix k i q st assume a: "view m' k = Some (i, q, st) \<and> rq_id q \<noteq> []"
    with view' have v: "view m k = Some (i, q, st)" by blast
    from dur v a have d: "disk_view m k = Some (k, q) \<or> mg_expired m (rq_id q) \<noteq> None" unfolding durable_def by blast
    have "disk_view m' k = disk_view m k \<or> (\<exists>j \<in> pruned m. jb_id j = k \<and> buried m' j)"
      using c unfolding cleaned_def cleaned_jobs_def by blast
    then show "disk_view m' k = Some (k, q) \<or> mg_expired m' (rq_id q) \<noteq> None"
    proof
      assume "disk_view m' k = disk_view m k"
      with d su(2) show ?thesis by metis
    next
      assume "\<exists>j \<in> pruned m. jb_id j = k \<and> buried m' j"
      then obtain j where j: "j \<in> pruned m" "jb_id j = k" "buried m' j" by blast
      from found_pruned [OF keyed j(1)] j(2) v have "jb_request j = q" by simp
      with j(3) a show ?thesis by (auto simp: buried_def)
    qed
  qed
  ultimately show ?thesis by (simp add: books_def)
qed

lemma accounted_cleaned:
  assumes c: "cleaned cfg (pruned m) m m'" and "keyed m" and "accounted m hist"
  shows "accounted m' hist"
proof -
  note vw = cleaned_view [OF c assms(2)] and su = cleaned_submissions [OF c]
  have "spent m' r" if r: "r \<noteq> []" and sp: "spent m r" for r
  proof (cases "mg_expired m r = None")
    case True
    with sp obtain k i q st where v: "view m k = Some (i, q, st)" "rq_id q = r" "st \<noteq> Queued"
      by (auto simp: spent_def)
    from vw [of k] show ?thesis
    proof
      assume "view m' k = view m k"
      with v show ?thesis unfolding spent_def by metis
    next
      assume "view m' k = None \<and> (\<exists>q st. view m k = Some (k, q, st) \<and> Terminal st
        \<and> (rq_id q = [] \<or> (mg_expired m' (rq_id q) \<noteq> None)))"
      with v r show ?thesis by (auto simp: spent_def)
    qed
  next
    case False
    with su(2) show ?thesis by (simp add: spent_def)
  qed
  then show ?thesis by (rule accounted_mono [OF assms(3)])
qed

subsection \<open>The invariant of the system\<close>

definition unused :: "manager \<Rightarrow> string \<Rightarrow> bool" where
  "unused m r \<longleftrightarrow> mg_expired m r = None \<and> mg_submissions m r = None"

definition fresh :: "manager \<Rightarrow> request \<Rightarrow> bool" where
  "fresh m r \<longleftrightarrow> rq_id r = [] \<or> requestIDPattern (rq_id r) \<and> unused m (rq_id r)"

definition worker_ok :: "manager \<Rightarrow> string option \<Rightarrow> bool" where
  "worker_ok m current \<longleftrightarrow> (case current of
       None \<Rightarrow> mg_cancellers m = []
     | Some k \<Rightarrow> mg_cancellers m = [k] \<and> (\<exists>q. view m k = Some (k, q, Running)))
     \<and> (\<forall>k i q. view m k = Some (i, q, Running) \<longrightarrow> current = Some k)"

definition creator_ok :: "manager \<Rightarrow> creator \<Rightarrow> bool" where
  "creator_ok m c = (case c of
       Resting \<Rightarrow> True
     | Checked r \<Rightarrow> fresh m r
     | Admitted r \<Rightarrow> fresh m r
     | Validated r \<Rightarrow> fresh m r \<and> length (mg_queue m) < 128
     | Inserted _ _ \<Rightarrow> length (mg_queue m) < 128)"

definition quiet :: "manager \<Rightarrow> bool" where
  "quiet m \<longleftrightarrow> channels_ok m \<and> \<not> mg_panic m"

definition inv :: "system \<Rightarrow> bool" where
  "inv s \<longleftrightarrow> books (sy_mgr s) \<and> accounted (sy_mgr s) (sy_log s) \<and> worker_ok (sy_mgr s) (busy (sy_worker s))
     \<and> creator_ok (sy_mgr s) (sy_creator s) \<and> length (mg_queue (sy_mgr s)) \<le> 128 \<and> quiet (sy_mgr s)"

lemma channels_kept_quiet: "channels_kept m m' \<Longrightarrow> quiet m \<Longrightarrow> quiet m'"
  by (simp add: channels_kept_def quiet_def)

text \<open>What most sections guarantee: books, log, running job, cancel functions, the order of the
  channels and the freshness of request ids stay, and the queue does not grow.\<close>

definition keeps :: "manager \<Rightarrow> manager \<Rightarrow> bool" where
  "keeps m m' \<longleftrightarrow> (books m \<longrightarrow> books m' \<and> (\<forall>hist. accounted m hist \<longrightarrow> accounted m' hist)
     \<and> (\<forall>r. r \<noteq> [] \<longrightarrow> unused m' r = unused m r)
     \<and> (\<forall>k i q. view m' k = Some (i, q, Running) \<longleftrightarrow> view m k = Some (i, q, Running)))
     \<and> mg_cancellers m' = mg_cancellers m \<and> length (mg_queue m') \<le> length (mg_queue m)
     \<and> channels_kept m m'"

lemma keeps_refl [simp]: "keeps m m"
  by (simp add: keeps_def)

lemma keepsD:
  assumes "keeps m m'" "books m"
  shows "books m'" "accounted m hist \<Longrightarrow> accounted m' hist" "r \<noteq> [] \<Longrightarrow> unused m' r = unused m r"
    "view m' k = Some (i, q, Running) \<longleftrightarrow> view m k = Some (i, q, Running)"
  using assms unfolding keeps_def by blast+

lemma keeps_rest:
  assumes "keeps m m'"
  shows "mg_cancellers m' = mg_cancellers m" "length (mg_queue m') \<le> length (mg_queue m)" "channels_kept m m'"
  using assms unfolding keeps_def by blast+

lemma keeps_trans:
  assumes "keeps m m'" "keeps m' m''"
  shows "keeps m m''"
proof -
  have "books m'' \<and> (\<forall>hist. accounted m hist \<longrightarrow> accounted m'' hist)
      \<and> (\<forall>r. r \<noteq> [] \<longrightarrow> unused m'' r = unused m r)
      \<and> (\<forall>k i q. view m'' k = Some (i, q, Running) \<longleftrightarrow> view m k = Some (i, q, Running))" if "books m"
    using keepsD [OF assms(1) that] keepsD [OF assms(2) keepsD(1) [OF assms(1) that]] by simp
  then show ?thesis
    using keeps_rest [OF assms(1)] keeps_rest [OF assms(2)] channels_kept_trans
    unfolding keeps_def by (simp only: simp_thms) (meson le_trans)
qed

lemma keeps_logs:
  assumes "logs_only m m'" "channels_kept m m'"
  shows "keeps m m'"
proof -
  have f: "same_frame m m'" using assms(1) by (simp add: logs_only_def)
  then have "view m' = view m" "mg_expired m' = mg_expired m" "mg_submissions m' = mg_submissions m"
    "mg_cancellers m' = mg_cancellers m" "mg_queue m' = mg_queue m"
    by (simp_all add: same_frame_def)
  with books_logs_only [OF assms(1)] accounted_frame [OF f] assms(2) show ?thesis
    by (simp add: keeps_def unused_def)
qed

lemma keeps_cleaned:
  assumes c: "cleaned cfg (pruned m) m m'" and dirs: "dirs_ok m \<longrightarrow> dirs_ok m'"
  shows "keeps m m'"
proof (cases "books m")
  case False
  with c show ?thesis by (simp add: keeps_def cleaned_def cleaned_rest_def)
next
  case True
  then have keyed: "keyed m" and ids: "ids_agree m" by (simp_all add: books_def)
  have used: "unused m r" if "unused m' r" for r
  proof -
    have "mg_expired m r = None" using cleaned_submissions(2) [OF c, of r] that unfolding unused_def by metis
    moreover have "mg_submissions m r = None" using cleaned_submissions(1) [OF c, of r] that unfolding unused_def by metis
    ultimately show ?thesis by (simp add: unused_def)
  qed
  have "unused m' r" if r: "r \<noteq> []" "unused m r" for r
  proof -
    have "\<not> (\<exists>k q st. view m k = Some (k, q, st) \<and> Terminal st \<and> rq_id q = r)"
    proof
      assume "\<exists>k q st. view m k = Some (k, q, st) \<and> Terminal st \<and> rq_id q = r"
      then obtain k q st where v: "view m k = Some (k, q, st)" "rq_id q = r" by blast
      with ids r(1) have "mg_submissions m r = Some k \<or> mg_expired m r \<noteq> None" unfolding ids_agree_def by blast
      with r(2) show False by (simp add: unused_def)
    qed
    with cleaned_expired [OF c keyed, of r] r have "mg_expired m' r = None" by (auto simp: unused_def)
    with cleaned_submissions(1) [OF c, of r] r show ?thesis by (auto simp: unused_def)
  qed
  moreover have "view m' k = Some (i, q, Running) \<longleftrightarrow> view m k = Some (i, q, Running)" for k i q
    using cleaned_view [OF c keyed, of k] by auto
  moreover have "unused m' r = unused m r" if "r \<noteq> []" for r using that used calculation(1) by blast
  ultimately show ?thesis
    using books_cleaned [OF c True dirs] accounted_cleaned [OF c keyed] c
    by (simp add: keeps_def cleaned_def cleaned_rest_def)
qed

text \<open>Fields that the books do not mention.\<close>

lemma books_fields:
  assumes "mg_jobs m' = mg_jobs m" "mg_disk m' = mg_disk m" "mg_submissions m' = mg_submissions m"
    "mg_expired m' = mg_expired m" "mg_tombstones m' = mg_tombstones m"
  shows "view m' = view m" "disk_view m' = disk_view m" "books m' = books m"
    "accounted m' hist = accounted m hist" "unused m' r = unused m r"
proof -
  show v: "view m' = view m" using assms(1) by (simp add: view_find find_job_def fun_eq_iff)
  show d: "disk_view m' = disk_view m" using assms(2) by (rule disk_view_cong)
  have "keyed m' = keyed m" unfolding keyed_def v assms(1,2) by (rule refl)
  moreover have "ids_agree m' = ids_agree m" unfolding ids_agree_def v assms(3,4) by (rule refl)
  moreover have "durable m' = durable m" unfolding durable_def v d assms(4,5) by (rule refl)
  ultimately show "books m' = books m" unfolding books_def by simp
  show "accounted m' hist = accounted m hist" unfolding accounted_def spent_def v assms(4) by (rule refl)
  show "unused m' r = unused m r" unfolding unused_def assms(3,4) by (rule refl)
qed

lemma keeps_fields:
  assumes "mg_jobs m' = mg_jobs m" "mg_disk m' = mg_disk m" "mg_submissions m' = mg_submissions m"
    "mg_expired m' = mg_expired m" "mg_tombstones m' = mg_tombstones m" "mg_cancellers m' = mg_cancellers m"
    "length (mg_queue m') \<le> length (mg_queue m)" "channels_kept m m'"
  shows "keeps m m'"
  unfolding keeps_def books_fields [OF assms(1-5)] using assms(6-8) by simp

lemma inv_keeps:
  assumes "inv s" "keeps (sy_mgr s) m'" "busy w = busy (sy_worker s)"
  shows "inv (with_worker s m' w)"
proof -
  let ?m = "sy_mgr s"
  have b: "books ?m" and i: "accounted ?m (sy_log s)" "worker_ok ?m (busy (sy_worker s))"
    "creator_ok ?m (sy_creator s)" "length (mg_queue ?m) \<le> 128" "quiet ?m"
    using assms(1) by (simp_all add: inv_def)
  have k: "books m'" "accounted m' (sy_log s)" "\<And>r. r \<noteq> [] \<Longrightarrow> unused m' r = unused ?m r"
    "\<And>k i q. view m' k = Some (i, q, Running) \<longleftrightarrow> view ?m k = Some (i, q, Running)"
    "mg_cancellers m' = mg_cancellers ?m" "length (mg_queue m') \<le> length (mg_queue ?m)" "channels_kept ?m m'"
    using assms(2) b i(1) by (simp_all add: keeps_def)
  have "worker_ok m' (busy w)"
    using i(2) k(4,5) assms(3) unfolding worker_ok_def by (auto split: option.splits)
  moreover have "fresh m' r" if "fresh ?m r" for r using that k(3) by (auto simp: fresh_def)
  then have "creator_ok m' (sy_creator s)"
    using i(3) k(6) by (auto simp: creator_ok_def split: creator.splits)
  ultimately show ?thesis
    using k i channels_kept_quiet by (auto simp: inv_def with_worker_def)
qed

lemma inv_keeps_mgr: "inv s \<Longrightarrow> keeps (sy_mgr s) m' \<Longrightarrow> inv (with_mgr s m')"
  using inv_keeps [of s m' "sy_worker s"] by (simp add: with_worker_def with_mgr_def)

lemma inv_keeps_creator:
  assumes "inv s" "keeps (sy_mgr s) m'" "creator_ok m' c"
  shows "inv (with_creator s m' c)"
  using inv_keeps_mgr [OF assms(1,2)] assms(3) by (simp add: inv_def with_mgr_def with_creator_def)

end
