(* ===== verification/JobSafety.thy ===== *)
theory JobSafety
  imports JobSystem
begin

text \<open>
  The invariant of the job manager as a system and what it gives: every step of \<open>JobSystem\<close> keeps
  it, a restart establishes it again, and so it holds in every reachable state, whatever the disk,
  the tasks and the clients did and whenever the process died.
\<close>

subsection \<open>Sections that keep the books\<close>

lemma keeps_emitLocked: "find_job m key \<noteq> None \<Longrightarrow> keeps m (emitLocked cfg w key level message m)"
  by (simp add: keeps_logs logs_only_emitLocked channels_kept_emitLocked)

lemma keeps_emit: "keeps m (emit cfg w key level message m)"
  by (simp add: keeps_logs logs_only_emit channels_kept_emit)

lemma keeps_persist: "find_job m key \<noteq> None \<Longrightarrow> keeps m (persist cfg w key m)"
  by (simp add: keeps_logs logs_only_persist channels_kept_persist)

lemma keeps_upd_job:
  assumes "\<And>j. find_job m key = Some j \<Longrightarrow> jb_id (f j) = jb_id j \<and> jb_request (f j) = jb_request j
    \<and> jb_state (f j) = jb_state j"
  shows "keeps m (upd_job key f m)"
  by (rule keeps_logs [OF logs_only_upd_job [OF assms]]) (simp_all add: channels_kept_same)

lemma upd_job_present [simp]: "find_job (upd_job key f m) k = None \<longleftrightarrow> find_job m k = None"
  by (simp add: find_upd_job)

lemma keeps_observe: "find_job m key \<noteq> None \<Longrightarrow> keeps m (run_observe cfg w key t m)"
  unfolding run_observe_def
  by (rule keeps_trans [OF keeps_trans [OF keeps_upd_job keeps_emitLocked] keeps_persist]) simp_all

lemma keeps_outcome: "find_job m key \<noteq> None \<Longrightarrow> keeps m (run_outcome cfg tx w key err m)"
  unfolding run_outcome_def by (rule keeps_trans [OF keeps_upd_job keeps_persist]) simp_all

lemma keeps_hook_failed: "find_job m key \<noteq> None \<Longrightarrow> keeps m (run_hook_failed cfg tx w key e m)"
  unfolding run_hook_failed_def by (rule keeps_trans [OF keeps_upd_job keeps_emitLocked]) simp_all

lemma keeps_capture_stopped: "find_job m key \<noteq> None \<Longrightarrow> keeps m (run_capture_stopped cfg w key c m)"
  unfolding run_capture_stopped_def set_capture_def
  by (rule keeps_trans [OF keeps_upd_job keeps_persist]) simp_all

lemma keeps_capture_started: "find_job m key \<noteq> None \<Longrightarrow> keeps m (run_capture_started cfg w key c baud m)"
  unfolding run_capture_started_def set_capture_def
  by (rule keeps_trans [OF keeps_trans [OF keeps_upd_job keeps_emitLocked] keeps_persist]) simp_all

lemma keeps_warn: "keeps m (run_warn_manual cfg w key r m)"
  by (simp add: run_warn_manual_def keeps_emit split: option.splits)

lemma keeps_cleanup: "keeps m (snd (snd (cleanupLocked cfg ci ap need m)))"
proof -
  obtain err acc m' where c: "cleanupLocked cfg ci ap need m = (err, acc, m')" by (metis prod_cases3)
  show ?thesis
    using keeps_cleaned [of cfg m m'] cleanupLocked_cleaned [OF c] cleanupLocked_dirs [OF c] by (simp add: c)
qed

lemma keeps_reclaim: "keeps m (snd (reclaim cfg ci need m))"
  using keeps_cleanup [of m cfg ci True need] by (simp add: reclaim_def split_beta)

lemma keeps_retention: "keeps m (retentionAfterCompletion cfg ci m)"
proof (cases "mg_budget m")
  case (Some g)
  have "keeps m (release_reservations m)"
    by (rule keeps_fields) (simp_all add: release_reservations_def channels_kept_same)
  from keeps_trans [OF this keeps_cleanup] Some show ?thesis
    by (simp add: retentionAfterCompletion_def)
qed (simp add: retentionAfterCompletion_def)

lemma keeps_admit: "submit_admit cfg ci r m = (err, m') \<Longrightarrow> keeps m m'"
proof -
  assume a: "submit_admit cfg ci r m = (err, m')"
  let ?mz = "m\<lparr>mg_pins := rq_artifact r # mg_pins m\<rparr>"
  have p: "keeps m ?mz" by (rule keeps_fields) (simp_all add: channels_kept_same)
  show ?thesis
  proof (cases "mg_budget m = None")
    case False
    with a have "m' = snd (EnsureLocked the_gate (disk_entries cfg) (Some (reclaim cfg ci)) (outputReservation cfg) ?mz)"
      by (simp add: submit_admit_def)
    with EnsureLocked_world [of the_gate "disk_entries cfg" "reclaim cfg ci" "outputReservation cfg" ?mz]
    have "m' = ?mz \<or> m' = snd (reclaim cfg ci (outputReservation cfg) ?mz)" by simp
    with p keeps_trans [OF p keeps_reclaim] show ?thesis by metis
  qed (use a in \<open>simp add: submit_admit_def\<close>)
qed

lemma keeps_unpin: "keeps m (unpin r m)"
  by (rule keeps_fields) (simp_all add: unpin_def channels_kept_same)

lemma keeps_reserve: "keeps m (submit_reserve cfg key m)"
  by (rule keeps_fields) (simp_all add: submit_reserve_def channels_kept_same)

lemma keeps_closed: "keeps m (m\<lparr>mg_closed := True\<rparr>)"
  by (rule keeps_fields) (simp_all add: channels_kept_same)

lemma keeps_outside: "keeps m (m\<lparr>mg_store := so, mg_other := es\<rparr>)"
  by (rule keeps_fields) (simp_all add: channels_kept_same)

lemma open_length: "open_channel cs h \<Longrightarrow> h < length cs"
  by (simp add: open_channel_def)

lemma channels_okI:
  assumes "\<And>k. distinct (mg_subscribers m k)" "\<And>k h. h \<in> set (mg_subscribers m k) \<Longrightarrow> open_channel (mg_channels m) h"
    "\<And>k k' h. h \<in> set (mg_subscribers m k) \<Longrightarrow> h \<in> set (mg_subscribers m k') \<Longrightarrow> k = k'"
  shows "channels_ok m"
  using assms unfolding channels_ok_def list_all_iff by blast

lemma channels_okD:
  assumes "channels_ok m"
  shows "distinct (mg_subscribers m k)" "h \<in> set (mg_subscribers m k) \<Longrightarrow> open_channel (mg_channels m) h"
    "h \<in> set (mg_subscribers m k) \<Longrightarrow> h \<in> set (mg_subscribers m k') \<Longrightarrow> k = k'"
  using assms unfolding channels_ok_def list_all_iff by blast+

lemma keeps_subscribe: "keeps m (snd (Subscribe m key after))"
proof (cases "find_job m key")
  case (Some j)
  let ?n = "length (mg_channels m)" and ?d = "Terminal (jb_state j)"
  let ?m = "snd (Subscribe m key after)"
  have cs: "open_channel (mg_channels ?m) h \<longleftrightarrow> (if h = ?n then \<not> ?d else open_channel (mg_channels m) h)" for h
    by (auto simp: Subscribe_def Some Let_def open_channel_def nth_append)
  have subs: "mg_subscribers ?m k = (if k = key \<and> \<not> ?d then mg_subscribers m k @ [?n] else mg_subscribers m k)" for k
    by (simp add: Subscribe_def Some Let_def)
  have "channels_kept m ?m"
    unfolding channels_kept_def
  proof
    assume "channels_ok m"
    note ok = channels_okD [OF this]
    have new: "?n \<notin> set (mg_subscribers m k)" for k using ok(2) [of ?n k] open_length by blast
    have "channels_ok ?m"
    proof (rule channels_okI)
      fix k show "distinct (mg_subscribers ?m k)" using ok(1) new by (simp add: subs)
    next
      fix k h assume "h \<in> set (mg_subscribers ?m k)"
      then show "open_channel (mg_channels ?m) h"
        using ok(2) [of h k] new [of k] by (auto simp: subs cs split: if_splits)
    next
      fix k k' h assume "h \<in> set (mg_subscribers ?m k)" "h \<in> set (mg_subscribers ?m k')"
      then show "k = k'" using ok(3) [of h k k'] new by (auto simp: subs split: if_splits)
    qed
    then show "channels_ok ?m \<and> mg_panic ?m = mg_panic m" by (simp add: Subscribe_def Some Let_def)
  qed
  then show ?thesis
    by (intro keeps_fields) (simp_all add: Subscribe_def Some Let_def)
qed (simp add: Subscribe_def)

lemma keeps_unsubscribe: "keeps m (Unsubscribe key h m)"
proof (cases "h \<in> set (mg_subscribers m key)")
  case True
  let ?m = "Unsubscribe key h m"
  have cs: "open_channel (mg_channels ?m) i \<longleftrightarrow> open_channel (mg_channels m) i \<and> i \<noteq> h" for i
    by (simp add: Unsubscribe_def True open_close)
  have subs: "mg_subscribers ?m k = (if k = key then removeAll h (mg_subscribers m k) else mg_subscribers m k)" for k
    by (simp add: Unsubscribe_def True)
  have sub: "i \<in> set (mg_subscribers m k) \<and> (k = key \<longrightarrow> i \<noteq> h)" if "i \<in> set (mg_subscribers ?m k)" for i k
    using that by (cases "k = key") (simp_all add: subs)
  have "channels_kept m ?m"
    unfolding channels_kept_def
  proof
    assume "channels_ok m"
    note ok = channels_okD [OF this]
    have "channels_ok ?m"
    proof (rule channels_okI)
      fix k show "distinct (mg_subscribers ?m k)" using ok(1) by (simp add: subs distinct_removeAll)
    next
      fix k i assume "i \<in> set (mg_subscribers ?m k)"
      then have i: "i \<in> set (mg_subscribers m k)" "k = key \<longrightarrow> i \<noteq> h" using sub by blast+
      then have "i \<noteq> h" using ok(3) [OF _ True, of k] by blast
      with ok(2) [OF i(1)] show "open_channel (mg_channels ?m) i" unfolding cs by blast
    next
      fix k k' i assume "i \<in> set (mg_subscribers ?m k)" "i \<in> set (mg_subscribers ?m k')"
      then show "k = k'" using sub ok(3) by blast
    qed
    then show "channels_ok ?m \<and> mg_panic ?m = mg_panic m"
      using ok(2) [OF True] by (simp add: Unsubscribe_def True)
  qed
  then show ?thesis by (intro keeps_fields) (simp_all add: Unsubscribe_def True)
qed (simp add: Unsubscribe_def)

lemma keeps_receive: "keeps m (receive h m)"
proof -
  have "open_channel (mg_channels (receive h m)) = open_channel (mg_channels m)"
    by (auto simp: receive_def open_channel_def nth_list_update fun_eq_iff)
  then show ?thesis
    by (intro keeps_fields channels_kept_same) (simp_all add: receive_def)
qed

subsection \<open>Steps that change a job's state\<close>

lemma invD:
  assumes "inv s"
  shows "books (sy_mgr s)" "accounted (sy_mgr s) (sy_log s)" "worker_ok (sy_mgr s) (busy (sy_worker s))"
    "creator_ok (sy_mgr s) (sy_creator s)" "length (mg_queue (sy_mgr s)) \<le> 128" "quiet (sy_mgr s)"
  using assms by (simp_all add: inv_def)

lemma logs_onlyD:
  assumes "logs_only m m'"
  shows "view m' = view m" "mg_expired m' = mg_expired m" "mg_submissions m' = mg_submissions m"
    "mg_cancellers m' = mg_cancellers m" "mg_queue m' = mg_queue m"
  using assms by (simp_all add: logs_only_def same_frame_def)

lemma view_set_state:
  assumes "\<And>j. find_job m key = Some j \<Longrightarrow> jb_id (f j) = jb_id j \<and> jb_request (f j) = jb_request j \<and> jb_state (f j) = st"
    and "view m key = Some (key, q, st0)"
  shows "view (upd_job key f m) = (view m)(key \<mapsto> (key, q, st))"
proof -
  from assms(2) obtain j where j: "find_job m key = Some j" "jb_id j = key" "jb_request j = q"
    by (auto simp: view_Some)
  show ?thesis using assms(1) [OF j(1)] j by (auto simp: view_find find_upd_job fun_eq_iff)
qed

lemma moves_set_state:
  assumes "\<And>j. find_job m key = Some j \<Longrightarrow> jb_id (f j) = jb_id j \<and> jb_request (f j) = jb_request j \<and> jb_state (f j) = st"
    and "view m key = Some (key, q, st0)" "Terminal st0 \<longrightarrow> Terminal st"
  shows "moves key st m (upd_job key f m)"
  using view_set_state [OF assms(1,2)] assms(2,3) disk_view_upd_job [of key f m]
  by (auto simp: moves_def)

text \<open>What a job's section does with the invariant's parts: the state moves, then logs are written.\<close>

lemma moved_parts:
  assumes b: "books m" and a: "accounted m hist" and mv: "moves key st m m1" and l: "logs_only m1 m2"
    and st: "st \<noteq> Queued"
  shows "books m2" "accounted m2 hist" "view m2 = (view m)(key \<mapsto> (key, fst (snd (the (view m key))), st))"
    "mg_expired m2 = mg_expired m" "mg_submissions m2 = mg_submissions m"
proof -
  show "books m2" by (rule books_logs_only [OF l books_moves [OF mv b]])
  show "accounted m2 hist"
    using accounted_frame [OF _ accounted_moves [OF mv st a]] l by (simp add: logs_only_def)
  show "view m2 = (view m)(key \<mapsto> (key, fst (snd (the (view m key))), st))" "mg_expired m2 = mg_expired m"
    "mg_submissions m2 = mg_submissions m"
    using mv logs_onlyD [OF l] by (auto simp: moves_def)
qed

lemma fresh_cong: "mg_expired m' = mg_expired m \<Longrightarrow> mg_submissions m' = mg_submissions m \<Longrightarrow> fresh m' r = fresh m r"
  by (simp add: fresh_def unused_def)

lemma creator_ok_cong:
  assumes "mg_expired m' = mg_expired m" "mg_submissions m' = mg_submissions m"
    "length (mg_queue m') \<le> length (mg_queue m)" "creator_ok m c"
  shows "creator_ok m' c"
  using assms(3,4) fresh_cong [OF assms(1,2)] by (auto simp: creator_ok_def split: creator.splits)

lemma inv_start:
  assumes i: "inv s" and w: "sy_worker s = Idle" and qu: "mg_queue (sy_mgr s) = key # rest"
    and r: "run_start cfg io key ((sy_mgr s)\<lparr>mg_queue := rest\<rparr>) = (Some r, m')"
  shows "inv (with_worker s m' (Loading key r)\<lparr>sy_log := sy_log s @ [rq_id r]\<rparr>)"
proof -
  let ?m = "sy_mgr s"
  note inv = invD [OF i]
  let ?f = "\<lambda>j. j\<lparr>jb_state := Running, jb_started := Some (io_now io)\<rparr>"
  let ?mz = "?m\<lparr>mg_queue := rest, mg_cancellers := key # mg_cancellers ?m, mg_canceled := removeAll key (mg_canceled ?m)\<rparr>"
  let ?m1 = "upd_job key ?f ?mz"
  have fj: "find_job (?m\<lparr>mg_queue := rest\<rparr>) key = find_job ?m key" by (simp add: find_job_def)
  from r obtain j where j: "find_job ?m key = Some j" "jb_state j = Queued" "r = jb_request j"
    and m': "m' = persist cfg io key (emitLocked cfg io key ''info'' ''Job started'' ?m1)"
    unfolding run_start_def fj by (simp split: option.splits if_splits)
  have "jb_id j = key" using j(1) books_well_keyed [OF inv(1)] by (simp add: well_keyed_def)
  with j have v: "view ?m key = Some (key, r, Queued)" by (auto simp: view_Some)
  have f0: "view ?mz = view ?m" by (simp add: view_find find_job_def fun_eq_iff)
  have "find_job ?mz key = Some j" using j(1) by (simp add: find_job_def)
  then have present: "find_job ?m1 key \<noteq> None" by simp
  have b0: "books ?mz" "accounted ?mz (sy_log s)"
    using inv(1,2) books_fields(3,4) [of ?mz ?m] by simp_all
  have mv: "moves key Running ?mz ?m1" using v f0 by (intro moves_set_state [where ?st0.0 = Queued]) simp_all
  have l: "logs_only ?m1 m'"
    unfolding m' by (rule logs_only_trans [OF logs_only_emitLocked logs_only_persist])
  note parts = moved_parts [OF b0 mv l] 
  have v': "view m' = (view ?m)(key \<mapsto> (key, r, Running))" using parts(3) f0 v by simp
  have c: "mg_cancellers m' = [key]" "mg_queue m' = rest"
    using logs_onlyD [OF l] inv(3) w by (simp_all add: worker_ok_def)
  have norun: "view ?m k \<noteq> Some (a, q, Running)" for k a q
    using inv(3) w by (auto simp: worker_ok_def)
  have "worker_ok m' (Some key)" using v' c norun by (auto simp: worker_ok_def split: if_splits)
  moreover have "quiet m'"
  proof -
    have "channels_kept ?m ?m1" by (simp add: channels_kept_same)
    also have "channels_kept ?m1 m'"
      unfolding m' using present(1) by (intro channels_kept_trans [OF channels_kept_emitLocked channels_kept_persist]) simp_all
    finally show ?thesis using channels_kept_quiet inv(6) by blast
  qed
  moreover have "accounted m' (sy_log s @ [rq_id r])"
  proof -
    have "rq_id r \<notin> set (sy_log s)" if "rq_id r \<noteq> []"
    proof
      assume "rq_id r \<in> set (sy_log s)"
      with inv(2) that have "spent ?m (rq_id r)" by (simp add: accounted_def)
      then show False
        unfolding spent_def
      proof
        assume "mg_expired ?m (rq_id r) \<noteq> None"
        with inv(1) v have "Terminal Queued" unfolding books_def ids_agree_def by blast
        then show False by simp
      next
        assume "\<exists>k i q st. view ?m k = Some (i, q, st) \<and> rq_id q = rq_id r \<and> st \<noteq> Queued"
        then obtain k a q st where o: "view ?m k = Some (a, q, st)" "rq_id q = rq_id r" "st \<noteq> Queued" by blast
        have "mg_expired ?m (rq_id r) = None"
        proof (rule ccontr)
          assume "mg_expired ?m (rq_id r) \<noteq> None"
          with inv(1) v have "Terminal Queued" unfolding books_def ids_agree_def by blast
          then show False by simp
        qed
        with inv(1) v o that have "mg_submissions ?m (rq_id r) = Some key" "mg_submissions ?m (rq_id r) = Some k"
          unfolding books_def ids_agree_def by metis+
        with v o show False by simp
      qed
    qed
    moreover have "spent m' (rq_id r)" using v' by (auto simp: spent_def)
    ultimately show ?thesis using parts(2) by (auto simp: accounted_def)
  qed
  moreover have "creator_ok m' (sy_creator s)"
    by (rule creator_ok_cong [OF _ _ _ inv(4)]) (use parts(4,5) c qu in simp_all)
  ultimately show ?thesis using parts(1) c inv(5) qu by (simp add: inv_def with_worker_def)
qed

lemma inv_skip:
  assumes i: "inv s" and w: "sy_worker s = Idle" and qu: "mg_queue (sy_mgr s) = key # rest"
    and r: "run_start cfg io key ((sy_mgr s)\<lparr>mg_queue := rest\<rparr>) = (None, m')"
  shows "inv (with_worker s m' Idle)"
proof -
  have "m' = (sy_mgr s)\<lparr>mg_queue := rest\<rparr>"
    using r unfolding run_start_def by (simp split: option.splits if_splits)
  then have "keeps (sy_mgr s) m'"
    by (intro keeps_fields) (simp_all add: qu channels_kept_same)
  from inv_keeps [OF i this] w show ?thesis by simp
qed

lemma inv_finish:
  assumes i: "inv s" and w: "sy_worker s = Closing key r err"
  shows "inv (with_worker s (run_finish cfg tx io key err (sy_mgr s)) Retiring)"
proof -
  let ?m = "sy_mgr s" and ?e = "with_context key (sy_mgr s) err"
  note inv = invD [OF i]
  let ?mz = "?m\<lparr>mg_cancellers := removeAll key (mg_cancellers ?m)\<rparr>"
  let ?m1 = "upd_job key (finish_record tx (io_now io) ?e) ?mz"
  let ?m2 = "emitLocked cfg io key (fst (final_event tx ?e)) (snd (final_event tx ?e)) ?m1"
  let ?m3 = "persist cfg io key ?m2"
  let ?m' = "run_finish cfg tx io key err ?m"
  from inv(3) w have "mg_cancellers ?m = [key] \<and> (\<exists>q. view ?m key = Some (key, q, Running))"
    by (simp add: worker_ok_def)
  then obtain q where v: "view ?m key = Some (key, q, Running)" and c: "mg_cancellers ?m = [key]" by blast
  have only: "k = key" if "view ?m k = Some (a, b, Running)" for k a b
    using inv(3) w that by (auto simp: worker_ok_def)
  have fj: "find_job ?mz key = find_job ?m key" by (simp add: find_job_def)
  from v obtain j where j: "find_job ?m key = Some j" by (auto simp: view_Some)
  have m': "?m' = closeSubscribersLocked key ?m3" by (simp add: run_finish_def Let_def fj j)
  have f0: "view ?mz = view ?m" by (simp add: view_find find_job_def fun_eq_iff)
  have present: "find_job ?m1 key \<noteq> None" using j fj by simp
  have b0: "books ?mz" "accounted ?mz (sy_log s)"
    using inv(1,2) books_fields(3,4) [of ?mz ?m] by simp_all
  have mv: "moves key (final_job_state ?e) ?mz ?m1"
    by (rule moves_set_state [where ?st0.0 = Running])
      (use v f0 Terminal_final in \<open>simp_all add: finish_record_def\<close>)
  have l: "logs_only ?m1 ?m'"
    unfolding m' by (rule logs_only_trans [OF logs_only_trans [OF logs_only_emitLocked logs_only_persist] logs_only_close])
  have nq: "final_job_state ?e \<noteq> Queued" "final_job_state ?e \<noteq> Running"
    using Terminal_final [of ?e] by auto
  note parts = moved_parts [OF b0 mv l nq(1)]
  have f': "mg_cancellers ?m' = []" "mg_queue ?m' = mg_queue ?m"
    using logs_onlyD [OF l] c by simp_all
  have v': "view ?m' = (view ?m)(key \<mapsto> (key, q, final_job_state ?e))" using parts(3) f0 v by simp
  have "view ?m' k \<noteq> Some (a, b, Running)" for k a b
    using only [of k a b] nq(2) unfolding v' by (metis fun_upd_other fun_upd_same option.inject prod.inject)
  then have "worker_ok ?m' None" using f'(1) by (simp add: worker_ok_def)
  moreover have "quiet ?m'"
  proof -
    have "channels_kept ?m ?m1" by (simp add: channels_kept_same)
    also have "channels_kept ?m1 ?m3"
      using present by (intro channels_kept_trans [OF channels_kept_emitLocked channels_kept_persist]) simp_all
    also have "channels_kept ?m3 ?m'" unfolding m' by (rule channels_kept_close)
    finally show ?thesis using channels_kept_quiet inv(6) by blast
  qed
  moreover have "creator_ok ?m' (sy_creator s)"
    by (rule creator_ok_cong [OF _ _ _ inv(4)]) (use parts(4,5) f' in simp_all)
  ultimately show ?thesis using parts(1,2) f' inv(5) by (simp add: inv_def with_worker_def)
qed

lemma inv_cancel:
  assumes i: "inv s"
  shows "inv (with_mgr s (snd (cancel_section cfg io key (sy_mgr s))))"
proof -
  let ?m = "sy_mgr s" and ?m' = "snd (cancel_section cfg io key (sy_mgr s))"
  note inv = invD [OF i]
  let ?m1 = "upd_job key (\<lambda>j. j\<lparr>jb_state := Canceled, jb_finished := Some (io_now io)\<rparr>) ?m"
  let ?m2 = "emitLocked cfg io key ''warning'' ''Job canceled before execution'' ?m1"
  consider (same) "?m' = ?m" | (ctx) "?m' = ?m\<lparr>mg_canceled := key # mg_canceled ?m\<rparr>"
    | (now) j where "find_job ?m key = Some j" "\<not> Terminal (jb_state j)" "key \<notin> set (mg_cancellers ?m)"
        "?m' = persist cfg io key ?m2"
  proof (cases "find_job ?m key")
    case None
    then show ?thesis by (intro same) (simp add: cancel_section_def)
  next
    case (Some j)
    have "?m' = (if Terminal (jb_state j) then ?m else if key \<in> set (mg_cancellers ?m)
        then ?m\<lparr>mg_canceled := key # mg_canceled ?m\<rparr> else persist cfg io key ?m2)"
      unfolding cancel_section_def Some Let_def by (simp split: option.split)
    with Some same ctx now show ?thesis by metis
  qed
  then show ?thesis
  proof cases
    case same
    then show ?thesis using inv_keeps_mgr [OF i keeps_refl] by simp
  next
    case ctx
    have "keeps ?m (?m\<lparr>mg_canceled := key # mg_canceled ?m\<rparr>)"
      by (rule keeps_fields) (simp_all add: channels_kept_same)
    with ctx inv_keeps_mgr [OF i] show ?thesis by simp
  next
    case now
    have "jb_id j = key" using now(1) books_well_keyed [OF inv(1)] by (simp add: well_keyed_def)
    then have v: "view ?m key = Some (key, jb_request j, jb_state j)" using now(1) by (simp add: view_Some)
    have mv: "moves key Canceled ?m ?m1" by (rule moves_set_state) (use v in simp_all)
    have l: "logs_only ?m1 ?m'"
      unfolding now(4) by (rule logs_only_trans [OF logs_only_emitLocked logs_only_persist])
    note parts = moved_parts [OF inv(1,2) mv l job_state.distinct(7) [symmetric]]
    have f': "mg_cancellers ?m' = mg_cancellers ?m" "mg_queue ?m' = mg_queue ?m"
      using logs_onlyD [OF l] by simp_all
    have "busy (sy_worker s) \<noteq> Some key" using inv(3) now(3) by (auto simp: worker_ok_def)
    then have "worker_ok ?m' (busy (sy_worker s))"
      using inv(3) parts(3) f'(1) v by (auto simp: worker_ok_def split: option.splits if_splits)
    moreover have "quiet ?m'"
    proof -
      have "channels_kept ?m ?m1" by (simp add: channels_kept_same)
      also have "channels_kept ?m1 ?m'"
        unfolding now(4) using now(1)
        by (intro channels_kept_trans [OF channels_kept_emitLocked channels_kept_persist]) simp_all
      finally show ?thesis using channels_kept_quiet inv(6) by blast
    qed
    moreover have "creator_ok ?m' (sy_creator s)"
      by (rule creator_ok_cong [OF _ _ _ inv(4)]) (use parts(4,5) f' in simp_all)
    ultimately show ?thesis using parts(1,2) f' inv(5) by (simp add: inv_def with_mgr_def)
  qed
qed

subsection \<open>Submission\<close>

lemma keyed_unknown: "keyed m \<Longrightarrow> map_of (mg_disk m) key = None \<Longrightarrow> view m key = None"
  unfolding keyed_def by (metis option.exhaust)

lemma inserted_books:
  assumes b: "books m" and fr: "fresh m r" and d: "map_of (mg_disk m) key = None"
    and v: "view m' = (view m)(key \<mapsto> (key, r, Queued))" and dv: "disk_view m' = (disk_view m)(key \<mapsto> (key, r))"
    and sr: "same_rest m m'"
    and su: "mg_submissions m' = (if rq_id r = [] then mg_submissions m else (mg_submissions m)(rq_id r \<mapsto> key))"
    and ds: "distinct (map fst (mg_jobs m'))" "distinct (map fst (mg_disk m'))"
    and keys: "\<And>k. disk_view m' k \<noteq> None \<or> map_of (mg_disk m) k \<noteq> None \<Longrightarrow> map_of (mg_disk m') k \<noteq> None"
  shows "books m'"
proof -
  have keyed: "keyed m" and ids: "ids_agree m" and dur: "durable m" using b by (simp_all add: books_def)
  have new: "view m key = None" by (rule keyed_unknown [OF keyed d])
  have ex: "mg_expired m' = mg_expired m" "mg_tombstones m' = mg_tombstones m" using sr by (simp_all add: same_rest_def)
  have nosub: "mg_submissions m q \<noteq> Some key" for q
    using ids new unfolding ids_agree_def by (metis option.distinct(1))
  have "keyed m'"
    unfolding keyed_def
  proof (intro conjI allI impI)
    fix k i q st assume "view m' k = Some (i, q, st)"
    then show "i = k" "rq_id q = [] \<or> requestIDPattern (rq_id q)"
      using keyed fr unfolding v keyed_def by (cases "k = key"; auto simp: fresh_def)+
  next
    fix k assume "view m' k \<noteq> None"
    then have "k = key \<or> view m k \<noteq> None" by (auto simp: v split: if_splits)
    then show "map_of (mg_disk m') k \<noteq> None"
      using keys [of k] dv keyed unfolding keyed_def by auto
  qed (use ds in simp_all)
  moreover have "ids_agree m'"
    unfolding ids_agree_def ex
  proof (intro conjI allI impI)
    fix q k assume s: "mg_submissions m' q = Some k"
    show "q \<noteq> []"
      using s su ids unfolding ids_agree_def by (metis fun_upd_apply)
    show "\<exists>i p st. view m' k = Some (i, p, st) \<and> rq_id p = q"
    proof (cases "rq_id r \<noteq> [] \<and> q = rq_id r")
      case True
      with s su have "k = key" by simp
      with True v show ?thesis by simp
    next
      case False
      with s su have o: "mg_submissions m q = Some k" by (auto split: if_splits)
      with nosub have "k \<noteq> key" by blast
      with o v ids show ?thesis unfolding ids_agree_def by simp
    qed
  next
    fix k i q st assume a: "view m' k = Some (i, q, st) \<and> rq_id q \<noteq> []"
    show "mg_submissions m' (rq_id q) = Some k \<or> mg_expired m (rq_id q) \<noteq> None"
    proof (cases "k = key")
      case True
      with a v su show ?thesis by auto
    next
      case False
      with a v have o: "view m k = Some (i, q, st)" by simp
      with a ids have s: "mg_submissions m (rq_id q) = Some k \<or> mg_expired m (rq_id q) \<noteq> None"
        unfolding ids_agree_def by blast
      then have "rq_id q \<noteq> rq_id r" using fr a by (auto simp: fresh_def unused_def)
      with s su show ?thesis by auto
    qed
  next
    fix k i q st assume a: "view m' k = Some (i, q, st) \<and> mg_expired m (rq_id q) \<noteq> None"
    have "k \<noteq> key"
      using a fr ids by (auto simp: v fresh_def unused_def ids_agree_def)
    with a v ids show "Terminal st" unfolding ids_agree_def by (metis fun_upd_other)
  next
    fix q assume e: "mg_expired m q \<noteq> None"
    then have "mg_submissions m q = None" "q \<noteq> []" using ids unfolding ids_agree_def by metis+
    moreover have "q \<noteq> rq_id r" using e fr \<open>q \<noteq> []\<close> by (auto simp: fresh_def unused_def)
    ultimately show "mg_submissions m' q = None" by (simp add: su)
  qed (use ids in \<open>simp add: ids_agree_def\<close>)
  moreover have "durable m'"
    unfolding durable_def ex
  proof (intro conjI allI impI)
    fix q assume "mg_expired m q \<noteq> None"
    with dur show "map_of (mg_tombstones m) q \<noteq> None" "requestIDPattern q" by (simp_all add: durable_def)
  next
    fix k i q st assume a: "view m' k = Some (i, q, st) \<and> rq_id q \<noteq> []"
    show "disk_view m' k = Some (k, q) \<or> mg_expired m (rq_id q) \<noteq> None"
      using a dur unfolding durable_def by (cases "k = key") (auto simp: v dv)
  qed
  ultimately show ?thesis by (simp add: books_def)
qed

lemma insert_dirs:
  assumes "create_insert cfg w random r m = (res, m')" "map_of (mg_disk m) k \<noteq> None"
  shows "map_of (mg_disk m') k \<noteq> None"
proof (cases "\<exists>key. random = Some key \<and> map_of (mg_disk m) key = None")
  case False
  then have "m' = m" using assms(1) by (auto simp: create_insert_def split: option.splits if_splits)
  with assms(2) show ?thesis by simp
next
  case True
  then obtain key where key: "random = Some key" "map_of (mg_disk m) key = None" by blast
  obtain ok m1 where p: "persistLocked cfg w key (emitLocked cfg w key ''info'' ''Job queued''
      (insert_job key (new_job key r (io_now w)) m)) = (ok, m1)" by fastforce
  have "mg_disk m' = mg_disk m1"
    using assms(1) key p by (auto simp: create_insert_def Let_def split: option.splits if_splits)
  then have "map fst (mg_disk m') = map fst (AList.update key empty_dir (mg_disk m))"
    using Jobs.inserted(9) [OF p] by (simp add: insert_job_def)
  from same_keys [OF this, of k] assms(2) show ?thesis by (auto simp: update_conv')
qed

lemma worker_ok_cong:
  assumes "mg_cancellers m' = mg_cancellers m"
    and "\<And>k i q. view m' k = Some (i, q, Running) \<longleftrightarrow> view m k = Some (i, q, Running)"
  shows "worker_ok m' w = worker_ok m w"
  by (simp add: worker_ok_def assms split: option.split)

lemma inv_inserted:
  assumes i: "inv s" and c: "sy_creator s = Validated r"
    and r: "create_insert cfg w random r (sy_mgr s) = (Inr (key, j), m')"
  shows "inv (with_creator s m' (Inserted key r))"
proof -
  let ?m = "sy_mgr s"
  note inv = invD [OF i] and ok = create_insert_ok [OF r]
  have fr: "fresh ?m r" and q: "length (mg_queue ?m) < 128" using inv(4) c by (simp_all add: creator_ok_def)
  have keyed: "keyed ?m" and ds: "distinct (map fst (mg_jobs ?m))" "distinct (map fst (mg_disk ?m))"
    using inv(1) unfolding books_def keyed_def by blast+
  have new: "view ?m key = None" by (rule keyed_unknown [OF keyed ok(2)])
  have sr: "mg_cancellers m' = mg_cancellers ?m" "mg_queue m' = mg_queue ?m" "mg_expired m' = mg_expired ?m"
    using ok(5) by (simp_all add: same_rest_def)
  have "books m'"
    by (rule inserted_books [OF inv(1) fr ok(2-5) ok(7) ok(8) [OF ds(1)] ok(9) [OF ds(2)]])
      (use insert_dirs [OF r] in \<open>auto simp: disk_view_def Option.bind_eq_Some_conv\<close>)
  moreover have "accounted m' (sy_log s)"
  proof (rule accounted_mono [OF inv(2)])
    fix x assume "spent ?m x"
    then show "spent m' x" unfolding spent_def sr(3) ok(3) using new by (metis fun_upd_apply option.distinct(1))
  qed
  moreover have "worker_ok m' (busy (sy_worker s))"
    using inv(3) worker_ok_cong [OF sr(1), of "busy (sy_worker s)"] new by (simp add: ok(3))
  ultimately show ?thesis
    using channels_kept_quiet [OF ok(10) inv(6)] inv(5) sr(2) q
    by (simp add: inv_def with_creator_def creator_ok_def)
qed

lemma keeps_not_inserted:
  assumes r: "create_insert cfg w random r m = (Inl e, m')" and "fresh m r"
  shows "keeps m m'"
  using create_insert_fail [OF r]
proof
  assume "\<exists>key. map_of (mg_disk m) key = None \<and> view m' = (view m)(key := None)
    \<and> (\<forall>k. k \<noteq> key \<longrightarrow> disk_view m' k = disk_view m k)
    \<and> (disk_view m' key = None \<or> disk_view m' key = Some (key, r))
    \<and> same_rest m m' \<and> mg_submissions m' = mg_submissions m \<and> mg_admission_error m'
    \<and> (distinct (map fst (mg_jobs m)) \<longrightarrow> distinct (map fst (mg_jobs m')))
    \<and> (distinct (map fst (mg_disk m)) \<longrightarrow> distinct (map fst (mg_disk m'))) \<and> channels_kept m m'"
  then obtain key where d: "map_of (mg_disk m) key = None" and v: "view m' = (view m)(key := None)"
    and dv: "\<forall>k. k \<noteq> key \<longrightarrow> disk_view m' k = disk_view m k"
    and sr: "same_rest m m'" "mg_submissions m' = mg_submissions m"
    and ds: "distinct (map fst (mg_jobs m)) \<longrightarrow> distinct (map fst (mg_jobs m'))"
      "distinct (map fst (mg_disk m)) \<longrightarrow> distinct (map fst (mg_disk m'))" and ch: "channels_kept m m'"
    by blast
  have ex: "mg_expired m' = mg_expired m" "mg_tombstones m' = mg_tombstones m" "mg_cancellers m' = mg_cancellers m"
    "mg_queue m' = mg_queue m" using sr(1) by (simp_all add: same_rest_def)
  have "books m'" "view m' = view m" if b: "books m"
  proof -
    have new: "view m key = None" using b d keyed_unknown by (simp add: books_def)
    then show v': "view m' = view m" using v by auto
    have "keyed m'"
      using b ds insert_dirs [OF r] unfolding books_def keyed_def v' by blast
    moreover have "ids_agree m'" using b unfolding books_def ids_agree_def v' ex sr(2) by blast
    moreover have "durable m'" using b dv new unfolding books_def durable_def v' ex by (metis option.distinct(1))
    ultimately show "books m'" by (simp add: books_def)
  qed
  then show ?thesis using ch by (simp add: keeps_def accounted_def spent_def unused_def ex sr(2))
qed simp

lemma inv_enqueued:
  assumes i: "inv s" and c: "sy_creator s = Inserted key r"
  shows "inv (with_creator s (unpin r (submit_reserve cfg key (create_enqueue skip key (sy_mgr s)))) Resting)"
proof -
  let ?m = "sy_mgr s" and ?e = "create_enqueue skip key (sy_mgr s)"
  note inv = invD [OF i]
  have q: "length (mg_queue ?m) < 128" using inv(4) c by (simp add: creator_ok_def)
  have f: "mg_jobs ?e = mg_jobs ?m" "mg_disk ?e = mg_disk ?m" "mg_submissions ?e = mg_submissions ?m"
    "mg_expired ?e = mg_expired ?m" "mg_tombstones ?e = mg_tombstones ?m" "mg_cancellers ?e = mg_cancellers ?m"
    "channels_kept ?m ?e" "length (mg_queue ?e) \<le> 128"
    using q by (simp_all add: create_enqueue_def channels_kept_same)
  have "inv (with_creator s ?e Resting)"
    using inv f books_fields [OF f(1-5)] worker_ok_cong [OF f(6)] channels_kept_quiet [OF f(7) inv(6)]
    by (simp add: inv_def with_creator_def creator_ok_def)
  then have "inv (with_creator (with_creator s ?e Resting) (unpin r (submit_reserve cfg key ?e)) Resting)"
    by (rule inv_keeps_creator) (simp_all add: with_creator_def creator_ok_def keeps_trans [OF keeps_reserve keeps_unpin])
  then show ?thesis by (simp add: with_creator_def)
qed

subsection \<open>A restart\<close>

lemma pattern_not_temporary: "requestIDPattern q \<Longrightarrow> \<not> prefix ''.submission-'' (q @ x)"
proof
  assume p: "requestIDPattern q" and t: "prefix ''.submission-'' (q @ x)"
  from p obtain c cs where q: "q = c # cs" "is_lower_hex c" by (cases q) (auto simp: requestIDPattern_def)
  from t q(1) have "c = CHR ''.''" by simp
  with q(2) show False by (simp add: is_lower_hex_def is_digit_def)
qed

lemma load_tombstones_Inr:
  assumes "load_tombstones (tombstone_files ts) acc = Inr ex"
  shows "(requestIDPattern r \<longrightarrow> acc r \<noteq> None \<or> map_of ts r \<noteq> None \<longrightarrow> ex r \<noteq> None)
    \<and> (ex r \<noteq> None \<longrightarrow> acc r \<noteq> None \<or> (map_of ts r \<noteq> None \<and> requestIDPattern r))"
  using assms
proof (induction ts arbitrary: acc)
  case Nil
  then show ?case by (simp add: tombstone_files_def)
next
  case (Cons e ts)
  obtain q t where e: "e = (q, t)" by (cases e)
  have key: "trim_json (q @ ''.json'') = q" by (simp add: trim_json_def suffix_def)
  have files: "tombstone_files (e # ts) = \<lparr>tf_name = q @ ''.json'', tf_dir = False, tf_content = Some t\<rparr> # tombstone_files ts"
    by (simp add: tombstone_files_def e)
  show ?case
  proof (cases "prefix ''.submission-'' (q @ ''.json'')")
    case True
    with Cons.prems have "load_tombstones (tombstone_files ts) acc = Inr ex" by (simp add: files)
    from Cons.IH [OF this] pattern_not_temporary [of q "''.json''"] True show ?thesis by (auto simp: e)
  next
    case False
    with Cons.prems have "requestIDPattern q" "load_tombstones (tombstone_files ts) (acc(q \<mapsto> t)) = Inr ex"
      by (simp_all add: files key Let_def split: if_splits)
    with Cons.IH [OF this(2)] show ?thesis by (auto simp: e split: if_splits)
  qed
qed

end
