(* ===== verification/JobRestart.thy ===== *)
theory JobRestart
  imports JobSafety
begin

text \<open>
  The restart of the station: \<open>OpenManager\<close> on the disk of a manager whose books are in order gives
  a manager whose books are in order, with nothing queued or running, and with every request id that
  was known before still known.  With the steps of \<open>JobSafety\<close> this makes the invariant hold in every
  reachable state; the properties of the whole job manager follow.
\<close>

subsection \<open>Loading one job\<close>

definition idle_parts :: "manager \<Rightarrow> bool" where
  "idle_parts m \<longleftrightarrow> mg_cancellers m = [] \<and> mg_queue m = [] \<and> (\<forall>k. mg_subscribers m k = []) \<and> \<not> mg_panic m"

text \<open>The state of \<open>load\<close> after the directories \<open>S\<close> of the disk \<open>D\<close> were read.\<close>

definition loaded_view :: "manager \<Rightarrow> manager \<Rightarrow> string set \<Rightarrow> bool" where
  "loaded_view D m S \<longleftrightarrow> (\<forall>k i q st. view m k = Some (i, q, st) \<longrightarrow> i = k \<and> k \<in> S
     \<and> (rq_id q = [] \<or> requestIDPattern (rq_id q)) \<and> \<not> unfinished st \<and> disk_view m k = Some (k, q)
     \<and> mg_expired m (rq_id q) = None \<and> (rq_id q \<noteq> [] \<longrightarrow> mg_submissions m (rq_id q) = Some k))"

definition loaded_ids :: "manager \<Rightarrow> bool" where
  "loaded_ids m \<longleftrightarrow> (\<forall>r k. mg_submissions m r = Some k \<longrightarrow> r \<noteq> [] \<and> mg_expired m r = None
     \<and> (\<exists>q st. view m k = Some (k, q, st) \<and> rq_id q = r))"

definition loaded_disk :: "manager \<Rightarrow> manager \<Rightarrow> string set \<Rightarrow> bool" where
  "loaded_disk D m S \<longleftrightarrow> (\<forall>k. k \<notin> S \<longrightarrow> map_of (mg_disk m) k = map_of (mg_disk D) k)
     \<and> (\<forall>k \<in> S. \<forall>i q. disk_view D k = Some (i, q) \<longrightarrow>
          mg_expired m (rq_id q) \<noteq> None \<or> (\<exists>st. view m k = Some (k, q, st)))
     \<and> distinct (map fst (mg_jobs m)) \<and> distinct (map fst (mg_disk m))"

definition loading :: "manager \<Rightarrow> manager \<Rightarrow> string set \<Rightarrow> bool" where
  "loading D m S \<longleftrightarrow> loaded_view D m S \<and> loaded_ids m \<and> loaded_disk D m S \<and> idle_parts m"

lemma dir_request_cong: "jd_job d' = jd_job d \<Longrightarrow> dir_request d' = dir_request d"
  by (simp add: dir_request_def)

lemma bound_same:
  assumes "boundHistoricalOutput cfg w budgeted j d = (True, j1, d1)" "dir_request d = Some (jb_id j, jb_request j)"
  shows "jb_id j1 = jb_id j" "jb_request j1 = jb_request j" "jb_state j1 = jb_state j"
    "dir_request d1 = Some (jb_id j, jb_request j)"
proof -
  obtain c1 ja da where b1: "bound_events cfg (io_now w) j d = (c1, ja, da)" by (metis prod_cases3)
  obtain c2 jb db where b2: "bound_transcript cfg ja da = (c2, jb, db)" by (metis prod_cases3)
  have a: "jb_id ja = jb_id j" "jb_request ja = jb_request j" "jb_state ja = jb_state j" "jd_job da = jd_job d"
    using b1 by (auto simp: bound_events_def Let_def split: if_splits)
  have b: "jb_id jb = jb_id ja" "jb_request jb = jb_request ja" "jb_state jb = jb_state ja" "jd_job db = jd_job da"
    using b2 by (auto simp: bound_transcript_def split: option.splits if_splits)
  have br: "jb_id (bound_record jb) = jb_id jb" "jb_request (bound_record jb) = jb_request jb"
    "jb_state (bound_record jb) = jb_state jb" by (simp_all add: bound_record_def)
  obtain ok dc where p: "publish_record cfg w budgeted (bound_record jb) db = (ok, dc)" by fastforce
  have cases: "(j1 = j \<and> d1 = d) \<or> (j1 = jb \<and> d1 = db) \<or> (j1 = bound_record jb \<and> d1 = dc \<and> ok)"
  proof (cases budgeted)
    case True
    show ?thesis
      using assms(1) p by (cases "c1 \<or> c2") (auto simp: boundHistoricalOutput_def b1 b2 True)
  next
    case False
    then show ?thesis using assms(1) by (simp add: boundHistoricalOutput_def)
  qed
  then show "jb_id j1 = jb_id j" "jb_request j1 = jb_request j" "jb_state j1 = jb_state j" using a b br by auto
  have "dir_request db = dir_request d" using a b by (intro dir_request_cong) simp
  moreover have "dir_request dc = Some (jb_id j, jb_request j)" if ok
    using publish_record_True [of cfg w budgeted "bound_record jb" db] that p a b br by simp
  ultimately show "dir_request d1 = Some (jb_id j, jb_request j)" using cases assms(2) by auto
qed

lemma recover_same [simp]:
  "jb_id (recover_job now n j) = jb_id j" "jb_request (recover_job now n j) = jb_request j"
  "jb_state (recover_job now n j) = Failed"
  by (simp_all add: recover_job_def)

text \<open>Writing the log and the record of a job leaves other directories and the subscribers.\<close>

lemma emitLocked_others:
  "k \<noteq> key \<Longrightarrow> map_of (mg_disk (emitLocked cfg w key level message m)) k = map_of (mg_disk m) k"
  "mg_subscribers (emitLocked cfg w key level message m) = mg_subscribers m"
  by (simp_all add: emitLocked_def log_event_def deliver_def appendEventLocked_def upd_dir_def upd_job_def
      map_of_entry Let_def split: option.split)

lemma persist_others:
  "k \<noteq> key \<Longrightarrow> map_of (mg_disk (persist cfg w key m)) k = map_of (mg_disk m) k"
  "mg_subscribers (persist cfg w key m) = mg_subscribers m"
  by (simp_all add: persist_def persistLocked_def upd_dir_def upd_job_def map_of_entry Let_def split_beta
      split: option.split)

lemma idle_channels: "idle_parts m \<Longrightarrow> channels_ok m"
  by (simp add: idle_parts_def channels_ok_def)

lemma idle_written:
  assumes "idle_parts m" "find_job m key \<noteq> None"
  shows "idle_parts (persist cfg w key (emitLocked cfg w key level message m))"
proof -
  let ?m' = "persist cfg w key (emitLocked cfg w key level message m)"
  have "logs_only m ?m'" by (rule logs_only_trans [OF logs_only_emitLocked logs_only_persist])
  from logs_onlyD [OF this] have f: "mg_cancellers ?m' = mg_cancellers m" "mg_queue ?m' = mg_queue m" by simp_all
  have "channels_kept m ?m'"
    using assms(2) by (intro channels_kept_trans [OF channels_kept_emitLocked channels_kept_persist]) simp_all
  then have "mg_panic ?m' = mg_panic m" using idle_channels [OF assms(1)] by (simp add: channels_kept_def)
  with f assms(1) show ?thesis by (simp add: idle_parts_def persist_others emitLocked_others)
qed

text \<open>What loading one job does to the manager.\<close>

lemma load_job_effect:
  assumes l: "load_job cfg rv key j d m = (None, m')" and j: "jb_id j = key" "dir_request d = Some (key, jb_request j)"
    and d: "map_of (mg_disk m) key \<noteq> None"
  shows "\<exists>st. \<not> unfinished st \<and> view m' = (view m)(key \<mapsto> (key, jb_request j, st))"
    "disk_view m' key = Some (key, jb_request j)" "\<And>k. k \<noteq> key \<Longrightarrow> map_of (mg_disk m') k = map_of (mg_disk m) k"
    "mg_submissions m' = mg_submissions m" "mg_expired m' = mg_expired m" "idle_parts m \<Longrightarrow> idle_parts m'"
    "distinct (map fst (mg_jobs m)) \<Longrightarrow> distinct (map fst (mg_jobs m'))"
    "distinct (map fst (mg_disk m)) \<Longrightarrow> distinct (map fst (mg_disk m'))"
    "mg_tombstones m' = mg_tombstones m"
proof -
  let ?w = "rv_io rv key"
  obtain ok j1 d1 where b: "boundHistoricalOutput cfg ?w (mg_budget m \<noteq> None) j d = (ok, j1, d1)" by (metis prod_cases3)
  have ok: ok using l b by (cases ok) (auto simp: load_job_def Let_def)
  have "dir_request d = Some (jb_id j, jb_request j)" using j by simp
  from bound_same [OF b [unfolded ok [THEN eqTrueI]] this] j(1)
  have same: "jb_id j1 = key" "jb_request j1 = jb_request j" "jb_state j1 = jb_state j" "dir_request d1 = Some (key, jb_request j)"
    by simp_all
  let ?m1 = "adopt_job cfg key j1 d1 m"
  let ?m2 = "upd_job key (recover_job (io_now ?w) (jd_serial d1)) ?m1"
  let ?m3 = "emitLocked cfg ?w key ''error'' stop_text ?m2"
  have m': "m' = (if unfinished (jb_state j) then persist cfg ?w key ?m3 else ?m1)"
    and written: "unfinished (jb_state j) \<Longrightarrow> fst (persistLocked cfg ?w key ?m3)"
    using l b ok by (auto simp: load_job_def Let_def persist_def split: prod.splits if_splits)
  have view1: "view ?m1 = (view m)(key \<mapsto> (key, jb_request j, jb_state j))"
    using same by (simp add: view_find find_job_def adopt_job_def Let_def update_conv' fun_eq_iff)
  have disk1: "map_of (mg_disk ?m1) k = (if k = key then Some d1 else map_of (mg_disk m) k)" for k
    using d by (auto simp: adopt_job_def Let_def map_of_entry)
  have keys1: "map fst (mg_disk ?m1) = map fst (mg_disk m)" by (simp add: adopt_job_def Let_def keys_entry)
  have jobs1: "distinct (map fst (mg_jobs ?m1))" if "distinct (map fst (mg_jobs m))"
    using that by (simp add: adopt_job_def Let_def distinct_update)
  have rest1: "mg_submissions ?m1 = mg_submissions m" "mg_expired ?m1 = mg_expired m" "mg_cancellers ?m1 = mg_cancellers m"
    "mg_queue ?m1 = mg_queue m" "mg_subscribers ?m1 = mg_subscribers m" "mg_panic ?m1 = mg_panic m" "mg_tombstones ?m1 = mg_tombstones m"
    by (simp_all add: adopt_job_def Let_def)
  have present: "find_job ?m2 key \<noteq> None" using view1 by (metis fun_upd_same option.distinct(1) upd_job_present view_None)
  have view2: "view ?m2 = (view m)(key \<mapsto> (key, jb_request j, Failed))"
    using view_set_state [of ?m1 key "recover_job (io_now ?w) (jd_serial d1)" Failed "jb_request j" "jb_state j"]
    by (simp add: view1)
  have l: "logs_only ?m2 (persist cfg ?w key ?m3)"
    by (rule logs_only_trans [OF logs_only_emitLocked logs_only_persist])
  note lo = logs_onlyD [OF l]
  have view': "view m' = (view m)(key \<mapsto> (key, jb_request j, if unfinished (jb_state j) then Failed else jb_state j))"
    unfolding m' using lo(1) view1 view2 by simp
  show "\<exists>st. \<not> unfinished st \<and> view m' = (view m)(key \<mapsto> (key, jb_request j, st))"
    by (rule exI [of _ "if unfinished (jb_state j) then Failed else jb_state j"])
      (simp add: view' unfinished_def)
  show "disk_view m' key = Some (key, jb_request j)"
  proof (cases "unfinished (jb_state j)")
    case True
    from persistLocked_True [OF written [OF True]] obtain jj where
      "find_job ?m3 key = Some jj" "disk_view m' key = Some (jb_id jj, jb_request jj)"
      unfolding m' using True by auto
    moreover have "view ?m3 = view ?m2" by (rule logs_onlyD(1) [OF logs_only_emitLocked])
    ultimately show ?thesis using view2 by (auto simp: view_find fun_eq_iff split: if_splits)
  next
    case False
    then show ?thesis unfolding m' using disk1 [of key] same(4) by (simp add: disk_view_def)
  qed
  show "map_of (mg_disk m') k = map_of (mg_disk m) k" if "k \<noteq> key" for k
    unfolding m' using that disk1 [of k] by (simp add: persist_others emitLocked_others)
  show "mg_submissions m' = mg_submissions m" "mg_expired m' = mg_expired m"
    unfolding m' using lo rest1 by simp_all
  show "mg_tombstones m' = mg_tombstones m"
    unfolding m' using l rest1(7) by (simp add: logs_only_def same_frame_def)
  show "idle_parts m'" if "idle_parts m"
  proof -
    have "idle_parts ?m1" "idle_parts ?m2" using that rest1 by (simp_all add: idle_parts_def)
    then show ?thesis unfolding m' using idle_written [OF _ present] by auto
  qed
  have "map fst (mg_jobs m') = map fst (mg_jobs ?m1)" "map fst (mg_disk m') = map fst (mg_disk ?m1)"
    unfolding m' using l by (simp_all add: logs_only_def same_frame_def)
  with jobs1 keys1 show "distinct (map fst (mg_jobs m)) \<Longrightarrow> distinct (map fst (mg_jobs m'))"
    "distinct (map fst (mg_disk m)) \<Longrightarrow> distinct (map fst (mg_disk m'))" by simp_all
qed

subsection \<open>Loading every job\<close>

lemma remove_effect:
  assumes "removeKnownJob fault key m = (ok, m')"
  shows "view m' = view m" "\<And>k. k \<noteq> key \<Longrightarrow> map_of (mg_disk m') k = map_of (mg_disk m) k"
    "mg_submissions m' = mg_submissions m" "mg_expired m' = mg_expired m" "idle_parts m' = idle_parts m"
    "mg_jobs m' = mg_jobs m" "distinct (map fst (mg_disk m)) \<Longrightarrow> distinct (map fst (mg_disk m'))"
    "mg_tombstones m' = mg_tombstones m"
proof -
  have "m' = m \<or> (\<exists>n. m' = upd_dir key (remove_files n) m) \<or> m' = m\<lparr>mg_disk := AList.delete key (mg_disk m)\<rparr>"
    using assms by (auto simp: removeKnownJob_def split: option.splits if_splits)
  then show "view m' = view m" "\<And>k. k \<noteq> key \<Longrightarrow> map_of (mg_disk m') k = map_of (mg_disk m) k"
    "mg_submissions m' = mg_submissions m" "mg_expired m' = mg_expired m" "idle_parts m' = idle_parts m"
    "mg_jobs m' = mg_jobs m" "distinct (map fst (mg_disk m)) \<Longrightarrow> distinct (map fst (mg_disk m'))"
    "mg_tombstones m' = mg_tombstones m"
    by (auto simp: upd_dir_def view_find find_job_def fun_eq_iff idle_parts_def map_of_entry keys_entry
        delete_conv' distinct_delete)
qed

lemma loadingD:
  assumes "loading D m S"
  shows "loaded_view D m S" "loaded_ids m" "loaded_disk D m S" "idle_parts m"
  using assms by (simp_all add: loading_def)

lemma disk_view_cong_at: "map_of (mg_disk m') k = map_of (mg_disk m) k \<Longrightarrow> disk_view m' k = disk_view m k"
  by (simp add: disk_view_def)

lemma load_entry_loading:
  assumes L: "loading D m S" and new: "key \<notin> S" and d: "map_of (mg_disk D) key = Some d"
    and e: "load_entry cfg rv (key, d) m = (None, m')" and ex: "mg_expired m [] = None"
  shows "loading D m' (insert key S) \<and> mg_expired m' = mg_expired m \<and> mg_tombstones m' = mg_tombstones m"
proof (cases "jd_job d")
  case None
  then have "m' = m" "disk_view D key = None" using e d by (auto simp: load_entry_def disk_view_def dir_request_def)
  then show ?thesis
    using L by (auto simp: loading_def loaded_view_def loaded_disk_def)
next
  case (Some jn)
  obtain j n where jn: "jn = (j, n)" by (cases jn)
  let ?r = "rq_id (jb_request j)"
  have id: "jb_id j = key" using e Some jn by (auto simp: load_entry_def Let_def split: if_splits)
  have dd: "disk_view D key = Some (key, jb_request j)" "dir_request d = Some (key, jb_request j)"
    using d Some jn id by (simp_all add: disk_view_def dir_request_def)
  note v = loadingD(1) [OF L, unfolded loaded_view_def, rule_format]
    and i = loadingD(2) [OF L, unfolded loaded_ids_def, rule_format]
  have unseen: "view m key = None"
  proof (rule ccontr)
    assume "view m key \<noteq> None"
    then obtain a q st where "view m key = Some (a, q, st)" by (metis option.exhaust surj_pair)
    with v new show False by blast
  qed
  show ?thesis
  proof (cases "mg_expired m ?r")
    case (Some t)
    with e \<open>jd_job d = Some jn\<close> jn obtain m1 where rm: "removeKnownJob (rv_remove rv key) key m = (True, m1)" "m' = m1"
      by (auto simp: load_entry_def Let_def split: if_splits prod.splits bool.splits)
    note re = remove_effect [OF rm(1), folded rm(2)]
    have keep: "disk_view m' k = disk_view m k" if "view m k = Some (a, q, st)" for k a q st
      using re(2) [of k] that unseen by (cases "k = key") (auto intro: disk_view_cong_at)
    have "loaded_view D m' (insert key S)"
      unfolding loaded_view_def re(1,3,4) using v keep by (metis insertI2)
    moreover have "loaded_ids m'"
      using loadingD(2) [OF L] unfolding loaded_ids_def re(1,3,4) .
    moreover have "loaded_disk D m' (insert key S)"
      using loadingD(3) [OF L] Some dd re(2,6,7) unfolding loaded_disk_def re(1,3,4) by auto
    ultimately show ?thesis using re(4,5,8) loadingD(4) [OF L] by (simp add: loading_def)
  next
    case None
    let ?mz = "if ?r = [] then m else m\<lparr>mg_submissions := (mg_submissions m)(?r \<mapsto> key)\<rparr>"
    from e None \<open>jd_job d = Some jn\<close> jn have pat: "?r = [] \<or> requestIDPattern ?r" and free: "?r = [] \<or> mg_submissions m ?r = None"
      and lj: "load_job cfg rv key j d ?mz = (None, m')"
      by (auto simp: load_entry_def Let_def split: if_splits)
    have z: "view ?mz = view m" "mg_disk ?mz = mg_disk m" "mg_expired ?mz = mg_expired m" "idle_parts ?mz = idle_parts m"
      "mg_jobs ?mz = mg_jobs m" "mg_tombstones ?mz = mg_tombstones m"
      by (simp_all add: view_find find_job_def fun_eq_iff idle_parts_def)
    have here: "map_of (mg_disk m) key \<noteq> None" using loadingD(3) [OF L] new d by (simp add: loaded_disk_def)
    note ef = load_job_effect [OF lj id dd(2), unfolded z, OF here]
    from ef(1) obtain st where st: "\<not> unfinished st" "view m' = (view m)(key \<mapsto> (key, jb_request j, st))" by blast
    have sub: "mg_submissions m' = (if ?r = [] then mg_submissions m else (mg_submissions m)(?r \<mapsto> key))"
      using ef(4) by simp
    have keep: "disk_view m' k = disk_view m k" if "k \<noteq> key" for k
      using ef(3) [OF that] by (rule disk_view_cong_at)
    have other: "rq_id q \<noteq> ?r" if "view m k = Some (a, q, s)" "rq_id q \<noteq> []" for k a q s
      using v [OF that(1)] that(2) free by auto
    have "loaded_view D m' (insert key S)"
      unfolding loaded_view_def
    proof (intro allI impI)
      fix k a q s assume a: "view m' k = Some (a, q, s)"
      show "a = k \<and> k \<in> insert key S \<and> (rq_id q = [] \<or> requestIDPattern (rq_id q)) \<and> \<not> unfinished s
        \<and> disk_view m' k = Some (k, q) \<and> mg_expired m' (rq_id q) = None
        \<and> (rq_id q \<noteq> [] \<longrightarrow> mg_submissions m' (rq_id q) = Some k)"
      proof (cases "k = key")
        case True
        with a st have "a = key" "q = jb_request j" "s = st" by auto
        with True st(1) pat ef(2,5) None sub show ?thesis by simp
      next
        case False
        with a st have o: "view m k = Some (a, q, s)" by simp
        with v [OF o] keep [OF False] ef(5) sub other [OF o] show ?thesis by auto
      qed
    qed
    moreover have "loaded_ids m'"
      unfolding loaded_ids_def
    proof (intro allI impI)
      fix x k assume a: "mg_submissions m' x = Some k"
      show "x \<noteq> [] \<and> mg_expired m' x = None \<and> (\<exists>q st. view m' k = Some (k, q, st) \<and> rq_id q = x)"
      proof (cases "?r \<noteq> [] \<and> x = ?r")
        case True
        with a sub have "k = key" by simp
        with True st(2) ef(5) None show ?thesis by simp
      next
        case False
        with a sub have o: "mg_submissions m x = Some k" by (auto split: if_splits)
        from i [OF o] obtain q s where o': "x \<noteq> []" "mg_expired m x = None" "view m k = Some (k, q, s)" "rq_id q = x" by blast
        with unseen have "k \<noteq> key" by auto
        with o' st(2) ef(5) show ?thesis by simp
      qed
    qed
    moreover have "loaded_disk D m' (insert key S)"
    proof -
      have "\<exists>st. view m' k = Some (k, q, st)" if "view m k = Some (k, q, s)" for k q s
        using that st(2) unseen by (cases "k = key") auto
      then show ?thesis
        using loadingD(3) [OF L] ef(3,5,7,8) dd(1) st(2) unfolding loaded_disk_def by auto
    qed
    ultimately show ?thesis using ef(5,6,9) loadingD(4) [OF L] by (simp add: loading_def)
  qed
qed

lemma load_jobs_loading:
  assumes "load_jobs cfg rv es m = (None, m')" "loading D m S" "distinct (map fst es)" "fst ` set es \<inter> S = {}"
    "\<And>k d. (k, d) \<in> set es \<Longrightarrow> map_of (mg_disk D) k = Some d" "mg_expired m [] = None"
  shows "loading D m' (S \<union> fst ` set es) \<and> mg_expired m' = mg_expired m \<and> mg_tombstones m' = mg_tombstones m"
  using assms
proof (induction es arbitrary: m S)
  case (Cons e es)
  obtain k d where e: "e = (k, d)" by (cases e)
  from Cons.prems(1) obtain m1 where m1: "load_entry cfg rv (k, d) m = (None, m1)" "load_jobs cfg rv es m1 = (None, m')"
    by (auto simp: e split: prod.splits option.splits)
  have "k \<notin> S" "map_of (mg_disk D) k = Some d" using Cons.prems(4,5) by (auto simp: e)
  from load_entry_loading [OF Cons.prems(2) this m1(1) Cons.prems(6)]
  have l1: "loading D m1 (insert k S)" "mg_expired m1 = mg_expired m" "mg_tombstones m1 = mg_tombstones m" by blast+
  have "loading D m' (insert k S \<union> fst ` set es) \<and> mg_expired m' = mg_expired m1 \<and> mg_tombstones m' = mg_tombstones m1"
    by (rule Cons.IH [OF m1(2) l1(1)]) (use Cons.prems(3-6) l1 in \<open>auto simp: e image_iff\<close>)
  then show ?case by (simp add: e l1)
qed simp

subsection \<open>Opening the manager\<close>

definition known :: "manager \<Rightarrow> string \<Rightarrow> bool" where
  "known m r \<longleftrightarrow> mg_submissions m r \<noteq> None \<or> mg_expired m r \<noteq> None"

lemma known_unused: "known m r \<longleftrightarrow> \<not> unused m r"
  by (auto simp: known_def unused_def)

lemma known_keeps: "keeps m m' \<Longrightarrow> books m \<Longrightarrow> r \<noteq> [] \<Longrightarrow> known m r \<Longrightarrow> known m' r"
  using keepsD(3) by (simp add: known_unused)

definition settled :: "manager \<Rightarrow> bool" where
  "settled m \<longleftrightarrow> (\<forall>k i q st. view m k = Some (i, q, st) \<longrightarrow> \<not> unfinished st)"

lemma pattern_not_Nil: "\<not> requestIDPattern []"
  by (simp add: requestIDPattern_def)

lemma loaded_books:
  assumes b: "books D" and ex: "load_tombstones (tombstone_files (mg_tombstones D)) (\<lambda>_. None) = Inr ex"
    and l: "load_jobs cfg rv (mg_disk D) ((fresh_memory limit D)\<lparr>mg_expired := ex\<rparr>) = (None, m)"
  shows "books m" "accounted D hist \<Longrightarrow> accounted m hist" "known D r \<Longrightarrow> known m r" "settled m" "idle_parts m"
proof -
  let ?mz = "(fresh_memory limit D)\<lparr>mg_expired := ex\<rparr>"
  have keyed: "keyed D" and ids: "ids_agree D" and dur: "durable D" using b by (simp_all add: books_def)
  have dd: "distinct (map fst (mg_disk D))" using keyed unfolding keyed_def by blast
  have exr: "(requestIDPattern r \<longrightarrow> map_of (mg_tombstones D) r \<noteq> None \<longrightarrow> ex r \<noteq> None)
      \<and> (ex r \<noteq> None \<longrightarrow> map_of (mg_tombstones D) r \<noteq> None \<and> requestIDPattern r)" for r
    using load_tombstones_Inr [OF ex, of r] by blast
  have z: "view ?mz = (\<lambda>_. None)" "mg_submissions ?mz = (\<lambda>_. None)" "mg_disk ?mz = mg_disk D" "mg_jobs ?mz = []"
    "mg_expired ?mz = ex" "mg_tombstones ?mz = mg_tombstones D"
    by (simp_all add: fresh_memory_def view_find find_job_def fun_eq_iff)
  have "idle_parts ?mz" by (simp add: fresh_memory_def idle_parts_def)
  then have "loading D ?mz {}"
    by (simp add: loading_def loaded_view_def loaded_ids_def loaded_disk_def z dd)
  moreover have "ex [] = None" using exr [of "[]"] pattern_not_Nil by blast
  ultimately have L: "loading D m (fst ` set (mg_disk D))" "mg_expired m = ex" "mg_tombstones m = mg_tombstones D"
    using load_jobs_loading [OF l, of D "{}"] dd by (auto simp: z)
  note v = loadingD(1) [OF L(1), unfolded loaded_view_def, rule_format]
    and i = loadingD(2) [OF L(1), unfolded loaded_ids_def, rule_format]
    and dk = loadingD(3) [OF L(1), unfolded loaded_disk_def]
  have disk: "ex (rq_id q) \<noteq> None \<or> (\<exists>st. view m k = Some (k, q, st))" if "disk_view D k = Some (a, q)" for k a q
  proof -
    have "k \<in> fst ` set (mg_disk D)"
      using that by (force simp: disk_view_def Option.bind_eq_Some_conv image_iff dest: map_of_SomeD)
    with dk that L(2) show ?thesis by blast
  qed
  show "settled m" using v unfolding settled_def by blast
  show "idle_parts m" by (rule loadingD(4) [OF L(1)])
  have "keyed m"
    unfolding keyed_def
  proof (intro conjI allI impI)
    fix k a q st assume "view m k = Some (a, q, st)"
    from v [OF this] show "a = k" "rq_id q = [] \<or> requestIDPattern (rq_id q)" by blast+
  next
    fix k assume "view m k \<noteq> None"
    then obtain a q st where "view m k = Some (a, q, st)" by (metis option.exhaust surj_pair)
    from v [OF this] show "map_of (mg_disk m) k \<noteq> None" by (auto simp: disk_view_def Option.bind_eq_Some_conv)
  qed (use dk in blast)+
  moreover have "ids_agree m"
    unfolding ids_agree_def
  proof (intro conjI allI impI)
    fix x k assume "mg_submissions m x = Some k"
    from i [OF this] show "x \<noteq> []" "\<exists>a q st. view m k = Some (a, q, st) \<and> rq_id q = x" by blast+
  next
    fix k a q st assume a: "view m k = Some (a, q, st) \<and> rq_id q \<noteq> []"
    from v [OF conjunct1 [OF a]] a show "mg_submissions m (rq_id q) = Some k \<or> mg_expired m (rq_id q) \<noteq> None" by blast
  next
    fix k a q st assume a: "view m k = Some (a, q, st) \<and> mg_expired m (rq_id q) \<noteq> None"
    from v [OF conjunct1 [OF a]] a show "Terminal st" by simp
  next
    fix x assume "mg_expired m x \<noteq> None"
    then show "mg_submissions m x = None" using i [of x] by (metis not_None_eq)
  qed (simp add: L(2) \<open>ex [] = None\<close>)
  moreover have "durable m"
    unfolding durable_def L(2,3) using exr v by blast
  ultimately show "books m" by (simp add: books_def)
  have spent: "spent m x" if x: "x \<noteq> []" "spent D x" for x
    using x(2) unfolding spent_def
  proof
    assume "mg_expired D x \<noteq> None"
    with dur exr [of x] L(2) show "mg_expired m x \<noteq> None \<or> (\<exists>k i q st. view m k = Some (i, q, st) \<and> rq_id q = x \<and> st \<noteq> Queued)"
      unfolding durable_def by metis
  next
    assume "\<exists>k i q st. view D k = Some (i, q, st) \<and> rq_id q = x \<and> st \<noteq> Queued"
    then obtain k a q st where o: "view D k = Some (a, q, st)" "rq_id q = x" by blast
    with dur x(1) have "disk_view D k = Some (k, q) \<or> mg_expired D x \<noteq> None" unfolding durable_def by blast
    then show "mg_expired m x \<noteq> None \<or> (\<exists>k i q st. view m k = Some (i, q, st) \<and> rq_id q = x \<and> st \<noteq> Queued)"
    proof
      assume "disk_view D k = Some (k, q)"
      from disk [OF this] have "ex x \<noteq> None \<or> (\<exists>st. view m k = Some (k, q, st))" by (simp add: o)
      moreover have "st' \<noteq> Queued" if "view m k = Some (k, q, st')" for st' using v [OF that] by (auto simp: unfinished_def)
      ultimately show ?thesis using o(2) L(2) by blast
    next
      assume "mg_expired D x \<noteq> None"
      with dur exr [of x] L(2) show ?thesis unfolding durable_def by metis
    qed
  qed
  then show "accounted m hist" if "accounted D hist" using accounted_mono [OF that] by blast
  show "known m r" if kn: "known D r"
  proof (cases "mg_expired D r = None")
    case False
    with dur exr [of r] L(2) show ?thesis unfolding durable_def known_def by metis
  next
    case True
    with kn obtain k where "mg_submissions D r = Some k" by (auto simp: known_def)
    with ids obtain a q st where o: "r \<noteq> []" "view D k = Some (a, q, st)" "rq_id q = r" unfolding ids_agree_def by metis
    with dur True have "disk_view D k = Some (k, q)" unfolding durable_def by blast
    from disk [OF this] have "ex r \<noteq> None \<or> (\<exists>st. view m k = Some (k, q, st))" by (simp add: o)
    then show ?thesis
    proof
      assume "\<exists>st. view m k = Some (k, q, st)"
      then obtain st' where "view m k = Some (k, q, st')" by blast
      from v [OF this] o show ?thesis by (auto simp: known_def)
    qed (simp add: known_def L(2))
  qed
qed

lemma cleanup_settled:
  assumes "keyed m" "cleaned cfg (pruned m) m m'"
  shows "settled m \<Longrightarrow> settled m'" "known m r \<Longrightarrow> known m' r" 
proof -
  show "settled m'" if st: "settled m"
    unfolding settled_def
  proof (intro allI impI)
    fix k a q s assume "view m' k = Some (a, q, s)"
    with cleaned_view [OF assms(2,1), of k] have "view m k = Some (a, q, s)" by auto
    with st show "\<not> unfinished s" unfolding settled_def by blast
  qed
  show "known m' r" if "known m r"
    using that cleaned_submissions(1,2) [OF assms(2), of r] by (auto simp: known_def)
qed

lemma channels_kept_idle: "channels_kept m m' \<Longrightarrow> idle_parts m \<Longrightarrow> quiet m'"
  using idle_channels by (auto simp: channels_kept_def quiet_def idle_parts_def)

lemma initialize_effect:
  assumes "initializeRetention cfg ci m = (None, m')" "books m" "settled m" "idle_parts m"
  shows "keeps m m'" "settled m'" "known m r \<Longrightarrow> known m' r"
proof -
  consider "m' = m" | g where "mg_budget m = Some g" "m' = snd (snd (cleanupLocked cfg ci True 0
      (m\<lparr>mg_budget := Some (g\<lparr>gt_reservations := DAList.update ''maintenance'' maintenanceReserve (gt_reservations g)\<rparr>)\<rparr>)))"
    using assms(1) by (auto simp: initializeRetention_def Let_def split: option.splits prod.splits if_splits)
  then have "keeps m m' \<and> settled m' \<and> (known m r \<longrightarrow> known m' r)"
  proof cases
    case 2
    let ?n = "m\<lparr>mg_budget := Some (g\<lparr>gt_reservations := DAList.update ''maintenance'' maintenanceReserve (gt_reservations g)\<rparr>)\<rparr>"
    have k: "keeps m ?n" by (rule keeps_fields) (simp_all add: channels_kept_same)
    obtain err acc where c: "cleanupLocked cfg ci True 0 ?n = (err, acc, m')" using 2(2) by (metis prod.collapse)
    have cl: "cleaned cfg (pruned ?n) ?n m'" using cleanupLocked_cleaned [OF c] by blast
    have vn: "view ?n = view m" by (simp add: view_find find_job_def fun_eq_iff)
    have kn: "keyed ?n" using keepsD(1) [OF k assms(2)] by (simp add: books_def)
    have "settled ?n" using assms(3) by (simp add: settled_def vn)
    with cleanup_settled(1) [OF kn cl] have "settled m'" by blast
    moreover have "known m r \<longrightarrow> known m' r" using cleanup_settled(2) [OF kn cl] by (simp add: known_def)
    moreover have "keeps m m'" using keeps_trans [OF k keeps_cleanup] 2(2) by metis
    ultimately show ?thesis by blast
  qed (simp add: assms(3))
  then show "keeps m m'" "settled m'" "known m r \<Longrightarrow> known m' r" by blast+
qed

lemma OpenManager_ok:
  assumes o: "OpenManager cfg rv limit D = (None, m')" and b: "books D"
  shows "accounted D hist \<Longrightarrow> inv (started m' hist)" "settled m'" "mg_queue m' = []" "known D r \<Longrightarrow> known m' r"
proof -
  from o obtain ex m1 where ex: "load_tombstones (tombstone_files (mg_tombstones D)) (\<lambda>_. None) = Inr ex"
    and l: "load_jobs cfg rv (mg_disk D) ((fresh_memory limit D)\<lparr>mg_expired := ex\<rparr>) = (None, m1)"
    and i: "initializeRetention cfg (rv_cleanup rv) m1 = (None, m')"
    by (auto simp: OpenManager_def Let_def split: sum.splits prod.splits option.splits)
  note lb = loaded_books [OF b ex l]
  note ini = initialize_effect [OF i lb(1,4,5)]
  note k = keepsD [OF ini(1) lb(1)] and kr = keeps_rest [OF ini(1)]
  show "settled m'" by (rule ini(2))
  show q: "mg_queue m' = []" using kr(2) lb(5) by (simp add: idle_parts_def)
  show "known D r \<Longrightarrow> known m' r" using lb(3) ini(3) by blast
  show "inv (started m' hist)" if "accounted D hist"
  proof -
    have "view m' k \<noteq> Some (a, x, Running)" for k a x
      using ini(2) by (auto simp: settled_def unfinished_def)
    then have "worker_ok m' None" using kr(1) lb(5) by (simp add: worker_ok_def idle_parts_def)
    moreover have "quiet m'" by (rule channels_kept_idle [OF kr(3) lb(5)])
    ultimately show ?thesis
      using k(1) k(2) [OF lb(2) [OF that]] q by (simp add: inv_def started_def creator_ok_def)
  qed
qed

subsection \<open>Every step\<close>

lemma blank_books: "books (blank so es)" "accounted (blank so es) []"
  by (simp_all add: books_def keyed_def ids_agree_def durable_def accounted_def blank_def view_find find_job_def)

lemma first_start_inv: "first_start cfg s \<Longrightarrow> inv s"
  by (induction rule: first_start.induct) (blast intro: OpenManager_ok(1) blank_books)

lemma busy_present: "inv s \<Longrightarrow> busy (sy_worker s) = Some key \<Longrightarrow> find_job (sy_mgr s) key \<noteq> None"
  using invD(3) [of s] by (auto simp: worker_ok_def view_Some)

lemma fresh_keeps: "keeps m m' \<Longrightarrow> books m \<Longrightarrow> fresh m r \<Longrightarrow> fresh m' r"
  using keepsD(3) by (auto simp: fresh_def)

lemma inv_busy:
  assumes "inv s" "busy (sy_worker s) = Some key" "find_job (sy_mgr s) key \<noteq> None \<Longrightarrow> keeps (sy_mgr s) m'"
    "busy w = Some key"
  shows "inv (with_worker s m' w)"
  using inv_keeps [OF assms(1) assms(3) [OF busy_present [OF assms(1,2)]]] assms(2,4) by simp

lemma step_inv:
  assumes "step cfg tx s s'" "inv s"
  shows "inv s'"
  using assms
proof cases
  case (check r)
  have "fresh (sy_mgr s) r"
    using check by (auto simp: submit_check_def Let_def fresh_def unused_def split: if_splits option.splits)
  with check show ?thesis using inv_keeps_creator [OF assms(2) keeps_refl] by (simp add: creator_ok_def)
next
  case (admitted r ci m')
  have "fresh (sy_mgr s) r" using invD(4) [OF assms(2)] admitted by (simp add: creator_ok_def)
  with fresh_keeps [OF keeps_admit [OF admitted(3)] invD(1) [OF assms(2)]] admitted
  show ?thesis using inv_keeps_creator [OF assms(2) keeps_admit [OF admitted(3)]] by (simp add: creator_ok_def)
next
  case (not_admitted r ci e m')
  then show ?thesis
    using inv_keeps_creator [OF assms(2) keeps_trans [OF keeps_admit [OF not_admitted(3)] keeps_unpin]]
    by (simp add: creator_ok_def)
next
  case (validated r faults)
  have "fresh (sy_mgr s) r" using invD(4) [OF assms(2)] validated by (simp add: creator_ok_def)
  moreover have "length (mg_queue (sy_mgr s)) < 128"
    using validated by (auto simp: create_validate_def split: option.splits if_splits)
  ultimately show ?thesis
    using validated inv_keeps_creator [OF assms(2) keeps_refl] by (simp add: creator_ok_def)
next
  case (not_validated r faults e)
  then show ?thesis using inv_keeps_creator [OF assms(2) keeps_unpin] by (simp add: creator_ok_def)
next
  case (not_inserted r w random e m')
  have "fresh (sy_mgr s) r" using invD(4) [OF assms(2)] not_inserted by (simp add: creator_ok_def)
  from keeps_trans [OF keeps_not_inserted [OF not_inserted(3) this] keeps_unpin] not_inserted
  show ?thesis using inv_keeps_creator [OF assms(2)] by (simp add: creator_ok_def)
next
  case (restart rv limit m')
  then show ?thesis using OpenManager_ok(1) [OF _ invD(1,2) [OF assms(2)]] by simp
qed (use assms(2) in \<open>auto intro: inv_start inv_skip inv_finish inv_cancel inv_inserted inv_enqueued
    inv_keeps inv_keeps_mgr keeps_warn keeps_emit keeps_retention keeps_cleanup keeps_subscribe keeps_unsubscribe
    keeps_receive keeps_closed keeps_outside
    inv_busy [OF _ _ keeps_capture_started] inv_busy [OF _ _ keeps_observe] inv_busy [OF _ _ keeps_capture_stopped]
    inv_busy [OF _ _ keeps_outcome] inv_busy [OF _ _ keeps_hook_failed]\<close>)

subsection \<open>Known request ids stay known\<close>

lemma run_start_known: "run_start cfg w key m = (res, m') \<Longrightarrow> known m' r = known m r"
proof -
  let ?f = "\<lambda>j. j\<lparr>jb_state := Running, jb_started := Some (io_now w)\<rparr>"
  let ?n = "upd_job key ?f (m\<lparr>mg_cancellers := key # mg_cancellers m, mg_canceled := removeAll key (mg_canceled m)\<rparr>)"
  let ?o = "persist cfg w key (emitLocked cfg w key ''info'' ''Job started'' ?n)"
  assume a: "run_start cfg w key m = (res, m')"
  have "logs_only ?n ?o" by (rule logs_only_trans [OF logs_only_emitLocked logs_only_persist])
  from logs_onlyD(2,3) [OF this] have "mg_submissions ?o = mg_submissions m" "mg_expired ?o = mg_expired m" by simp_all
  moreover have "m' = m \<or> m' = ?o" using a by (auto simp: run_start_def split: option.splits if_splits)
  ultimately show ?thesis by (auto simp: known_def)
qed

lemma run_finish_known: "known (run_finish cfg tx w key err m) r = known m r"
proof -
  let ?e = "with_context key m err" and ?z = "m\<lparr>mg_cancellers := removeAll key (mg_cancellers m)\<rparr>"
  let ?n = "upd_job key (finish_record tx (io_now w) ?e) ?z"
  let ?o = "closeSubscribersLocked key (persist cfg w key
          (emitLocked cfg w key (fst (final_event tx ?e)) (snd (final_event tx ?e)) ?n))"
  have "logs_only ?n ?o"
    by (rule logs_only_trans [OF logs_only_trans [OF logs_only_emitLocked logs_only_persist] logs_only_close])
  from logs_onlyD(2,3) [OF this] have o: "mg_submissions ?o = mg_submissions m" "mg_expired ?o = mg_expired m" by simp_all
  show ?thesis
  proof (cases "find_job ?z key")
    case None
    then have "run_finish cfg tx w key err m = ?z" by (simp add: run_finish_def Let_def)
    then show ?thesis by (simp add: known_def)
  next
    case (Some j)
    then have "run_finish cfg tx w key err m = ?o" by (simp add: run_finish_def Let_def)
    with o show ?thesis by (simp add: known_def)
  qed
qed

lemma cancel_known: "known (snd (cancel_section cfg w key m)) r = known m r"
proof (cases "find_job m key")
  case (Some j)
  let ?n = "upd_job key (\<lambda>j. j\<lparr>jb_state := Canceled, jb_finished := Some (io_now w)\<rparr>) m"
  let ?o = "persist cfg w key (emitLocked cfg w key ''warning'' ''Job canceled before execution'' ?n)"
  have "logs_only ?n ?o" by (rule logs_only_trans [OF logs_only_emitLocked logs_only_persist])
  from logs_onlyD(2,3) [OF this] have o: "mg_submissions ?o = mg_submissions m" "mg_expired ?o = mg_expired m" by simp_all
  have "snd (cancel_section cfg w key m) = (if Terminal (jb_state j) then m
      else if key \<in> set (mg_cancellers m) then m\<lparr>mg_canceled := key # mg_canceled m\<rparr> else ?o)"
    unfolding cancel_section_def Some Let_def by (simp split: option.split)
  with o show ?thesis by (simp add: known_def)
qed (simp add: cancel_section_def)

lemma inserted_known:
  assumes "create_insert cfg w random q m = (Inr (key, j), m')" "known m r"
  shows "known m' r"
  using create_insert_ok(5,7) [OF assms(1)] assms(2) by (auto simp: known_def same_rest_def)

lemma queue_known: "known (m\<lparr>mg_queue := rest\<rparr>) r = known m r"
  by (simp add: known_def)

lemma enqueue_known: "known (unpin q (submit_reserve cfg key (create_enqueue skip key m))) r = known m r"
  by (simp add: known_def unpin_def submit_reserve_def create_enqueue_def)

lemma known_busy:
  assumes "inv s" "busy (sy_worker s) = Some key" "find_job (sy_mgr s) key \<noteq> None \<Longrightarrow> keeps (sy_mgr s) m'"
    "r \<noteq> []" "known (sy_mgr s) r"
  shows "known m' r"
  by (rule known_keeps [OF assms(3) [OF busy_present [OF assms(1,2)]] invD(1) [OF assms(1)] assms(4,5)])

lemma step_known:
  assumes "step cfg tx s s'" "inv s" "r \<noteq> []" "known (sy_mgr s) r"
  shows "known (sy_mgr s') r"
proof -
  note b = invD(1) [OF assms(2)]
  note sel = with_mgr_def with_worker_def with_creator_def started_def
  show ?thesis
    using assms(1)
  proof cases
    case (start key rest w q m')
    then show ?thesis using run_start_known [of cfg w key _ "Some q" m' r] assms(4) queue_known by (simp add: sel)
  next
    case (skip key rest w m')
    then show ?thesis using run_start_known [of cfg w key _ None m' r] assms(4) queue_known by (simp add: sel)
  next
    case (admitted q ci m')
    then show ?thesis using known_keeps [OF keeps_admit b assms(3,4)] by (simp add: sel)
  next
    case (not_admitted q ci e m')
    then show ?thesis using known_keeps [OF keeps_trans [OF keeps_admit keeps_unpin] b assms(3,4)] by (simp add: sel)
  next
    case (inserted q w random key j m')
    then show ?thesis using inserted_known assms(4) by (simp add: sel)
  next
    case (not_inserted q w random e m')
    have "fresh (sy_mgr s) q" using invD(4) [OF assms(2)] not_inserted by (simp add: creator_ok_def)
    from known_keeps [OF keeps_trans [OF keeps_not_inserted [OF not_inserted(3) this] keeps_unpin] b assms(3,4)]
    show ?thesis using not_inserted by (simp add: sel)
  next
    case (restart rv limit m')
    then show ?thesis using OpenManager_ok(4) [OF _ b] assms(4) by (simp add: sel)
  qed (use assms b in \<open>auto simp: sel run_finish_known cancel_known enqueue_known
      intro: known_keeps [OF keeps_warn] known_keeps [OF keeps_emit] known_keeps [OF keeps_retention]
        known_keeps [OF keeps_cleanup] known_keeps [OF keeps_subscribe] known_keeps [OF keeps_unsubscribe]
        known_keeps [OF keeps_receive] known_keeps [OF keeps_closed] known_keeps [OF keeps_outside]
        known_keeps [OF keeps_unpin]
        known_busy [OF _ _ keeps_capture_started] known_busy [OF _ _ keeps_observe]
        known_busy [OF _ _ keeps_capture_stopped] known_busy [OF _ _ keeps_outcome]
        known_busy [OF _ _ keeps_hook_failed]\<close>)
qed

interpretation jobs: stable_fact "first_start cfg" "step cfg tx" inv "\<lambda>s. r \<noteq> [] \<and> known (sy_mgr s) r" for cfg tx r
  by unfold_locales (blast intro: first_start_inv step_inv step_known)+

end
