(* ===== verification/JobProperties.thy ===== *)
theory JobProperties
  imports JobRestart
begin

text \<open>
  What the job manager guarantees as a whole: the whole operations of the code are executions of the
  step system, and every reachable state, whatever happened before it, is well formed, has run every
  request id at most once, knows every request id that was ever accepted, and can go on.
\<close>

subsection \<open>Whole operations are executions\<close>

lemma to_step: "step cfg tx s s' \<Longrightarrow> (step cfg tx)\<^sup>*\<^sup>* s s'"
  by (rule r_into_rtranclp)

lemma submission_path:
  assumes c: "CreateSubmissionContext cfg su r (sy_mgr s) = (Inr (j, False), m')" and "sy_creator s = Resting"
  shows "(step cfg tx)\<^sup>*\<^sup>* s (with_creator s m' Resting)"
proof -
  from c obtain m1 key m2 where check: "submit_check cfg r (sy_mgr s) = Admit"
    and m1: "submit_admit cfg (su_cleanup su) r (sy_mgr s) = (None, m1)"
    and v: "create_validate cfg (su_faults su) r m1 = None"
    and m2: "create_insert cfg (su_io su) (su_random su) r m1 = (Inr (key, j), m2)"
    and m': "m' = unpin r (submit_reserve cfg key (create_enqueue (su_skip su) key m2))"
    by (auto simp: CreateSubmissionContext_def split: verdict.splits prod.splits option.splits sum.splits)
  let ?s1 = "with_creator s (sy_mgr s) (Checked r)" and ?s2 = "with_creator s m1 (Admitted r)"
    and ?s3 = "with_creator s m1 (Validated r)" and ?s4 = "with_creator s m2 (Inserted key r)"
  have "length (mg_queue m1) < 128"
    using v by (auto simp: create_validate_def split: option.splits if_splits)
  then have q: "length (mg_queue m2) < 128" using create_insert_ok(5) [OF m2] by (simp add: same_rest_def)
  have "(step cfg tx)\<^sup>*\<^sup>* s ?s1" using to_step [OF step.check] assms(2) check by blast
  also have "(step cfg tx)\<^sup>*\<^sup>* ?s1 ?s2"
    using to_step [OF step.admitted [of ?s1 r cfg "su_cleanup su" m1 tx]] m1 by (simp add: with_creator_def)
  also have "(step cfg tx)\<^sup>*\<^sup>* ?s2 ?s3"
    using to_step [OF step.validated [of ?s2 r cfg "su_faults su" tx]] v by (simp add: with_creator_def)
  also have "(step cfg tx)\<^sup>*\<^sup>* ?s3 ?s4"
    using to_step [OF step.inserted [of ?s3 r cfg "su_io su" "su_random su" key j m2 tx]] m2 by (simp add: with_creator_def)
  also have "(step cfg tx)\<^sup>*\<^sup>* ?s4 (with_creator s m' Resting)"
    using to_step [OF step.enqueued [of ?s4 key r "su_skip su" cfg tx]] q by (simp add: with_creator_def m')
  finally show ?thesis .
qed

lemma boot_observe_path:
  "sy_worker s = Deploying key r cap obs \<Longrightarrow>
    (step cfg tx)\<^sup>*\<^sup>* s (with_worker s (observe_all cfg w key obs (sy_mgr s)) (Deploying key r cap []))"
proof (induction obs arbitrary: s)
  case Nil
  then have "with_worker s (observe_all cfg w key [] (sy_mgr s)) (Deploying key r cap []) = s"
    by (simp add: with_worker_def observe_all_def)
  then show ?case by simp
next
  case (Cons t obs)
  let ?s1 = "with_worker s (run_observe cfg w key t (sy_mgr s)) (Deploying key r cap obs)"
  have "step cfg tx s ?s1" using Cons.prems by (rule step.boot_observe)
  also have "(step cfg tx)\<^sup>*\<^sup>* ?s1 (with_worker s (observe_all cfg w key (t # obs) (sy_mgr s)) (Deploying key r cap []))"
    using Cons.IH [of ?s1] by (simp add: with_worker_def observe_all_def)
  finally show ?case .
qed

lemma hook_observe_path:
  "sy_worker s = Hooking key r err obs herr \<Longrightarrow>
    (step cfg tx)\<^sup>*\<^sup>* s (with_worker s (observe_all cfg w key obs (sy_mgr s)) (Hooking key r err [] herr))"
proof (induction obs arbitrary: s)
  case Nil
  then have "with_worker s (observe_all cfg w key [] (sy_mgr s)) (Hooking key r err [] herr) = s"
    by (simp add: with_worker_def observe_all_def)
  then show ?case by simp
next
  case (Cons t obs)
  let ?s1 = "with_worker s (run_observe cfg w key t (sy_mgr s)) (Hooking key r err obs herr)"
  have "step cfg tx s ?s1" using Cons.prems by (rule step.hook_observe)
  also have "(step cfg tx)\<^sup>*\<^sup>* ?s1 (with_worker s (observe_all cfg w key (t # obs) (sy_mgr s)) (Hooking key r err [] herr))"
    using Cons.IH [of ?s1] by (simp add: with_worker_def observe_all_def)
  finally show ?case .
qed

lemma execute_path:
  assumes "sy_worker s = Deploying key r cap []" "run_execute cfg ri key r (sy_mgr s) = (err, m')"
  shows "(step cfg tx)\<^sup>*\<^sup>* s (with_worker s m' (Deploying key r cap []))"
proof (cases "ri_boot ri")
  case None
  then have "with_worker s m' (Deploying key r cap []) = s"
    using assms by (simp add: run_execute_def with_worker_def)
  then show ?thesis by simp
next
  case (Some env)
  let ?obs = "fst (phase_tasks cfg env r BeforeBoot)"
  let ?s1 = "with_worker s (sy_mgr s) (Deploying key r cap ?obs)"
  have "step cfg tx s ?s1" using assms(1) by (rule step.boot_hook)
  also have "(step cfg tx)\<^sup>*\<^sup>* ?s1 (with_worker s m' (Deploying key r cap []))"
    using boot_observe_path [of ?s1 key r cap ?obs cfg tx "ri_io ri 1"] assms(2) Some
    by (simp add: with_worker_def run_execute_def)
  finally show ?thesis .
qed

lemma deploy_path:
  assumes w: "sy_worker s = Loading key r" and d: "run_deploy cfg ri key r (sy_mgr s) = (err, m')"
  shows "(step cfg tx)\<^sup>*\<^sup>* s (with_worker s m' (Deciding key r err))"
proof (cases "run_load cfg (ri_faults ri) r (sy_mgr s)")
  case (Some f)
  with d to_step [OF step.load_failed [OF w Some]] show ?thesis by (simp add: run_deploy_def)
next
  case None
  note no_error = None
  let ?m1 = "run_warn_manual cfg (ri_io ri 2) key r (sy_mgr s)"
  let ?s1 = "with_worker s ?m1 (Starting key r)"
  have start: "(step cfg tx)\<^sup>*\<^sup>* s ?s1" by (rule to_step [OF step.loaded [OF w None]])
  show ?thesis
  proof (cases "rq_serial r")
    case None
    let ?s2 = "with_worker s ?m1 (Deploying key r False [])" and ?s3 = "with_worker s m' (Deploying key r False [])"
    have e: "run_execute cfg ri key r ?m1 = (err, m')" using d no_error None by (simp add: run_deploy_def Let_def)
    have "(step cfg tx)\<^sup>*\<^sup>* ?s1 ?s2"
      using to_step [OF step.no_capture [of ?s1 key r cfg tx]] None by (simp add: with_worker_def)
    also have "(step cfg tx)\<^sup>*\<^sup>* ?s2 ?s3"
      using execute_path [of ?s2 key r False cfg ri err m' tx] e by (simp add: with_worker_def)
    also have "(step cfg tx)\<^sup>*\<^sup>* ?s3 (with_worker s m' (Deciding key r err))"
      using to_step [OF step.executed [of ?s3 key r "[]" cfg tx err]] by (simp add: with_worker_def)
    finally show ?thesis using start by simp
  next
    case (Some sr)
    show ?thesis
    proof (cases "if cf_console cfg then ri_attach ri else Inl ''not configured''")
      case (Inl t)
      have r: "err = Some (CaptureFailed t)" "m' = ?m1" using d no_error Some Inl by (simp_all add: run_deploy_def Let_def)
      have "(step cfg tx)\<^sup>*\<^sup>* ?s1 (with_worker s m' (Deciding key r err))"
        using to_step [OF step.capture_failed [of ?s1 key r sr cfg tx t]] Some r by (simp add: with_worker_def)
      with start show ?thesis by simp
    next
      case (Inr cb)
      obtain c baud where cb: "cb = (c, baud)" by (cases cb)
      have console: "cf_console cfg" using Inr by (simp split: if_splits)
      let ?m2 = "run_capture_started cfg (ri_io ri 3) key c baud ?m1"
      obtain e m3 where x: "run_execute cfg ri key r ?m2 = (e, m3)" by fastforce
      have r: "err = (if e = None then snd (ri_stop ri) else e)"
        "m' = run_capture_stopped cfg (ri_io ri 4) key (fst (ri_stop ri)) m3"
        using d no_error Some Inr cb x by (simp_all add: run_deploy_def Let_def)
      let ?s2 = "with_worker s ?m2 (Deploying key r True [])" and ?s3 = "with_worker s m3 (Deploying key r True [])"
        and ?s4 = "with_worker s m3 (Captured key r e)"
      have "(step cfg tx)\<^sup>*\<^sup>* ?s1 ?s2"
        using to_step [OF step.capture_started [of ?s1 key r sr cfg tx "ri_io ri 3" c baud]] Some console
        by (simp add: with_worker_def)
      also have "(step cfg tx)\<^sup>*\<^sup>* ?s2 ?s3"
        using execute_path [of ?s2 key r True cfg ri e m3 tx] x by (simp add: with_worker_def)
      also have "(step cfg tx)\<^sup>*\<^sup>* ?s3 ?s4"
        using to_step [OF step.executed_captured [of ?s3 key r "[]" cfg tx e]] by (simp add: with_worker_def)
      also have "(step cfg tx)\<^sup>*\<^sup>* ?s4 (with_worker s m' (Deciding key r err))"
        using to_step [OF step.capture_stopped [of ?s4 key r e err "snd (ri_stop ri)" cfg tx "ri_io ri 4" "fst (ri_stop ri)"]] r
        by (simp add: with_worker_def)
      finally show ?thesis using start by simp
    qed
  qed
qed

lemma log_outside: "with_worker s m w\<lparr>sy_log := hist\<rparr> = with_worker (s\<lparr>sy_log := hist\<rparr>) m w"
  by (cases s) (simp add: with_worker_def)

lemma run_path:
  assumes idle: "sy_worker s = Idle" and qu: "mg_queue (sy_mgr s) = key # rest"
  shows "\<exists>w hist. (step cfg tx)\<^sup>*\<^sup>* s
    (with_worker s (run cfg tx ri key ((sy_mgr s)\<lparr>mg_queue := rest\<rparr>)) w\<lparr>sy_log := hist\<rparr>)"
proof -
  let ?mq = "(sy_mgr s)\<lparr>mg_queue := rest\<rparr>"
  obtain res m1 where st: "run_start cfg (ri_io ri 7) key ?mq = (res, m1)" by fastforce
  show ?thesis
  proof (cases res)
    case None
    with st have "run cfg tx ri key ?mq = m1" by (simp add: run_def)
    moreover have "(step cfg tx)\<^sup>*\<^sup>* s (with_worker s m1 Idle)"
      by (rule to_step [OF step.skip [OF idle qu]]) (use st None in simp)
    ultimately show ?thesis by (intro exI [of _ Idle] exI [of _ "sy_log s"]) (simp add: with_worker_def)
  next
    case (Some r)
    let ?t = "with_worker (s\<lparr>sy_log := sy_log s @ [rq_id r]\<rparr>)"
    obtain e0 m2 where dp: "run_deploy cfg ri key r m1 = (e0, m2)" by fastforce
    define e where "e = with_context key m2 e0"
    define m3 where "m3 = run_outcome cfg tx (ri_io ri 8) key e m2"
    obtain obs herr where ph: "phase_tasks cfg (ri_hooks ri) r (fst (outcome_phase e)) = (obs, herr)" by fastforce
    define m4 where "m4 = observe_all cfg (ri_io ri 5) key obs m3"
    define e' where "e' = (case herr of None \<Rightarrow> e | Some h \<Rightarrow> if e = None then Some (HookFailed h) else e)"
    define m5 where "m5 = (case herr of None \<Rightarrow> m4 | Some h \<Rightarrow> run_hook_failed cfg tx (ri_io ri 6) key h m4)"
    have result: "run cfg tx ri key ?mq = run_finish cfg tx (ri_io ri 9) key e' m5"
      using st Some dp ph by (simp add: run_def run_hooks_def e_def m3_def m4_def e'_def m5_def Let_def split: option.split)
    have "(step cfg tx)\<^sup>*\<^sup>* s (?t m1 (Loading key r))"
      unfolding log_outside [symmetric] by (rule to_step [OF step.start [OF idle qu]]) (use st Some in simp)
    also have "(step cfg tx)\<^sup>*\<^sup>* \<dots> (?t m2 (Deciding key r e0))"
      using deploy_path [of "?t m1 (Loading key r)" key r cfg ri e0 m2 tx] dp by (simp add: with_worker_def)
    also have "(step cfg tx)\<^sup>*\<^sup>* \<dots> (?t m3 (Hooking key r e obs herr))"
      using to_step [OF step.decide [of "?t m2 (Deciding key r e0)" key r e0 e cfg "ri_hooks ri" obs herr tx "ri_io ri 8"]] ph
      by (simp add: with_worker_def e_def m3_def)
    also have "(step cfg tx)\<^sup>*\<^sup>* \<dots> (?t m4 (Hooking key r e [] herr))"
      using hook_observe_path [of "?t m3 (Hooking key r e obs herr)" key r e obs herr cfg tx "ri_io ri 5"]
      by (simp add: with_worker_def m4_def)
    also have "(step cfg tx)\<^sup>*\<^sup>* \<dots> (?t m5 (Closing key r e'))"
    proof (cases herr)
      case None
      then show ?thesis
        using to_step [OF step.hooks_passed [of "?t m4 (Hooking key r e [] None)" key r e cfg tx]]
        by (simp add: with_worker_def m5_def e'_def)
    next
      case (Some h)
      then show ?thesis
        using to_step [OF step.hooks_failed [of "?t m4 (Hooking key r e [] (Some h))" key r e h cfg tx "ri_io ri 6"]]
        by (simp add: with_worker_def m5_def e'_def)
    qed
    also have "(step cfg tx)\<^sup>*\<^sup>* \<dots> (?t (run cfg tx ri key ?mq) Retiring)"
      using to_step [OF step.finish [of "?t m5 (Closing key r e')" key r e' cfg tx "ri_io ri 9"]]
      by (simp add: with_worker_def result)
    finally show ?thesis unfolding log_outside by blast
  qed
qed

text \<open>The worker's next step.\<close>

lemma idle_goes_on:
  assumes "sy_worker s = Idle" "mg_queue (sy_mgr s) = key # rest"
  shows "\<exists>s'. step cfg tx s s' \<and> (sy_worker s' \<noteq> sy_worker s \<or> length (mg_queue (sy_mgr s')) < length (mg_queue (sy_mgr s)))"
proof -
  let ?m = "(sy_mgr s)\<lparr>mg_queue := rest\<rparr>"
  obtain res m' where r: "run_start cfg sample_io key ?m = (res, m')" by fastforce
  show ?thesis
  proof (cases res)
    case None
    then have "m' = ?m" using r by (auto simp: run_start_def split: option.splits if_splits)
    then have "step cfg tx s (with_worker s ?m Idle)" using step.skip [OF assms, of cfg sample_io m'] r None by simp
    then show ?thesis using assms by (intro exI conjI) (assumption, simp add: with_worker_def)
  next
    case (Some q)
    then have "step cfg tx s (with_worker s m' (Loading key q)\<lparr>sy_log := sy_log s @ [rq_id q]\<rparr>)"
      using step.start [OF assms, of cfg sample_io q m'] r by simp
    then show ?thesis using assms by (intro exI conjI) (assumption, simp add: with_worker_def)
  qed
qed

lemma busy_goes_on:
  assumes "busy (sy_worker s) \<noteq> None \<or> sy_worker s = Retiring"
  shows "\<exists>m w. step cfg tx s (with_worker s m w) \<and> w \<noteq> sy_worker s"
proof (cases "sy_worker s")
  case (Loading key r)
  show ?thesis
    using step.load_failed [OF Loading, of cfg "[]"] step.loaded [OF Loading, of cfg "[]"] Loading
    by (cases "run_load cfg [] r (sy_mgr s)") (metis worker.distinct)+
next
  case (Starting key r)
  show ?thesis
    using step.no_capture [OF Starting] step.capture_failed [OF Starting] Starting
    by (cases "rq_serial r") (metis worker.distinct)+
next
  case (Deploying key r cap ts)
  show ?thesis
    using step.executed [of s key r ts] step.executed_captured [of s key r ts] Deploying
    by (cases cap) (metis worker.distinct)+
next
  case (Captured key r err)
  show ?thesis using step.capture_stopped [OF Captured refl] Captured by (metis worker.distinct)
next
  case (Deciding key r err)
  show ?thesis
    using step.decide [OF Deciding refl prod.collapse [symmetric]] Deciding by (metis worker.distinct)
next
  case (Hooking key r err obs herr)
  show ?thesis
  proof (cases obs)
    case Nil
    show ?thesis
      using step.hooks_passed [of s key r err] step.hooks_failed [of s key r err] Hooking Nil
      by (cases herr) (metis worker.distinct)+
  next
    case (Cons t ts)
    have "Hooking key r err ts herr \<noteq> sy_worker s" by (simp add: Hooking Cons)
    with step.hook_observe [OF Hooking [unfolded Cons]] show ?thesis by blast
  qed
next
  case (Closing key r err)
  show ?thesis using step.finish [OF Closing] Closing by (metis worker.distinct)
next
  case Retiring
  show ?thesis using step.retire [OF Retiring] Retiring by (metis worker.distinct)
qed (use assms in simp_all)

subsection \<open>The properties\<close>

lemma with_creator_same: "sy_creator s = Resting \<Longrightarrow> with_creator s m Resting = s\<lparr>sy_mgr := m\<rparr>"
  by (cases s) (simp add: with_creator_def)


lemma spent_known:
  assumes "books m" "r \<noteq> []" "spent m r"
  shows "known m r"
proof (cases "mg_expired m r = None")
  case True
  with assms(3) obtain k a q st where "view m k = Some (a, q, st)" "rq_id q = r" by (auto simp: spent_def)
  with assms(1,2) True have "mg_submissions m r = Some k" unfolding books_def ids_agree_def by metis
  then show ?thesis by (simp add: known_def)
qed (simp add: known_def)

lemma known_not_admitted:
  "rq_id q \<noteq> [] \<Longrightarrow> known m (rq_id q) \<Longrightarrow> submit_check cfg q m \<noteq> Admit"
  by (auto simp: submit_check_def known_def Let_def split: option.splits)

text \<open>C1: whatever the clients, the disk and the tasks did and however often the process died and
  was started again, a request id has started at most one run; and once it has, a submission of it
  is never admitted again.\<close>

theorem at_most_one_run:
  assumes "reachable cfg tx s"
  shows "distinct (filter (\<lambda>r. r \<noteq> []) (sy_log s))
    \<and> (\<forall>q. rq_id q \<noteq> [] \<and> rq_id q \<in> set (sy_log s) \<longrightarrow> submit_check cfg q (sy_mgr s) \<noteq> Admit)"
proof -
  note inv = invD [OF jobs.reached [OF assms]]
  have "known (sy_mgr s) r" if "r \<noteq> []" "r \<in> set (sy_log s)" for r
  proof -
    from inv(2) that have "spent (sy_mgr s) r" by (simp add: accounted_def)
    then show ?thesis by (rule spent_known [OF inv(1) that(1)])
  qed
  with inv(2) known_not_admitted show ?thesis unfolding accounted_def by blast
qed

text \<open>C30: in every reachable state the tables are well formed: every entry of the submission map
  leads to the job with that request id, so no lookup meets a missing job, no id is both live and
  expired, every expired id has its tombstone file, subscriber channels are open and belong to one
  job, and nothing has panicked.\<close>

theorem reachable_well_formed:
  assumes "reachable cfg tx s"
  shows "let m = sy_mgr s in
    (\<forall>r k. mg_submissions m r = Some k \<longrightarrow> (\<exists>j. find_job m k = Some j \<and> jb_id j = k \<and> rq_id (jb_request j) = r))
    \<and> (\<forall>q. submit_check cfg q m \<noteq> NilOriginal)
    \<and> (\<forall>r. mg_expired m r \<noteq> None \<longrightarrow> mg_submissions m r = None \<and> map_of (mg_tombstones m) r \<noteq> None)
    \<and> channels_ok m \<and> \<not> mg_panic m"
proof -
  let ?m = "sy_mgr s"
  note inv = invD [OF jobs.reached [OF assms]]
  have sub: "\<exists>j. find_job ?m k = Some j \<and> jb_id j = k \<and> rq_id (jb_request j) = r" if r: "mg_submissions ?m r = Some k" for r k
  proof -
    from inv(1) r obtain a q st where "view ?m k = Some (a, q, st)" "rq_id q = r"
      unfolding books_def ids_agree_def by metis
    with books_well_keyed [OF inv(1)] show ?thesis by (auto simp: view_Some well_keyed_def)
  qed
  have "submit_check cfg q ?m \<noteq> NilOriginal" for q
  proof
    assume "submit_check cfg q ?m = NilOriginal"
    then obtain k where "mg_submissions ?m (rq_id q) = Some k" "find_job ?m k = None"
      by (auto simp: submit_check_def Let_def split: if_splits option.splits)
    with sub [of "rq_id q" k] show False by auto
  qed
  moreover have "mg_submissions ?m r = None \<and> map_of (mg_tombstones ?m) r \<noteq> None" if "mg_expired ?m r \<noteq> None" for r
    using inv(1) that unfolding books_def ids_agree_def durable_def by metis
  ultimately show ?thesis using sub inv(6) by (simp add: quiet_def Let_def)
qed

text \<open>C31: at most one job is running, it is the one the worker works on, and its cancel function
  is registered, so a cancel reaches it; after a restart no job is queued or running.\<close>

theorem one_running_job:
  assumes "reachable cfg tx s"
  shows "(\<forall>k j. find_job (sy_mgr s) k = Some j \<and> jb_state j = Running \<longrightarrow>
      busy (sy_worker s) = Some k \<and> mg_cancellers (sy_mgr s) = [k])
    \<and> (\<forall>rv limit m' k j. OpenManager cfg rv limit (sy_mgr s) = (None, m') \<and> find_job m' k = Some j \<longrightarrow>
      jb_state j \<noteq> Queued \<and> jb_state j \<noteq> Running)"
proof -
  note inv = invD [OF jobs.reached [OF assms]]
  have "busy (sy_worker s) = Some k \<and> mg_cancellers (sy_mgr s) = [k]"
    if "find_job (sy_mgr s) k = Some j" "jb_state j = Running" for k j
  proof -
    have "view (sy_mgr s) k = Some (jb_id j, jb_request j, Running)" using that by (simp add: view_find)
    with inv(3) have "busy (sy_worker s) = Some k" unfolding worker_ok_def by blast
    with inv(3) show ?thesis by (simp add: worker_ok_def)
  qed
  moreover have "jb_state j \<noteq> Queued \<and> jb_state j \<noteq> Running"
    if "OpenManager cfg rv limit (sy_mgr s) = (None, m')" "find_job m' k = Some j" for rv limit m' k j
  proof -
    have "view m' k = Some (jb_id j, jb_request j, jb_state j)" using that(2) by (simp add: view_find)
    with OpenManager_ok(2) [OF that(1) inv(1)] show ?thesis unfolding settled_def unfinished_def by metis
  qed
  ultimately show ?thesis by blast
qed

text \<open>C5: an accepted request id is never forgotten: in every later state, across any number of
  crashes and cleanups, its submission is answered with the job, a conflict or the notice that it
  has expired, but never admitted.\<close>

theorem accepted_id_is_never_forgotten:
  assumes "reachable cfg tx s" and "r \<noteq> []" and "mg_submissions (sy_mgr s) r \<noteq> None" and "(step cfg tx)\<^sup>*\<^sup>* s s'"
  shows "(mg_submissions (sy_mgr s') r \<noteq> None \<or> mg_expired (sy_mgr s') r \<noteq> None)
    \<and> (\<forall>q. rq_id q = r \<longrightarrow> submit_check cfg q (sy_mgr s') \<noteq> Admit)"
proof -
  have "known (sy_mgr s) r" using assms(3) by (simp add: known_def)
  with jobs.stable [OF assms(1,4), of r] assms(2) have k: "known (sy_mgr s') r" by blast
  with assms(2) known_not_admitted show ?thesis unfolding known_def [symmetric] by blast
qed


subsection \<open>A concrete execution\<close>

definition demo_opened :: manager where
  "demo_opened = (sample_manager [])\<lparr>mg_store := sample_store, mg_budget := None\<rparr>"

definition demo_recover :: recover_io where
  "demo_recover = \<lparr>rv_io = (\<lambda>_. sample_io), rv_readable = (\<lambda>_. True), rv_remove = (\<lambda>_. None),
     rv_cleanup = sample_cleanup_io\<rparr>"

lemma demo_opens: "OpenManager demo_config demo_recover None (blank sample_store []) = (None, demo_opened)"
  by (simp add: OpenManager_def tombstone_files_def blank_def fresh_memory_def initializeRetention_def
      demo_opened_def sample_manager_def)

lemma demo_validated: "create_validate demo_config [] demo_request demo_opened = None"
  by code_simp

lemma demo_inserted: "case create_insert demo_config sample_io (Some ''j1'') demo_request demo_opened of
    (Inr (key, j), m') \<Rightarrow> key = ''j1'' \<and> mg_queue m' = [] \<and> mg_closed m' = False
       \<and> map_option (\<lambda>j. (jb_state j, rq_id (jb_request j))) (find_job m' ''j1'') = Some (Queued, replicate 32 CHR ''a'')
       \<and> mg_submissions m' (replicate 32 CHR ''a'') = Some ''j1''
  | _ \<Rightarrow> False"
  by code_simp

definition demo_published :: manager where
  "demo_published = snd (create_insert demo_config sample_io (Some ''j1'') demo_request demo_opened)"

definition demo_queued :: manager where
  "demo_queued = unpin demo_request (submit_reserve demo_config ''j1'' (create_enqueue False ''j1'' demo_published))"

lemma demo_published_facts:
  "\<exists>j. create_insert demo_config sample_io (Some ''j1'') demo_request demo_opened = (Inr (''j1'', j), demo_published)"
  "mg_queue demo_published = []" "mg_submissions demo_published (replicate 32 CHR ''a'') = Some ''j1''"
  "\<exists>j. find_job demo_published ''j1'' = Some j \<and> jb_state j = Queued \<and> rq_id (jb_request j) = replicate 32 CHR ''a''"
  using demo_inserted by (auto simp: demo_published_def split: prod.splits sum.splits)

lemma demo_submitted: "\<exists>j. CreateSubmissionContext demo_config (demo_submit ''j1'') demo_request demo_opened = (Inr (j, False), demo_queued)"
proof -
  have "submit_check demo_config demo_request demo_opened = Admit"
    by (simp add: submit_check_def demo_opened_def sample_manager_def demo_request_def sample_request_def
        requestIDPattern_def is_lower_hex_def list_all_iff)
  moreover have "submit_admit demo_config ci demo_request demo_opened = (None, demo_opened)" for ci
    by (simp add: submit_admit_def demo_opened_def)
  ultimately show ?thesis
    using demo_published_facts(1) demo_validated
    by (auto simp: CreateSubmissionContext_def demo_submit_def demo_queued_def)
qed

lemma demo_reached: "reachable demo_config tx (started demo_opened [])"
  by (rule reach_start) (rule first_start.first [OF demo_opens])

lemma demo_reached_submission: "reachable demo_config tx ((started demo_opened [])\<lparr>sy_mgr := demo_queued\<rparr>)"
proof -
  obtain j where "CreateSubmissionContext demo_config (demo_submit ''j1'') demo_request
      (sy_mgr (started demo_opened [])) = (Inr (j, False), demo_queued)"
    using demo_submitted by (auto simp: started_def)
  from submission_path [OF this] have "(step demo_config tx)\<^sup>*\<^sup>* (started demo_opened [])
      ((started demo_opened [])\<lparr>sy_mgr := demo_queued\<rparr>)"
    by (simp add: started_def with_creator_def)
  then show ?thesis
    using demo_reached by (induction rule: rtranclp_induct) (blast intro: reach_move)+
qed

lemma demo_reached_run:
  "\<exists>s. reachable demo_config tx s \<and> sy_log s = [replicate 32 CHR ''a''] \<and> busy (sy_worker s) = Some ''j1''"
proof -
  let ?s = "(started demo_opened [])\<lparr>sy_mgr := demo_queued\<rparr>" and ?m = "demo_queued\<lparr>mg_queue := []\<rparr>"
  have q: "mg_queue (sy_mgr ?s) = [''j1'']"
    using demo_published_facts(2) by (simp add: demo_queued_def unpin_def submit_reserve_def create_enqueue_def)
  have "find_job ?m ''j1'' = find_job demo_published ''j1''"
    by (simp add: find_job_def demo_queued_def unpin_def submit_reserve_def create_enqueue_def)
  with demo_published_facts(4) obtain m' r where "run_start demo_config sample_io ''j1'' ?m = (Some r, m')"
    and r: "rq_id r = replicate 32 CHR ''a''"
    by (auto simp: run_start_def)
  then have "step demo_config tx ?s (with_worker ?s m' (Loading ''j1'' r)\<lparr>sy_log := sy_log ?s @ [rq_id r]\<rparr>)"
    by (intro step.start [OF _ q]) (simp_all add: started_def)
  from reach_move [OF demo_reached_submission this] r show ?thesis
    by (intro exI conjI) (assumption, simp_all add: started_def with_worker_def)
qed

definition demo_texts :: texts where
  "demo_texts = (\<lambda>_. ''failed'')"

lemma at_most_one_run_witness:
  "\<exists>s. reachable demo_config demo_texts s \<and> sy_log s = [replicate 32 CHR ''a'']
    \<and> submit_check demo_config demo_request (sy_mgr s) \<noteq> Admit"
proof -
  obtain s where s: "reachable demo_config demo_texts s" "sy_log s = [replicate 32 CHR ''a'']" using demo_reached_run by blast
  have "rq_id demo_request \<noteq> [] \<and> rq_id demo_request \<in> set (sy_log s)"
    by (simp add: s(2) demo_request_def sample_request_def)
  with at_most_one_run [OF s(1)] s show ?thesis by blast
qed

lemma demo_queued_submission: "mg_submissions demo_queued (replicate 32 CHR ''a'') = Some ''j1''"
  using demo_published_facts(3) by (simp add: demo_queued_def unpin_def submit_reserve_def create_enqueue_def)

lemma reachable_well_formed_witness:
  "\<exists>j. find_job demo_queued ''j1'' = Some j \<and> rq_id (jb_request j) = replicate 32 CHR ''a''"
proof -
  have m: "sy_mgr ((started demo_opened [])\<lparr>sy_mgr := demo_queued\<rparr>) = demo_queued" by simp
  from reachable_well_formed [OF demo_reached_submission [of demo_texts], unfolded m Let_def]
  show ?thesis using demo_queued_submission by blast
qed

lemma one_running_job_witness:
  "\<exists>s j. reachable demo_config demo_texts s \<and> find_job (sy_mgr s) ''j1'' = Some j \<and> jb_state j = Running
    \<and> mg_cancellers (sy_mgr s) = [''j1'']"
proof -
  obtain s where s: "reachable demo_config demo_texts s" "busy (sy_worker s) = Some ''j1''" using demo_reached_run by blast
  from invD(3) [OF jobs.reached [OF s(1)]] s(2) obtain q where "view (sy_mgr s) ''j1'' = Some (''j1'', q, Running)"
    by (auto simp: worker_ok_def)
  then obtain j where j: "find_job (sy_mgr s) ''j1'' = Some j" "jb_state j = Running" by (auto simp: view_Some)
  with one_running_job [OF s(1)] s(1) show ?thesis by blast
qed

lemma accepted_id_is_never_forgotten_witness:
  "submit_check demo_config demo_request (demo_queued\<lparr>mg_closed := True\<rparr>) \<noteq> Admit"
proof -
  let ?s = "(started demo_opened [])\<lparr>sy_mgr := demo_queued\<rparr>"
  have "step demo_config demo_texts ?s (with_mgr ?s ((sy_mgr ?s)\<lparr>mg_closed := True\<rparr>))" by (rule step.close)
  then have st: "(step demo_config demo_texts)\<^sup>*\<^sup>* ?s (with_mgr ?s (demo_queued\<lparr>mg_closed := True\<rparr>))"
    by (simp add: r_into_rtranclp)
  have id: "rq_id demo_request = replicate 32 CHR ''a''" by (simp add: demo_request_def sample_request_def)
  have "mg_submissions (sy_mgr ?s) (replicate 32 CHR ''a'') \<noteq> None" using demo_queued_submission by simp
  from accepted_id_is_never_forgotten [OF demo_reached_submission _ this st] id show ?thesis
    by (simp add: with_mgr_def)
qed



end
