(* ===== verification/SerialConsole.thy ===== *)
theory SerialConsole
  imports SerialModel Transition "HOL-Library.Word" "HOL-Library.AList"
begin

text \<open>
  The serial console manager (\<open>internal/serialconsole/manager.go\<close>): several clients share one open
  port, one of them may hold the controller lease, new clients get the last bytes replayed, and the
  port is closed when its last client leaves.  A connection and a subscriber are heap objects of the
  program: connections are addressed by their position in \<open>sm_conns\<close>, subscribers by their id, and
  both stay there after they have left the manager's maps.  \<open>cn_stream\<close>, \<open>sb_from\<close> and \<open>sb_taken\<close>
  are history: everything broadcast on a connection, where in it a subscriber begins, and what its
  client has received.  A close of a closed channel or a send on one would set \<open>sm_panic\<close>.
\<close>

type_synonym client = "64 word"

datatype access = NoAccess | Observer | Controller | OtherAccess

datatype end_reason = Detached | SlowConsumer | Disconnected | ManagerStopped

record subscriber =
  sb_data :: "char list list" \<comment> \<open>the chunks in the channel, at most 128\<close>
  sb_closed :: bool
  sb_reason :: end_reason
  sb_conn :: nat
  sb_from :: nat
  sb_taken :: string

record connection =
  cn_port :: port
  cn_baud :: int
  cn_ring :: string
  cn_clients :: "client list"
  cn_controller :: client
  cn_handle_closed :: bool
  cn_loop :: bool \<comment> \<open>the read loop is running\<close>
  cn_stream :: string

record console =
  sm_default_baud :: int
  sm_replay :: nat
  sm_open :: "(string \<times> nat) list" \<comment> \<open>\<open>connections\<close>: port id, connection\<close>
  sm_conns :: "connection list"
  sm_subs :: "client \<rightharpoonup> subscriber"
  sm_next :: client
  sm_closed :: bool
  sm_panic :: bool

subsection \<open>Construction and access to the heap\<close>

definition New_console :: "int \<Rightarrow> int \<Rightarrow> console option" where
  "New_console baud replay =
     (let baud = (if baud = 0 then DefaultBaudRate else baud);
          replay = (if replay = 0 then DefaultReplayBytes else replay) in
      if \<not> ValidateBaudRate baud then None
      else if replay < 0 \<or> replay > 16 * 2 ^ 20 then None
      else Some \<lparr>sm_default_baud = baud, sm_replay = nat replay, sm_open = [], sm_conns = [],
        sm_subs = (\<lambda>_. None), sm_next = 0, sm_closed = False, sm_panic = False\<rparr>)"

definition upd_conn :: "nat \<Rightarrow> (connection \<Rightarrow> connection) \<Rightarrow> console \<Rightarrow> console" where
  "upd_conn c f m = m\<lparr>sm_conns := (sm_conns m)[c := f (sm_conns m ! c)]\<rparr>"

definition upd_sub :: "client \<Rightarrow> (subscriber \<Rightarrow> subscriber) \<Rightarrow> console \<Rightarrow> console" where
  "upd_sub i f m = (case sm_subs m i of None \<Rightarrow> m | Some s \<Rightarrow> m\<lparr>sm_subs := (sm_subs m)(i \<mapsto> f s)\<rparr>)"

definition close_handle :: "nat \<Rightarrow> console \<Rightarrow> console" where
  "close_handle c = upd_conn c (\<lambda>cn. cn\<lparr>cn_handle_closed := True\<rparr>)"

definition forget_port :: "string \<Rightarrow> console \<Rightarrow> console" where
  "forget_port key m = m\<lparr>sm_open := AList.delete key (sm_open m)\<rparr>"

text \<open>\<open>closeSubscriberLocked\<close>\<close>

definition closeSubscriberLocked :: "nat \<Rightarrow> client \<Rightarrow> end_reason \<Rightarrow> console \<Rightarrow> console" where
  "closeSubscriberLocked c i reason m =
     (if i \<notin> set (cn_clients (sm_conns m ! c)) then m
      else (case sm_subs m i of
          None \<Rightarrow> m
        | Some s \<Rightarrow>
            if sb_closed s then m
            else upd_conn c (\<lambda>cn. cn\<lparr>cn_clients := removeAll i (cn_clients cn),
                     cn_controller := (if cn_controller cn = i then 0 else cn_controller cn)\<rparr>)
                   (upd_sub i (\<lambda>s. s\<lparr>sb_closed := True, sb_reason := reason\<rparr>) m)))"

definition close_clients :: "nat \<Rightarrow> end_reason \<Rightarrow> console \<Rightarrow> console" where
  "close_clients c reason m = fold (\<lambda>i. closeSubscriberLocked c i reason) (cn_clients (sm_conns m ! c)) m"

subsection \<open>Attaching\<close>

record attach_request =
  ar_port :: string
  ar_baud :: int
  ar_access :: access
  ar_replay :: bool

datatype attach_error =
    EmptyPort
  | BadBaud
  | BadAccess
  | ContextDone
  | DiscoverFailed
  | PortNotFound
  | ManagerClosed
  | OpenFailed
  | ModeConflict int
  | ControllerBusy

record attachment =
  at_port :: port
  at_id :: client
  at_baud :: int
  at_access :: access

definition attach_check :: "console \<Rightarrow> bool \<Rightarrow> discovery option \<Rightarrow> attach_request \<Rightarrow> attach_error + port \<times> int \<times> access" where
  "attach_check m canceled found r =
     (let baud = (if ar_baud r = 0 then sm_default_baud m else ar_baud r);
          acc = (if ar_access r = NoAccess then Observer else ar_access r) in
      if ar_port r = [] then Inl EmptyPort
      else if \<not> ValidateBaudRate baud then Inl BadBaud
      else if acc \<noteq> Observer \<and> acc \<noteq> Controller then Inl BadAccess
      else if canceled then Inl ContextDone
      else (case found of
          None \<Rightarrow> Inl DiscoverFailed
        | Some d \<Rightarrow> (case find (\<lambda>p. pt_key p = ar_port r) (dc_ports d) of
            None \<Rightarrow> Inl PortNotFound
          | Some p \<Rightarrow> Inr (p, baud, acc))))"

definition new_connection :: "port \<Rightarrow> int \<Rightarrow> connection" where
  "new_connection p baud = \<lparr>cn_port = p, cn_baud = baud, cn_ring = [], cn_clients = [], cn_controller = 0,
     cn_handle_closed = False, cn_loop = True, cn_stream = []\<rparr>"

definition subscribe_client :: "nat \<Rightarrow> access \<Rightarrow> bool \<Rightarrow> console \<Rightarrow> console" where
  "subscribe_client c acc replay m =
     (let i = sm_next m + 1; cn = sm_conns m ! c; again = (replay \<and> cn_ring cn \<noteq> []) in
      upd_conn c (\<lambda>cn. cn\<lparr>cn_clients := cn_clients cn @ [i],
          cn_controller := (if acc = Controller then i else cn_controller cn)\<rparr>)
        (m\<lparr>sm_next := i, sm_subs := (sm_subs m)(i \<mapsto>
          \<lparr>sb_data = (if again then [cn_ring cn] else []), sb_closed = False, sb_reason = Detached, sb_conn = c,
           sb_from = length (cn_stream cn) - (if again then length (cn_ring cn) else 0), sb_taken = []\<rparr>)\<rparr>))"

definition attach_locked :: "bool \<Rightarrow> port \<Rightarrow> int \<Rightarrow> access \<Rightarrow> bool \<Rightarrow> console \<Rightarrow> (attach_error + attachment) \<times> console" where
  "attach_locked can_open p baud acc replay m =
     (if sm_closed m then (Inl ManagerClosed, m)
      else (case map_of (sm_open m) (pt_key p) of
          None \<Rightarrow>
            if \<not> can_open then (Inl OpenFailed, m)
            else (let c = length (sm_conns m);
                      m1 = m\<lparr>sm_conns := sm_conns m @ [new_connection p baud],
                             sm_open := AList.update (pt_key p) c (sm_open m)\<rparr>;
                      m2 = subscribe_client c acc replay m1
                  in (Inr \<lparr>at_port = mark_busy (\<lambda>_. Some (cn_controller (sm_conns m2 ! c) \<noteq> 0, baud)) p,
                           at_id = sm_next m2, at_baud = baud, at_access = acc\<rparr>, m2))
        | Some c \<Rightarrow>
            (let cn = sm_conns m ! c in
             if cn_baud cn \<noteq> baud then (Inl (ModeConflict (cn_baud cn)), m)
             else if acc = Controller \<and> cn_controller cn \<noteq> 0 then (Inl ControllerBusy, m)
             else (let m2 = subscribe_client c acc replay m
                   in (Inr \<lparr>at_port = mark_busy (\<lambda>_. Some (cn_controller (sm_conns m2 ! c) \<noteq> 0, cn_baud cn)) p,
                            at_id = sm_next m2, at_baud = baud, at_access = acc\<rparr>, m2)))))"

definition Attach :: "bool \<Rightarrow> discovery option \<Rightarrow> bool \<Rightarrow> attach_request \<Rightarrow> console \<Rightarrow> (attach_error + attachment) \<times> console" where
  "Attach canceled found can_open r m = (case attach_check m canceled found r of
       Inl e \<Rightarrow> (Inl e, m)
     | Inr (p, baud, acc) \<Rightarrow> attach_locked can_open p baud acc (ar_replay r) m)"

subsection \<open>The stream\<close>

definition deliver_chunk :: "nat \<Rightarrow> string \<Rightarrow> client \<Rightarrow> console \<Rightarrow> console" where
  "deliver_chunk c data i m = (case sm_subs m i of
       None \<Rightarrow> m\<lparr>sm_panic := True\<rparr>
     | Some s \<Rightarrow>
         if length (sb_data s) < 128
         then (upd_sub i (\<lambda>s. s\<lparr>sb_data := sb_data s @ [data]\<rparr>) m)\<lparr>sm_panic := (sm_panic m \<or> sb_closed s)\<rparr>
         else closeSubscriberLocked c i SlowConsumer m)"

definition remember :: "nat \<Rightarrow> string \<Rightarrow> string \<Rightarrow> string" where
  "remember limit data ring = (if limit = 0 then ring
     else if length (ring @ data) > limit then drop (length (ring @ data) - limit) (ring @ data) else ring @ data)"

text \<open>What \<open>broadcast\<close> and \<open>detach\<close> do when nobody is left.\<close>

definition drop_if_unused :: "nat \<Rightarrow> string \<Rightarrow> console \<Rightarrow> console" where
  "drop_if_unused c key m = (if cn_clients (sm_conns m ! c) = [] then close_handle c (forget_port key m) else m)"

definition broadcast :: "nat \<Rightarrow> string \<Rightarrow> console \<Rightarrow> console" where
  "broadcast c data m = (let cn = sm_conns m ! c; key = pt_key (cn_port cn) in
     if map_of (sm_open m) key \<noteq> Some c then m
     else drop_if_unused c key (fold (deliver_chunk c data) (cn_clients cn)
       (upd_conn c (\<lambda>cn. cn\<lparr>cn_ring := remember (sm_replay m) data (cn_ring cn), cn_stream := cn_stream cn @ data\<rparr>) m)))"

definition endConnection :: "nat \<Rightarrow> end_reason \<Rightarrow> console \<Rightarrow> console" where
  "endConnection c reason m = (let key = pt_key (cn_port (sm_conns m ! c)) in
     close_handle c (if map_of (sm_open m) key = Some c then close_clients c reason (forget_port key m) else m))"

datatype read_result = Read string bool \<comment> \<open>the bytes read; whether an error came with them\<close>

text \<open>One turn of \<open>readLoop\<close>: at most 4096 bytes, and the end on an error or an empty read.\<close>

definition read_turn :: "nat \<Rightarrow> read_result \<Rightarrow> console \<Rightarrow> console" where
  "read_turn c res m = (case res of Read data err \<Rightarrow>
     (let m1 = (if data \<noteq> [] then broadcast c data m else m) in
      if err \<or> data = [] then upd_conn c (\<lambda>cn. cn\<lparr>cn_loop := False\<rparr>) (endConnection c Disconnected m1) else m1))"

definition detach :: "string \<Rightarrow> client \<Rightarrow> console \<Rightarrow> console" where
  "detach key i m = (case map_of (sm_open m) key of
       None \<Rightarrow> m
     | Some c \<Rightarrow> drop_if_unused c key (closeSubscriberLocked c i Detached m))"

datatype write_error = NoLease | WriteFailed | ShortWrite

text \<open>The loop over \<open>handle.Write\<close>: the results are what each call wrote, \<open>None\<close> for an error.\<close>

fun write_loop :: "int option list \<Rightarrow> string \<Rightarrow> string \<Rightarrow> write_error option \<times> string" where
  "write_loop results done [] = (None, done)"
| "write_loop [] done data = (Some WriteFailed, done)"
| "write_loop (None # _) done data = (Some WriteFailed, done)"
| "write_loop (Some n # results) done data = (if n \<le> 0 then (Some ShortWrite, done)
     else write_loop results (done @ take (nat n) data) (drop (nat n) data))"

definition write_console :: "string \<Rightarrow> client \<Rightarrow> int option list \<Rightarrow> string \<Rightarrow> console \<Rightarrow> write_error option \<times> string" where
  "write_console key i results data m = (case map_of (sm_open m) key of
       None \<Rightarrow> (Some NoLease, [])
     | Some c \<Rightarrow> if cn_controller (sm_conns m ! c) \<noteq> i then (Some NoLease, []) else write_loop results [] data)"

definition Close_console :: "console \<Rightarrow> console" where
  "Close_console m = (if sm_closed m then m
     else fold close_handle (map snd (sm_open m))
       ((fold (\<lambda>c. close_clients c ManagerStopped) (map snd (sm_open m)) (m\<lparr>sm_closed := True\<rparr>))\<lparr>sm_open := []\<rparr>))"

text \<open>A client takes the next chunk from its channel, also after it was closed.\<close>

definition take_chunk :: "client \<Rightarrow> console \<Rightarrow> console" where
  "take_chunk i = upd_sub i (\<lambda>s. case sb_data s of [] \<Rightarrow> s
     | d # ds \<Rightarrow> s\<lparr>sb_data := ds, sb_taken := sb_taken s @ d\<rparr>)"

definition Err_attachment :: "client \<Rightarrow> console \<Rightarrow> end_reason option" where
  "Err_attachment i m = (case sm_subs m i of
       Some s \<Rightarrow> if sb_closed s \<and> sb_reason s \<noteq> Detached then Some (sb_reason s) else None
     | None \<Rightarrow> None)"

subsection \<open>What the console keeps\<close>

abbreviation conn :: "console \<Rightarrow> nat \<Rightarrow> connection" where
  "conn m c \<equiv> sm_conns m ! c"

abbreviation is_open :: "console \<Rightarrow> nat \<Rightarrow> bool" where
  "is_open m c \<equiv> map_of (sm_open m) (pt_key (cn_port (conn m c))) = Some c"

definition ports_ok :: "console \<Rightarrow> bool" where
  "ports_ok m \<longleftrightarrow> distinct (map fst (sm_open m)) \<and> (\<forall>k c. map_of (sm_open m) k = Some c \<longrightarrow>
     c < length (sm_conns m) \<and> pt_key (cn_port (conn m c)) = k \<and> \<not> cn_handle_closed (conn m c))"

definition gone_ok :: "console \<Rightarrow> bool" where
  "gone_ok m \<longleftrightarrow> (\<forall>c < length (sm_conns m). \<not> is_open m c \<longrightarrow>
     cn_handle_closed (conn m c) \<and> cn_clients (conn m c) = [])"

definition clients_ok :: "console \<Rightarrow> bool" where
  "clients_ok m \<longleftrightarrow> (\<forall>c < length (sm_conns m). distinct (cn_clients (conn m c))
     \<and> (cn_controller (conn m c) = 0 \<or> cn_controller (conn m c) \<in> set (cn_clients (conn m c)))
     \<and> (\<forall>i \<in> set (cn_clients (conn m c)). \<exists>s. sm_subs m i = Some s \<and> \<not> sb_closed s \<and> sb_conn s = c))"

definition subs_ok :: "console \<Rightarrow> bool" where
  "subs_ok m \<longleftrightarrow> (\<forall>i s. sm_subs m i = Some s \<longrightarrow> 0 < i \<and> i \<le> sm_next m \<and> sb_conn s < length (sm_conns m)
     \<and> length (sb_data s) \<le> 128 \<and> (\<not> sb_closed s \<longrightarrow> i \<in> set (cn_clients (conn m (sb_conn s)))))"

definition used_ok :: "console \<Rightarrow> bool" where
  "used_ok m \<longleftrightarrow> (\<forall>k c. map_of (sm_open m) k = Some c \<longrightarrow> cn_clients (conn m c) \<noteq> [])"

text \<open>The ring is the tail of the stream; a live subscriber has, taken or waiting, exactly the
  stream from where it began, but for the chunk that is just being delivered; one that was closed has
  a prefix of it.\<close>

definition tail_of :: "nat \<Rightarrow> string \<Rightarrow> string" where
  "tail_of n xs = drop (length xs - n) xs"

definition rings_ok :: "console \<Rightarrow> bool" where
  "rings_ok m \<longleftrightarrow> (\<forall>c < length (sm_conns m). cn_ring (conn m c) = tail_of (sm_replay m) (cn_stream (conn m c)))"

definition got :: "subscriber \<Rightarrow> string" where
  "got s = sb_taken s @ concat (sb_data s)"

definition owed :: "bool \<Rightarrow> string \<Rightarrow> string \<Rightarrow> subscriber \<Rightarrow> bool" where
  "owed waiting data stream s \<longleftrightarrow> sb_from s \<le> length stream \<and>
     (if sb_closed s then prefix (got s) (drop (sb_from s) stream)
      else got s @ (if waiting then data else []) = drop (sb_from s) stream)"

lemma owed_settled:
  "owed False data stream s \<longleftrightarrow> sb_from s \<le> length stream \<and> (sb_closed s \<longrightarrow> prefix (got s) (drop (sb_from s) stream))
     \<and> (\<not> sb_closed s \<longrightarrow> got s = drop (sb_from s) stream)"
  "owed waiting [] stream s = owed False data stream s"
  by (auto simp: owed_def)

definition streams_ok :: "client set \<Rightarrow> string \<Rightarrow> console \<Rightarrow> bool" where
  "streams_ok pending data m \<longleftrightarrow> (\<forall>i s. sm_subs m i = Some s \<longrightarrow>
     owed (i \<in> pending) data (cn_stream (conn m (sb_conn s))) s)"

lemma streams_settled: "streams_ok {} data m = streams_ok {} [] m"
  by (simp add: streams_ok_def owed_settled)

definition wired :: "console \<Rightarrow> bool" where
  "wired m \<longleftrightarrow> ports_ok m \<and> gone_ok m \<and> clients_ok m \<and> subs_ok m \<and> rings_ok m \<and> \<not> sm_panic m"

definition sound :: "console \<Rightarrow> bool" where
  "sound m \<longleftrightarrow> wired m \<and> used_ok m \<and> streams_ok {} [] m"

subsection \<open>Closing a subscriber\<close>

lemma conns_upd [simp]:
  "length (sm_conns (upd_conn c f m)) = length (sm_conns m)" "sm_subs (upd_conn c f m) = sm_subs m"
  "sm_open (upd_conn c f m) = sm_open m" "sm_next (upd_conn c f m) = sm_next m"
  "sm_panic (upd_conn c f m) = sm_panic m" "sm_replay (upd_conn c f m) = sm_replay m"
  "sm_closed (upd_conn c f m) = sm_closed m"
  by (simp_all add: upd_conn_def)

lemma conn_upd: "c < length (sm_conns m) \<Longrightarrow> conn (upd_conn c f m) k = (if k = c then f (conn m c) else conn m k)"
  by (simp add: upd_conn_def nth_list_update)

lemma upd_sub_sel [simp]:
  "sm_conns (upd_sub i f m) = sm_conns m" "sm_open (upd_sub i f m) = sm_open m"
  "sm_next (upd_sub i f m) = sm_next m" "sm_panic (upd_sub i f m) = sm_panic m"
  "sm_replay (upd_sub i f m) = sm_replay m" "sm_closed (upd_sub i f m) = sm_closed m"
  by (simp_all add: upd_sub_def split: option.split)

lemma subs_upd: "sm_subs (upd_sub i f m) k = (if k = i then map_option f (sm_subs m i) else sm_subs m k)"
  by (simp add: upd_sub_def split: option.split)

lemma clientD:
  assumes "clients_ok m" "c < length (sm_conns m)" "i \<in> set (cn_clients (conn m c))"
  shows "\<exists>s. sm_subs m i = Some s \<and> \<not> sb_closed s \<and> sb_conn s = c"
  using assms unfolding clients_ok_def by blast

text \<open>What closing the subscriber of a client changes.\<close>

lemma close_cases:
  assumes "clients_ok m" "c < length (sm_conns m)"
  obtains (absent) "i \<notin> set (cn_clients (conn m c))" "closeSubscriberLocked c i reason m = m"
  | (closed) s m' where "i \<in> set (cn_clients (conn m c))" "sm_subs m i = Some s" "\<not> sb_closed s" "sb_conn s = c"
      "closeSubscriberLocked c i reason m = m'" "length (sm_conns m') = length (sm_conns m)" "sm_open m' = sm_open m"
      "sm_next m' = sm_next m" "sm_panic m' = sm_panic m" "sm_replay m' = sm_replay m" "sm_closed m' = sm_closed m"
      "sm_subs m' = (sm_subs m)(i \<mapsto> s\<lparr>sb_closed := True, sb_reason := reason\<rparr>)"
      "\<And>k. conn m' k = (if k = c then (conn m c)\<lparr>cn_clients := removeAll i (cn_clients (conn m c)),
          cn_controller := (if cn_controller (conn m c) = i then 0 else cn_controller (conn m c))\<rparr> else conn m k)"
proof (cases "i \<in> set (cn_clients (conn m c))")
  case False
  then show ?thesis by (intro absent) (simp_all add: closeSubscriberLocked_def)
next
  case True
  from clientD [OF assms True] obtain s where s: "sm_subs m i = Some s" "\<not> sb_closed s" "sb_conn s = c" by blast
  let ?m' = "closeSubscriberLocked c i reason m"
  have m': "?m' = upd_conn c (\<lambda>cn. cn\<lparr>cn_clients := removeAll i (cn_clients cn),
      cn_controller := (if cn_controller cn = i then 0 else cn_controller cn)\<rparr>)
      (upd_sub i (\<lambda>s. s\<lparr>sb_closed := True, sb_reason := reason\<rparr>) m)"
    using True s by (simp add: closeSubscriberLocked_def)
  show ?thesis
    by (rule closed [OF True s refl])
      (use assms(2) s(1) in \<open>simp_all add: m' conn_upd subs_upd fun_eq_iff\<close>)
qed

lemma close_wired:
  assumes w: "wired m" and c: "c < length (sm_conns m)"
  shows "wired (closeSubscriberLocked c i reason m)"
proof -
  have cl: "clients_ok m" using w by (simp add: wired_def)
  show ?thesis
  proof (rule close_cases [OF cl c, of i reason])
    fix s m' assume e: "i \<in> set (cn_clients (conn m c))" "sm_subs m i = Some s" "\<not> sb_closed s" "sb_conn s = c"
      "closeSubscriberLocked c i reason m = m'" "length (sm_conns m') = length (sm_conns m)" "sm_open m' = sm_open m"
      "sm_next m' = sm_next m" "sm_panic m' = sm_panic m" "sm_replay m' = sm_replay m"
      "sm_subs m' = (sm_subs m)(i \<mapsto> s\<lparr>sb_closed := True, sb_reason := reason\<rparr>)"
      and k: "\<And>k. conn m' k = (if k = c then (conn m c)\<lparr>cn_clients := removeAll i (cn_clients (conn m c)),
          cn_controller := (if cn_controller (conn m c) = i then 0 else cn_controller (conn m c))\<rparr> else conn m k)"
    have same: "cn_port (conn m' k) = cn_port (conn m k)" "cn_handle_closed (conn m' k) = cn_handle_closed (conn m k)"
      "cn_ring (conn m' k) = cn_ring (conn m k)" "cn_stream (conn m' k) = cn_stream (conn m k)"
      "set (cn_clients (conn m' k)) = set (cn_clients (conn m k)) - (if k = c then {i} else {})" for k
      by (simp_all add: k)
    have "ports_ok m'" using w e by (simp add: wired_def ports_ok_def same)
    moreover have "gone_ok m'" using w e k by (auto simp: wired_def gone_ok_def same)
    moreover have "rings_ok m'" using w e by (simp add: wired_def rings_ok_def same)
    moreover have "clients_ok m'"
      unfolding clients_ok_def
    proof (intro allI impI)
      fix d assume d: "d < length (sm_conns m')"
      then have old: "distinct (cn_clients (conn m d))" "cn_controller (conn m d) = 0 \<or> cn_controller (conn m d) \<in> set (cn_clients (conn m d))"
        "\<And>j. j \<in> set (cn_clients (conn m d)) \<Longrightarrow> \<exists>s. sm_subs m j = Some s \<and> \<not> sb_closed s \<and> sb_conn s = d"
        using cl e(6) unfolding clients_ok_def by auto
      have "\<exists>s. sm_subs m' j = Some s \<and> \<not> sb_closed s \<and> sb_conn s = d" if "j \<in> set (cn_clients (conn m' d))" for j
      proof -
        have j: "j \<in> set (cn_clients (conn m d))" "d = c \<longrightarrow> j \<noteq> i" using that by (auto simp: same split: if_splits)
        then have "j \<noteq> i" using old(3) [of j] e(2,4) by auto
        with old(3) [OF j(1)] show ?thesis by (simp add: e(11))
      qed
      then show "distinct (cn_clients (conn m' d)) \<and> (cn_controller (conn m' d) = 0 \<or> cn_controller (conn m' d) \<in> set (cn_clients (conn m' d)))
          \<and> (\<forall>i\<in>set (cn_clients (conn m' d)). \<exists>s. sm_subs m' i = Some s \<and> \<not> sb_closed s \<and> sb_conn s = d)"
        using old(1,2) by (cases "d = c") (auto simp: k distinct_removeAll)
    qed
    moreover have "subs_ok m'" using w e by (auto simp: wired_def subs_ok_def same split: if_splits)
    ultimately show ?thesis using w e by (simp add: wired_def)
  qed (simp add: w)
qed

lemma close_conn:
  assumes "clients_ok m" "c < length (sm_conns m)"
  shows "length (sm_conns (closeSubscriberLocked c i reason m)) = length (sm_conns m)"
    "sm_open (closeSubscriberLocked c i reason m) = sm_open m"
    "cn_clients (conn (closeSubscriberLocked c i reason m) k) = (if k = c then removeAll i (cn_clients (conn m c)) else cn_clients (conn m k))"
    "cn_port (conn (closeSubscriberLocked c i reason m) k) = cn_port (conn m k)"
    "cn_stream (conn (closeSubscriberLocked c i reason m) k) = cn_stream (conn m k)"
  by (rule close_cases [OF assms, of i reason]; simp)+

lemma close_streams:
  assumes w: "clients_ok m" and c: "c < length (sm_conns m)" and st: "streams_ok pending data m"
  shows "streams_ok (pending - {i}) data (closeSubscriberLocked c i reason m) \<or> i \<notin> set (cn_clients (conn m c))"
    "i \<notin> pending \<Longrightarrow> streams_ok pending data (closeSubscriberLocked c i reason m)"
proof -
  have "streams_ok P data (closeSubscriberLocked c i reason m)"
    if p: "\<And>k. k \<noteq> i \<Longrightarrow> k \<in> P \<longleftrightarrow> k \<in> pending" and i: "i \<in> set (cn_clients (conn m c)) \<or> P = pending" for P
  proof (rule close_cases [OF w c, of i reason])
    assume "i \<notin> set (cn_clients (conn m c))" "closeSubscriberLocked c i reason m = m"
    with st i show ?thesis by simp
  next
    fix s m' assume e: "sm_subs m i = Some s" "\<not> sb_closed s"
      "closeSubscriberLocked c i reason m = m'"
      "sm_subs m' = (sm_subs m)(i \<mapsto> s\<lparr>sb_closed := True, sb_reason := reason\<rparr>)"
      and k: "\<And>k. conn m' k = (if k = c then (conn m c)\<lparr>cn_clients := removeAll i (cn_clients (conn m c)),
          cn_controller := (if cn_controller (conn m c) = i then 0 else cn_controller (conn m c))\<rparr> else conn m k)"
    have stream: "cn_stream (conn m' d) = cn_stream (conn m d)" for d by (simp add: k)
    show ?thesis
      unfolding streams_ok_def e(3)
    proof (intro allI impI)
      fix q t assume t: "sm_subs m' q = Some t"
      show "owed (q \<in> P) data (cn_stream (conn m' (sb_conn t))) t"
      proof (cases "q = i")
        case True
        then have tt: "t = s\<lparr>sb_closed := True, sb_reason := reason\<rparr>" using t e(4) by simp
        have "owed (i \<in> pending) data (cn_stream (conn m (sb_conn s))) s"
          using st e(1) by (simp add: streams_ok_def)
        then have "owed (q \<in> P) data (cn_stream (conn m (sb_conn s))) t"
          using e(2) by (simp add: owed_def tt got_def prefix_def) (metis append.assoc)
        then show ?thesis by (simp add: tt stream)
      next
        case False
        then have "sm_subs m q = Some t" using t e(4) by simp
        with st p [OF False] show ?thesis by (simp add: streams_ok_def stream)
      qed
    qed
  qed
  then show "streams_ok (pending - {i}) data (closeSubscriberLocked c i reason m) \<or> i \<notin> set (cn_clients (conn m c))"
    "i \<notin> pending \<Longrightarrow> streams_ok pending data (closeSubscriberLocked c i reason m)" by auto
qed

subsection \<open>Closing all clients of a connection\<close>

lemma wiredD:
  assumes "wired m"
  shows "ports_ok m" "gone_ok m" "clients_ok m" "subs_ok m" "rings_ok m" "\<not> sm_panic m"
  using assms by (simp_all add: wired_def)

lemma close_all_step:
  assumes "wired m" "c < length (sm_conns m)" "streams_ok {} [] m"
  shows "let m' = fold (\<lambda>i. closeSubscriberLocked c i reason) cs m in wired m' \<and> streams_ok {} [] m' \<and> length (sm_conns m') = length (sm_conns m) \<and> sm_open m' = sm_open m
    \<and> (\<forall>k. cn_port (conn m' k) = cn_port (conn m k)) \<and> (\<forall>k. k \<noteq> c \<longrightarrow> cn_clients (conn m' k) = cn_clients (conn m k))
    \<and> set (cn_clients (conn m' c)) = set (cn_clients (conn m c)) - set cs"
  using assms
proof (induction cs arbitrary: m)
  case (Cons i cs)
  let ?n = "closeSubscriberLocked c i reason m"
  note cl = wiredD(3) [OF Cons.prems(1)] and eff = close_conn [OF wiredD(3) [OF Cons.prems(1)] Cons.prems(2), of i reason]
  have "wired ?n" "streams_ok {} [] ?n" "c < length (sm_conns ?n)"
    using close_wired [OF Cons.prems(1,2)] close_streams(2) [OF cl Cons.prems(2,3), of i reason] eff(1) Cons.prems(2) by simp_all
  from Cons.IH [OF this(1,3,2)] eff show ?case by (auto simp: Let_def)
qed simp

lemma close_clients_ok:
  assumes "wired m" "c < length (sm_conns m)" "streams_ok {} [] m"
  shows "wired (close_clients c reason m)" "streams_ok {} [] (close_clients c reason m)"
    "length (sm_conns (close_clients c reason m)) = length (sm_conns m)" "sm_open (close_clients c reason m) = sm_open m"
    "cn_port (conn (close_clients c reason m) k) = cn_port (conn m k)"
    "k \<noteq> c \<Longrightarrow> cn_clients (conn (close_clients c reason m) k) = cn_clients (conn m k)"
    "cn_clients (conn (close_clients c reason m) c) = []"
  using close_all_step [OF assms, of reason "cn_clients (conn m c)"] unfolding close_clients_def Let_def by auto

text \<open>Taking a connection without clients out of the map and closing its handle.\<close>

lemma drop_open:
  assumes w: "wired m" and k: "map_of (sm_open m) key = Some c" and e: "cn_clients (conn m c) = []"
    and st: "streams_ok pending data m" and used: "\<And>k d. map_of (sm_open m) k = Some d \<Longrightarrow> d \<noteq> c \<Longrightarrow> cn_clients (conn m d) \<noteq> []"
  shows "wired (close_handle c (forget_port key m)) \<and> used_ok (close_handle c (forget_port key m))
    \<and> streams_ok pending data (close_handle c (forget_port key m))"
proof -
  let ?m' = "close_handle c (forget_port key m)"
  note wd = wiredD [OF w]
  have c: "c < length (sm_conns m)" "pt_key (cn_port (conn m c)) = key" using wd(1) k by (auto simp: ports_ok_def)
  have open': "map_of (sm_open ?m') = (map_of (sm_open m))(key := None)"
    by (simp add: close_handle_def forget_port_def delete_conv')
  have conn': "conn ?m' d = (if d = c then (conn m c)\<lparr>cn_handle_closed := True\<rparr> else conn m d)" for d
    using c(1) by (simp add: close_handle_def forget_port_def upd_conn_def nth_list_update)
  have sel: "length (sm_conns ?m') = length (sm_conns m)" "sm_subs ?m' = sm_subs m" "sm_next ?m' = sm_next m"
    "sm_panic ?m' = sm_panic m" "sm_replay ?m' = sm_replay m"
    by (simp_all add: close_handle_def forget_port_def)
  have same: "cn_port (conn ?m' d) = cn_port (conn m d)" "cn_clients (conn ?m' d) = cn_clients (conn m d)"
    "cn_stream (conn ?m' d) = cn_stream (conn m d)" "cn_ring (conn ?m' d) = cn_ring (conn m d)"
    "cn_controller (conn ?m' d) = cn_controller (conn m d)" for d
    by (simp_all add: conn')
  have other: "d \<noteq> c" if "map_of (sm_open m) k' = Some d" "k' \<noteq> key" for k' d
    using wd(1) that c(2) by (auto simp: ports_ok_def)
  have "distinct (map fst (sm_open ?m'))"
    using wd(1) by (simp add: ports_ok_def close_handle_def forget_port_def distinct_delete)
  then have "ports_ok ?m'"
    using wd(1) other unfolding ports_ok_def open' sel same by (auto simp: conn')
  moreover have "gone_ok ?m'"
    using wd(2) e c(2) k by (auto simp: gone_ok_def open' sel same conn' split: if_splits)
  moreover have "clients_ok ?m'" using wd(3) by (simp add: clients_ok_def sel same)
  moreover have "subs_ok ?m'" using wd(4) by (simp add: subs_ok_def sel same)
  moreover have "rings_ok ?m'" using wd(5) by (simp add: rings_ok_def sel same)
  moreover have "used_ok ?m'" using used other by (auto simp: used_ok_def open' same split: if_splits)
  moreover have "streams_ok pending data ?m'" using st by (simp add: streams_ok_def sel same)
  ultimately show ?thesis using wd(6) by (simp add: wired_def sel)
qed

subsection \<open>Every operation is sound\<close>

lemma soundD:
  assumes "sound m"
  shows "wired m" "used_ok m" "streams_ok {} [] m"
  using assms by (simp_all add: sound_def)

lemma is_open_lt: "ports_ok m \<Longrightarrow> map_of (sm_open m) key = Some c \<Longrightarrow> c < length (sm_conns m) \<and> pt_key (cn_port (conn m c)) = key"
  by (simp add: ports_ok_def)

lemma open_unique: "ports_ok m \<Longrightarrow> map_of (sm_open m) k = Some c \<Longrightarrow> map_of (sm_open m) k' = Some c \<Longrightarrow> k = k'"
  unfolding ports_ok_def by metis

lemma drop_if_unused_sound:
  assumes w: "wired m" and st: "streams_ok {} [] m" and k: "map_of (sm_open m) key = Some c"
    and used: "\<And>k d. map_of (sm_open m) k = Some d \<Longrightarrow> d \<noteq> c \<Longrightarrow> cn_clients (conn m d) \<noteq> []"
  shows "sound (drop_if_unused c key m)"
proof (cases "cn_clients (conn m c) = []")
  case True
  with drop_open [OF w k True st used] show ?thesis by (simp add: drop_if_unused_def sound_def)
next
  case False
  then have "used_ok m" using used unfolding used_ok_def by metis
  with False w st show ?thesis by (simp add: drop_if_unused_def sound_def)
qed

lemma detach_sound: "sound m \<Longrightarrow> sound (detach key i m)"
proof (cases "map_of (sm_open m) key")
  case (Some c)
  assume s: "sound m"
  note sd = soundD [OF s] and wd = wiredD [OF soundD(1) [OF s]]
  let ?n = "closeSubscriberLocked c i Detached m"
  have c: "c < length (sm_conns m)" using is_open_lt [OF wd(1) Some] by blast
  note eff = close_conn [OF wd(3) c, of i Detached]
  have "sound (drop_if_unused c key ?n)"
  proof (rule drop_if_unused_sound)
    show "wired ?n" by (rule close_wired [OF sd(1) c])
    show "streams_ok {} [] ?n" by (rule close_streams(2) [OF wd(3) c sd(3)]) simp
    show "map_of (sm_open ?n) key = Some c" by (simp add: eff Some)
    show "cn_clients (conn ?n d) \<noteq> []" if "map_of (sm_open ?n) k = Some d" "d \<noteq> c" for k d
      using that sd(2) by (simp add: eff used_ok_def)
  qed
  then show ?thesis by (simp add: detach_def Some)
qed (simp add: detach_def)

lemma close_handle_again:
  assumes "sound m" "cn_handle_closed (conn m c)" "c < length (sm_conns m)"
  shows "close_handle c m = m"
proof -
  have "(conn m c)\<lparr>cn_handle_closed := True\<rparr> = conn m c" using assms(2) by simp
  then show ?thesis by (simp add: close_handle_def upd_conn_def)
qed

lemma close_clients_forget: "close_clients c reason (forget_port key m) = forget_port key (close_clients c reason m)"
proof -
  have one: "closeSubscriberLocked c i reason (forget_port key n) = forget_port key (closeSubscriberLocked c i reason n)" for i n
    by (simp add: closeSubscriberLocked_def forget_port_def upd_conn_def upd_sub_def split: option.split)
  have "fold (\<lambda>i. closeSubscriberLocked c i reason) cs (forget_port key n)
      = forget_port key (fold (\<lambda>i. closeSubscriberLocked c i reason) cs n)" for cs n
    by (induction cs arbitrary: n) (simp_all add: one)
  then show ?thesis by (simp add: close_clients_def forget_port_def)
qed

lemma endConnection_sound:
  assumes s: "sound m" and c: "c < length (sm_conns m)"
  shows "sound (endConnection c reason m)"
proof (cases "is_open m c")
  case False
  with s c have "cn_handle_closed (conn m c)" unfolding sound_def wired_def gone_ok_def by blast
  with False close_handle_again [OF s _ c] s show ?thesis by (simp add: endConnection_def Let_def)
next
  case True
  let ?key = "pt_key (cn_port (conn m c))" and ?n = "close_clients c reason m"
  note sd = soundD [OF s]
  note cc = close_clients_ok [OF sd(1) c sd(3), where reason = reason]
  have "wired (close_handle c (forget_port ?key ?n)) \<and> used_ok (close_handle c (forget_port ?key ?n))
    \<and> streams_ok {} [] (close_handle c (forget_port ?key ?n))"
    by (rule drop_open [OF cc(1)]) (use cc True sd(2) in \<open>auto simp: used_ok_def\<close>)
  then show ?thesis
    by (simp add: sound_def endConnection_def Let_def True close_clients_forget)
qed

lemma chunk_effect:
  assumes w: "wired m" and c: "c < length (sm_conns m)" and i: "i \<in> set (cn_clients (conn m c))"
    and st: "streams_ok P data m" and p: "i \<in> P"
  shows "wired (deliver_chunk c data i m) \<and> streams_ok (P - {i}) data (deliver_chunk c data i m)
    \<and> length (sm_conns (deliver_chunk c data i m)) = length (sm_conns m)
    \<and> sm_open (deliver_chunk c data i m) = sm_open m
    \<and> (\<forall>k. k \<noteq> c \<longrightarrow> cn_clients (conn (deliver_chunk c data i m) k) = cn_clients (conn m k))
    \<and> (\<forall>j. j \<noteq> i \<longrightarrow> j \<in> set (cn_clients (conn m c)) \<longrightarrow> j \<in> set (cn_clients (conn (deliver_chunk c data i m) c)))"
proof -
  note wd = wiredD [OF w]
  from clientD [OF wd(3) c i] obtain s where s: "sm_subs m i = Some s" "\<not> sb_closed s" "sb_conn s = c" by blast
  show ?thesis
  proof (cases "length (sb_data s) < 128")
    case False
    then have d: "deliver_chunk c data i m = closeSubscriberLocked c i SlowConsumer m"
      using s by (simp add: deliver_chunk_def)
    have "streams_ok (P - {i}) data (closeSubscriberLocked c i SlowConsumer m)"
      using close_streams(1) [OF wd(3) c st, of i SlowConsumer] i by blast
    then show ?thesis
      unfolding d using close_wired [OF w c] close_conn [OF wd(3) c, of i SlowConsumer] by auto
  next
    case True
    let ?f = "\<lambda>s. s\<lparr>sb_data := sb_data s @ [data]\<rparr>"
    let ?n = "deliver_chunk c data i m"
    have n: "?n = upd_sub i ?f m"
      using True s wd(6) by (simp add: deliver_chunk_def upd_sub_def)
    have subs: "sm_subs ?n k = (if k = i then Some (?f s) else sm_subs m k)" for k
      by (simp add: n subs_upd s(1))
    have sel: "sm_conns ?n = sm_conns m" "sm_open ?n = sm_open m" "sm_next ?n = sm_next m" "sm_panic ?n = sm_panic m"
      "sm_replay ?n = sm_replay m" by (simp_all add: n)
    have "\<exists>t. sm_subs ?n j = Some t \<and> \<not> sb_closed t \<and> sb_conn t = d"
      if "\<exists>t. sm_subs m j = Some t \<and> \<not> sb_closed t \<and> sb_conn t = d" for j d
      using that s(1) by (auto simp: subs)
    then have "clients_ok ?n" using wd(3) unfolding clients_ok_def sel by blast
    moreover have "subs_ok ?n" using wd(4) s True unfolding subs_ok_def sel subs by auto
    ultimately have "wired ?n"
      using wd by (simp add: wired_def ports_ok_def gone_ok_def rings_ok_def sel)
    moreover have "streams_ok (P - {i}) data ?n"
      unfolding streams_ok_def sel
    proof (intro allI impI)
      fix k t assume t: "sm_subs ?n k = Some t"
      show "owed (k \<in> P - {i}) data (cn_stream (conn m (sb_conn t))) t"
      proof (cases "k = i")
        case True
        then have "t = ?f s" using t by (simp add: subs)
        moreover have "owed True data (cn_stream (conn m (sb_conn s))) s"
          using st s(1) p unfolding streams_ok_def by fastforce
        ultimately show ?thesis using True s(2) by (simp add: owed_def got_def)
      next
        case False
        with t st show ?thesis by (simp add: subs streams_ok_def)
      qed
    qed
    ultimately show ?thesis by (simp add: sel)
  qed
qed

lemma deliver_all:
  assumes "wired m" "c < length (sm_conns m)" "set cs \<subseteq> set (cn_clients (conn m c))" "distinct cs"
    "streams_ok (set cs) data m"
  shows "let m' = fold (deliver_chunk c data) cs m in wired m' \<and> streams_ok {} data m' \<and> sm_open m' = sm_open m
    \<and> length (sm_conns m') = length (sm_conns m)
    \<and> (\<forall>k. k \<noteq> c \<longrightarrow> cn_clients (conn m' k) = cn_clients (conn m k))"
  using assms
proof (induction cs arbitrary: m)
  case (Cons i cs)
  let ?n = "deliver_chunk c data i m"
  have i: "i \<in> set (cn_clients (conn m c))" "i \<in> set (i # cs)" using Cons.prems(3) by simp_all
  from chunk_effect [OF Cons.prems(1,2) i(1) Cons.prems(5) i(2)]
  have e: "wired ?n" "streams_ok (set (i # cs) - {i}) data ?n" "length (sm_conns ?n) = length (sm_conns m)"
    "sm_open ?n = sm_open m" "\<forall>k. k \<noteq> c \<longrightarrow> cn_clients (conn ?n k) = cn_clients (conn m k)"
    "\<forall>j. j \<noteq> i \<longrightarrow> j \<in> set (cn_clients (conn m c)) \<longrightarrow> j \<in> set (cn_clients (conn ?n c))" by blast+
  have "set (i # cs) - {i} = set cs" using Cons.prems(4) by auto
  moreover have "set cs \<subseteq> set (cn_clients (conn ?n c))" using Cons.prems(3,4) e(6) by auto
  ultimately show ?case
    using Cons.IH [of ?n] e Cons.prems(2,4) by (simp add: Let_def)
qed simp

lemma tail_append: "tail_of n (tail_of n xs @ ys) = tail_of n (xs @ ys)"
proof (cases "length xs \<le> n")
  case False
  then have "tail_of n xs @ ys = drop (length xs - n) (xs @ ys)" by (simp add: tail_of_def)
  moreover have "length (drop (length xs - n) (xs @ ys)) - n + (length xs - n) = length (xs @ ys) - n"
    using False by simp
  ultimately show ?thesis by (simp add: tail_of_def add.commute)
qed (simp add: tail_of_def)

lemma remember_tail: "remember n data (tail_of n xs) = tail_of n (xs @ data)"
proof (cases "n = 0")
  case False
  have "remember n data (tail_of n xs) = tail_of n (tail_of n xs @ data)"
    using False by (simp add: remember_def tail_of_def)
  then show ?thesis by (simp add: tail_append)
qed (simp add: remember_def tail_of_def)

lemma broadcast_sound:
  assumes s: "sound m" and c: "c < length (sm_conns m)"
  shows "sound (broadcast c data m)"
proof (cases "is_open m c")
  case False
  then show ?thesis using s by (simp add: broadcast_def Let_def)
next
  case True
  let ?key = "pt_key (cn_port (conn m c))" and ?cs = "cn_clients (conn m c)"
  let ?n = "upd_conn c (\<lambda>cn. cn\<lparr>cn_ring := remember (sm_replay m) data (cn_ring cn), cn_stream := cn_stream cn @ data\<rparr>) m"
  note sd = soundD [OF s] and wd = wiredD [OF soundD(1) [OF s]]
  have k: "conn ?n d = (if d = c then (conn m c)\<lparr>cn_ring := remember (sm_replay m) data (cn_ring (conn m c)),
      cn_stream := cn_stream (conn m c) @ data\<rparr> else conn m d)" for d
    by (rule conn_upd [OF c])
  have same: "cn_port (conn ?n d) = cn_port (conn m d)" "cn_clients (conn ?n d) = cn_clients (conn m d)"
    "cn_controller (conn ?n d) = cn_controller (conn m d)" "cn_handle_closed (conn ?n d) = cn_handle_closed (conn m d)" for d
    by (simp_all add: k)
  have "rings_ok ?n" using wd(5) c by (auto simp: rings_ok_def k remember_tail)
  with wd have w: "wired ?n"
    by (simp add: wired_def ports_ok_def gone_ok_def clients_ok_def subs_ok_def same)
  have st: "streams_ok (set ?cs) data ?n"
    unfolding streams_ok_def
  proof (intro allI impI)
    fix i t assume t: "sm_subs ?n i = Some t"
    then have o: "owed False [] (cn_stream (conn m (sb_conn t))) t" using sd(3) by (simp add: streams_ok_def)
    have live: "i \<in> set ?cs \<longleftrightarrow> \<not> sb_closed t \<and> sb_conn t = c"
    proof
      assume "i \<in> set ?cs"
      from clientD [OF wd(3) c this] t show "\<not> sb_closed t \<and> sb_conn t = c" by auto
    next
      assume "\<not> sb_closed t \<and> sb_conn t = c"
      with wd(4) t show "i \<in> set ?cs" unfolding subs_ok_def by auto
    qed
    show "owed (i \<in> set ?cs) data (cn_stream (conn ?n (sb_conn t))) t"
    proof (cases "sb_conn t = c")
      case False
      then have "i \<notin> set ?cs" using live by blast
      with False o show ?thesis by (simp add: k owed_settled)
    next
      case True
      show ?thesis
      proof (cases "sb_closed t")
        case closed: True
        then have "i \<notin> set ?cs" using live by blast
        with True o closed show ?thesis by (simp add: k owed_settled prefix_def) (metis append.assoc)
      next
        case False
        with live True have "i \<in> set ?cs" by blast
        with True o False show ?thesis by (simp add: k owed_def)
      qed
    qed
  qed
  let ?m' = "fold (deliver_chunk c data) ?cs ?n"
  have "set ?cs \<subseteq> set (cn_clients (conn ?n c))" by (simp add: same)
  moreover have "distinct ?cs" using wd(3) c by (simp add: clients_ok_def)
  ultimately have d: "wired ?m'" "streams_ok {} data ?m'" "sm_open ?m' = sm_open m"
    "\<forall>k. k \<noteq> c \<longrightarrow> cn_clients (conn ?m' k) = cn_clients (conn m k)"
    using deliver_all [OF w, of c ?cs data] st c by (simp_all add: Let_def same)
  have "streams_ok {} [] ?m'" using d(2) unfolding streams_settled [of data] .
  then have "sound (drop_if_unused c ?key ?m')"
    by (rule drop_if_unused_sound [OF d(1)]) (use d True sd(2) in \<open>auto simp: used_ok_def\<close>)
  then show ?thesis by (simp add: broadcast_def Let_def True)
qed

lemma loop_flag_sound: "sound m \<Longrightarrow> c < length (sm_conns m) \<Longrightarrow> sound (upd_conn c (\<lambda>cn. cn\<lparr>cn_loop := b\<rparr>) m)"
proof -
  assume s: "sound m" and c: "c < length (sm_conns m)"
  let ?n = "upd_conn c (\<lambda>cn. cn\<lparr>cn_loop := b\<rparr>) m"
  have same: "cn_port (conn ?n d) = cn_port (conn m d)" "cn_clients (conn ?n d) = cn_clients (conn m d)"
    "cn_controller (conn ?n d) = cn_controller (conn m d)" "cn_handle_closed (conn ?n d) = cn_handle_closed (conn m d)"
    "cn_stream (conn ?n d) = cn_stream (conn m d)" "cn_ring (conn ?n d) = cn_ring (conn m d)" for d
    by (simp_all add: conn_upd [OF c])
  show "sound ?n"
    using s by (simp add: sound_def wired_def ports_ok_def gone_ok_def clients_ok_def subs_ok_def rings_ok_def
        used_ok_def streams_ok_def same)
qed

lemma length_fold: "(\<And>i m. length (sm_conns (f i m)) = length (sm_conns m)) \<Longrightarrow> length (sm_conns (fold f cs m)) = length (sm_conns m)"
  by (induction cs arbitrary: m) simp_all

lemma length_close: "length (sm_conns (closeSubscriberLocked c i reason m)) = length (sm_conns m)"
  by (simp add: closeSubscriberLocked_def split: option.split)

lemma length_deliver: "length (sm_conns (deliver_chunk c data i m)) = length (sm_conns m)"
  by (simp add: deliver_chunk_def length_close split: option.split)

lemma length_forget: "length (sm_conns (close_handle c m)) = length (sm_conns m)" "sm_conns (forget_port key m) = sm_conns m"
  by (simp_all add: close_handle_def forget_port_def)

lemma length_broadcast: "length (sm_conns (broadcast c data m)) = length (sm_conns m)"
  by (simp add: broadcast_def drop_if_unused_def Let_def length_forget length_fold length_deliver)

lemma length_end: "length (sm_conns (endConnection c reason m)) = length (sm_conns m)"
  by (simp add: endConnection_def close_clients_def Let_def length_forget length_fold length_close)

lemma read_turn_sound:
  assumes s: "sound m" and c: "c < length (sm_conns m)"
  shows "sound (read_turn c res m)"
proof (cases res)
  case (Read data err)
  let ?n = "if data \<noteq> [] then broadcast c data m else m"
  have n: "sound ?n" using s broadcast_sound [OF s c] by simp
  have len: "length (sm_conns ?n) = length (sm_conns m)"
    using length_broadcast [of c data m] by simp
  have e: "sound (endConnection c Disconnected ?n)" by (rule endConnection_sound [OF n]) (simp only: len c)
  have "sound (upd_conn c (\<lambda>cn. cn\<lparr>cn_loop := False\<rparr>) (endConnection c Disconnected ?n))"
    by (rule loop_flag_sound [OF e]) (simp only: length_end len c)
  with n show ?thesis
    unfolding read_turn_def Read Let_def read_result.case by (cases "err \<or> data = []") (simp_all only: if_True if_False)
qed

lemma take_sound: "sound m \<Longrightarrow> sound (take_chunk i m)"
proof (cases "sm_subs m i")
  case (Some s)
  assume so: "sound m"
  let ?f = "\<lambda>s. case sb_data s of [] \<Rightarrow> s | d # ds \<Rightarrow> s\<lparr>sb_data := ds, sb_taken := sb_taken s @ d\<rparr>"
  let ?n = "take_chunk i m"
  have subs: "sm_subs ?n k = (if k = i then Some (?f s) else sm_subs m k)" for k
    by (simp add: take_chunk_def subs_upd Some)
  have f: "sb_closed (?f s) = sb_closed s" "sb_conn (?f s) = sb_conn s" "got (?f s) = got s" "sb_from (?f s) = sb_from s"
    "length (sb_data (?f s)) \<le> length (sb_data s)"
    by (simp_all add: got_def split: list.split)
  have sel: "sm_conns ?n = sm_conns m" "sm_open ?n = sm_open m" "sm_next ?n = sm_next m" "sm_panic ?n = sm_panic m"
    "sm_replay ?n = sm_replay m" by (simp_all add: take_chunk_def)
  note wd = wiredD [OF soundD(1) [OF so]]
  have "\<exists>t. sm_subs ?n j = Some t \<and> \<not> sb_closed t \<and> sb_conn t = d"
    if "\<exists>t. sm_subs m j = Some t \<and> \<not> sb_closed t \<and> sb_conn t = d" for j d
    using that Some f by (auto simp: subs)
  then have "clients_ok ?n" using wd(3) unfolding clients_ok_def sel by blast
  moreover have "subs_ok ?n"
    unfolding subs_ok_def sel
  proof (intro allI impI)
    fix k t assume t: "sm_subs ?n k = Some t"
    obtain t0 where t0: "sm_subs m k = Some t0" "sb_conn t = sb_conn t0" "sb_closed t = sb_closed t0"
      "length (sb_data t) \<le> length (sb_data t0)"
      using t Some f by (cases "k = i") (auto simp: subs)
    with wd(4) show "0 < k \<and> k \<le> sm_next m \<and> sb_conn t < length (sm_conns m) \<and> length (sb_data t) \<le> 128
        \<and> (\<not> sb_closed t \<longrightarrow> k \<in> set (cn_clients (conn m (sb_conn t))))"
      unfolding subs_ok_def by fastforce
  qed
  moreover have "streams_ok {} [] ?n"
    unfolding streams_ok_def sel
  proof (intro allI impI)
    fix k t assume t: "sm_subs ?n k = Some t"
    obtain t0 where t0: "sm_subs m k = Some t0" "sb_conn t = sb_conn t0" "sb_closed t = sb_closed t0"
      "got t = got t0" "sb_from t = sb_from t0"
      using t Some f by (cases "k = i") (auto simp: subs)
    with soundD(3) [OF so] have "owed (k \<in> {}) [] (cn_stream (conn m (sb_conn t0))) t0" by (simp add: streams_ok_def)
    with t0 show "owed (k \<in> {}) [] (cn_stream (conn m (sb_conn t))) t" by (simp add: owed_settled)
  qed
  ultimately show ?thesis
    using so by (simp add: sound_def wired_def ports_ok_def gone_ok_def rings_ok_def used_ok_def sel)
qed (simp add: take_chunk_def upd_sub_def)

text \<open>A new subscriber; ids must not have run out.\<close>

lemma subscribe_sound:
  assumes w: "wired m" and st: "streams_ok {} [] m" and k: "map_of (sm_open m) key = Some c"
    and used: "\<And>k d. map_of (sm_open m) k = Some d \<Longrightarrow> d \<noteq> c \<Longrightarrow> cn_clients (conn m d) \<noteq> []"
    and ids: "sm_next m < - 1" and lease: "acc = Controller \<Longrightarrow> cn_controller (conn m c) = 0"
  shows "sound (subscribe_client c acc replay m)"
proof -
  let ?i = "sm_next m + 1" and ?again = "replay \<and> cn_ring (conn m c) \<noteq> []" and ?n = "subscribe_client c acc replay m"
  note wd = wiredD [OF w]
  have c: "c < length (sm_conns m)" "pt_key (cn_port (conn m c)) = key" using is_open_lt [OF wd(1) k] by simp_all
  have "1 + sm_next m \<noteq> 0" using ids by (metis add.commute add_eq_0_iff order.strict_iff_not order_refl)
  then have "unat (1 + sm_next m) = Suc (unat (sm_next m))" by (rule unatSuc)
  then have next': "sm_next m < ?i" "0 < ?i" by (simp_all add: word_less_nat_alt add.commute)
  have fresh: "sm_subs m ?i = None"
  proof (rule ccontr)
    assume "sm_subs m ?i \<noteq> None"
    then obtain t where "sm_subs m ?i = Some t" by blast
    with wd(4) have "?i \<le> sm_next m" unfolding subs_ok_def by blast
    with next'(1) show False by simp
  qed
  let ?s = "\<lparr>sb_data = (if ?again then [cn_ring (conn m c)] else []), sb_closed = False, sb_reason = Detached, sb_conn = c,
           sb_from = length (cn_stream (conn m c)) - (if ?again then length (cn_ring (conn m c)) else 0), sb_taken = []\<rparr>"
  have subs: "sm_subs ?n = (sm_subs m)(?i \<mapsto> ?s)" by (simp add: subscribe_client_def Let_def)
  have k': "conn ?n d = (if d = c then (conn m c)\<lparr>cn_clients := cn_clients (conn m c) @ [?i],
      cn_controller := (if acc = Controller then ?i else cn_controller (conn m c))\<rparr> else conn m d)" for d
    using c(1) by (simp add: subscribe_client_def Let_def conn_upd)
  have sel: "length (sm_conns ?n) = length (sm_conns m)" "sm_open ?n = sm_open m" "sm_next ?n = ?i" "sm_panic ?n = sm_panic m"
    "sm_replay ?n = sm_replay m" by (simp_all add: subscribe_client_def Let_def)
  have same: "cn_port (conn ?n d) = cn_port (conn m d)" "cn_handle_closed (conn ?n d) = cn_handle_closed (conn m d)"
    "cn_stream (conn ?n d) = cn_stream (conn m d)" "cn_ring (conn ?n d) = cn_ring (conn m d)"
    "set (cn_clients (conn ?n d)) = set (cn_clients (conn m d)) \<union> (if d = c then {?i} else {})" for d
    by (simp_all add: k')
  have absent: "?i \<notin> set (cn_clients (conn m d))" if "d < length (sm_conns m)" for d
    using clientD [OF wd(3) that, of ?i] fresh by force
  have "ports_ok ?n" using wd(1) by (simp add: ports_ok_def sel same)
  moreover have "gone_ok ?n" using wd(2) k c by (auto simp: gone_ok_def sel same k')
  moreover have "rings_ok ?n" using wd(5) by (simp add: rings_ok_def sel same)
  moreover have "clients_ok ?n"
    unfolding clients_ok_def sel
  proof (intro allI impI)
    fix d assume d: "d < length (sm_conns m)"
    have old: "distinct (cn_clients (conn m d))" "cn_controller (conn m d) = 0 \<or> cn_controller (conn m d) \<in> set (cn_clients (conn m d))"
      using wd(3) d unfolding clients_ok_def by blast+
    have "\<exists>t. sm_subs ?n j = Some t \<and> \<not> sb_closed t \<and> sb_conn t = d" if j: "j \<in> set (cn_clients (conn ?n d))" for j
    proof (cases "j = ?i")
      case True
      then have "d = c" using j absent [OF d] by (auto simp: same split: if_splits)
      with True show ?thesis by (simp add: subs)
    next
      case False
      with j have "j \<in> set (cn_clients (conn m d))" by (auto simp: same split: if_splits)
      from clientD [OF wd(3) d this] False show ?thesis by (simp add: subs)
    qed
    with old absent [OF d] show "distinct (cn_clients (conn ?n d))
        \<and> (cn_controller (conn ?n d) = 0 \<or> cn_controller (conn ?n d) \<in> set (cn_clients (conn ?n d)))
        \<and> (\<forall>i\<in>set (cn_clients (conn ?n d)). \<exists>s. sm_subs ?n i = Some s \<and> \<not> sb_closed s \<and> sb_conn s = d)"
      by (cases "d = c") (auto simp: k')
  qed
  moreover have "subs_ok ?n"
    unfolding subs_ok_def sel
  proof (intro allI impI)
    fix j t assume t: "sm_subs ?n j = Some t"
    show "0 < j \<and> j \<le> ?i \<and> sb_conn t < length (sm_conns m) \<and> length (sb_data t) \<le> 128
        \<and> (\<not> sb_closed t \<longrightarrow> j \<in> set (cn_clients (conn ?n (sb_conn t))))"
    proof (cases "j = ?i")
      case True
      with t have "t = ?s" by (simp add: subs)
      with True c(1) next'(2) show ?thesis by (simp add: k')
    next
      case False
      with t have "sm_subs m j = Some t" by (simp add: subs)
      with wd(4) have "0 < j \<and> j \<le> sm_next m \<and> sb_conn t < length (sm_conns m) \<and> length (sb_data t) \<le> 128
        \<and> (\<not> sb_closed t \<longrightarrow> j \<in> set (cn_clients (conn m (sb_conn t))))" unfolding subs_ok_def by blast
      with next'(1) show ?thesis by (auto simp: same)
    qed
  qed
  moreover have "used_ok ?n" using used by (auto simp: used_ok_def sel k')
  moreover have "streams_ok {} [] ?n"
    unfolding streams_ok_def same
  proof (intro allI impI)
    fix j t assume t: "sm_subs ?n j = Some t"
    show "owed (j \<in> {}) [] (cn_stream (conn m (sb_conn t))) t"
    proof (cases "j = ?i")
      case True
      with t have t': "t = ?s" by (simp add: subs)
      have "cn_ring (conn m c) = tail_of (sm_replay m) (cn_stream (conn m c))" using wd(5) c(1) by (simp add: rings_ok_def)
      then show ?thesis by (auto simp: t' owed_def got_def tail_of_def)
    next
      case False
      with t st show ?thesis by (simp add: subs streams_ok_def)
    qed
  qed
  ultimately show ?thesis using wd(6) by (simp add: sound_def wired_def sel)
qed

lemma new_connection_wired:
  fixes m :: console and p :: port and baud :: int
  assumes s: "sound m" and k: "map_of (sm_open m) (pt_key p) = None"
  defines "m1 \<equiv> m\<lparr>sm_conns := sm_conns m @ [new_connection p baud],
                    sm_open := AList.update (pt_key p) (length (sm_conns m)) (sm_open m)\<rparr>"
  shows "wired m1" "streams_ok {} [] m1" "map_of (sm_open m1) (pt_key p) = Some (length (sm_conns m))"
    "\<And>k d. map_of (sm_open m1) k = Some d \<Longrightarrow> d \<noteq> length (sm_conns m) \<Longrightarrow> cn_clients (conn m1 d) \<noteq> []"
proof -
  let ?c = "length (sm_conns m)"
  note sd = soundD [OF s] and wd = wiredD [OF soundD(1) [OF s]]
  have op: "map_of (sm_open m1) = (map_of (sm_open m))(pt_key p \<mapsto> ?c)" by (simp add: m1_def update_conv')
  have k': "conn m1 d = (if d = ?c then new_connection p baud else conn m d)" if "d \<le> ?c" for d
    using that by (simp add: m1_def nth_append)
  have old: "conn m1 d = conn m d" if "d < ?c" for d using that by (simp add: k')
  have new: "conn m1 ?c = new_connection p baud" by (simp add: k')
  have sel: "length (sm_conns m1) = Suc ?c" "sm_subs m1 = sm_subs m" "sm_next m1 = sm_next m" "sm_panic m1 = sm_panic m"
    "sm_replay m1 = sm_replay m" by (simp_all add: m1_def)
  have lt: "d < ?c" if "map_of (sm_open m) k = Some d" for k d using wd(1) that by (simp add: ports_ok_def)
  have sub: "sb_conn t < ?c" if "sm_subs m i = Some t" for i t using wd(4) that unfolding subs_ok_def by blast
  show "map_of (sm_open m1) (pt_key p) = Some ?c" by (simp add: op)
  have "distinct (map fst (sm_open m1))" using wd(1) by (simp add: m1_def ports_ok_def distinct_update)
  then have "ports_ok m1"
    using wd(1) lt unfolding ports_ok_def op by (auto simp: sel new old new_connection_def less_Suc_eq)
  moreover have "gone_ok m1"
    using wd(2) k unfolding gone_ok_def op sel by (auto simp: less_Suc_eq new old new_connection_def)
  moreover have "clients_ok m1"
    using wd(3) unfolding clients_ok_def sel by (auto simp: less_Suc_eq new old new_connection_def)
  moreover have "subs_ok m1"
    using wd(4) sub unfolding subs_ok_def sel by (metis less_SucI old)
  moreover have "rings_ok m1"
    using wd(5) unfolding rings_ok_def sel by (auto simp: less_Suc_eq new old new_connection_def tail_of_def)
  ultimately show "wired m1" using wd(6) by (simp add: wired_def sel)
  show "streams_ok {} [] m1" using sd(3) sub by (simp add: streams_ok_def sel old)
  show "cn_clients (conn m1 d) \<noteq> []" if "map_of (sm_open m1) k = Some d" "d \<noteq> ?c" for k d
    using that sd(2) lt by (auto simp: op used_ok_def old split: if_splits)
qed

lemma attach_sound:
  assumes s: "sound m" and ids: "sm_next m < - 1"
  shows "sound (snd (Attach canceled found can_open r m))"
proof (cases "attach_check m canceled found r")
  case (Inr x)
  obtain p baud acc where x: "x = (p, baud, acc)" by (cases x)
  note sd = soundD [OF s] and wd = wiredD [OF soundD(1) [OF s]]
  have "sound (snd (attach_locked can_open p baud acc (ar_replay r) m))"
  proof (cases "map_of (sm_open m) (pt_key p)")
    case None
    note nc = new_connection_wired [OF s None, of baud]
    let ?m1 = "m\<lparr>sm_conns := sm_conns m @ [new_connection p baud],
                    sm_open := AList.update (pt_key p) (length (sm_conns m)) (sm_open m)\<rparr>"
    have "sound (subscribe_client (length (sm_conns m)) acc (ar_replay r) ?m1)"
      by (rule subscribe_sound [OF nc(1,2,3)]) (use nc(4) ids in \<open>simp_all add: new_connection_def\<close>)
    then show ?thesis using s by (simp add: attach_locked_def None Let_def)
  next
    case (Some c)
    have "sound (subscribe_client c acc (ar_replay r) m)" if "\<not> (acc = Controller \<and> cn_controller (conn m c) \<noteq> 0)"
      by (rule subscribe_sound [OF sd(1,3) Some]) (use sd(2) ids that in \<open>auto simp: used_ok_def\<close>)
    then show ?thesis using s by (auto simp: attach_locked_def Some Let_def)
  qed
  then show ?thesis by (simp add: Attach_def Inr x)
qed (simp add: Attach_def s)

lemma close_list:
  assumes "wired m" "streams_ok {} [] m" "\<forall>c \<in> set cs. c < length (sm_conns m)"
  shows "let m' = fold (\<lambda>c. close_clients c reason) cs m in wired m' \<and> streams_ok {} [] m'
    \<and> length (sm_conns m') = length (sm_conns m) \<and> sm_open m' = sm_open m
    \<and> (\<forall>k. cn_port (conn m' k) = cn_port (conn m k))
    \<and> (\<forall>k. cn_clients (conn m k) = [] \<or> k \<in> set cs \<longrightarrow> cn_clients (conn m' k) = [])"
  using assms
proof (induction cs arbitrary: m)
  case (Cons c cs)
  have c: "c < length (sm_conns m)" using Cons.prems(3) by simp
  note cc = close_clients_ok [OF Cons.prems(1) c Cons.prems(2), where reason = reason]
  have "cn_clients (conn (close_clients c reason m) k) = []" if "cn_clients (conn m k) = [] \<or> k = c" for k
    using that cc(6) [of k] cc(7) by (cases "k = c") simp_all
  with Cons.IH [OF cc(1,2)] Cons.prems(3) cc show ?case by (auto simp: Let_def)
qed simp

lemma close_handles:
  "sm_subs (fold close_handle cs m) = sm_subs m" "sm_open (fold close_handle cs m) = sm_open m"
  "sm_next (fold close_handle cs m) = sm_next m" "sm_panic (fold close_handle cs m) = sm_panic m"
  "sm_replay (fold close_handle cs m) = sm_replay m" "length (sm_conns (fold close_handle cs m)) = length (sm_conns m)"
  by (induction cs arbitrary: m) (simp_all add: close_handle_def)

lemma close_handles_conn:
  "\<forall>c \<in> set cs. c < length (sm_conns m) \<Longrightarrow> conn (fold close_handle cs m) k
    = (if k \<in> set cs then (conn m k)\<lparr>cn_handle_closed := True\<rparr> else conn m k)"
proof (induction cs arbitrary: m)
  case (Cons c cs)
  have "\<forall>d \<in> set cs. d < length (sm_conns (close_handle c m))" using Cons.prems by (simp add: close_handle_def)
  from Cons.IH [OF this] Cons.prems show ?case by (auto simp: close_handle_def conn_upd)
qed simp

lemma closed_flag: "wired (m\<lparr>sm_closed := b\<rparr>) = wired m" "streams_ok P d (m\<lparr>sm_closed := b\<rparr>) = streams_ok P d m"
  by (simp_all add: wired_def ports_ok_def gone_ok_def clients_ok_def subs_ok_def rings_ok_def streams_ok_def)

lemma Close_sound: "sound m \<Longrightarrow> sound (Close_console m)"
proof (cases "sm_closed m")
  case False
  assume s: "sound m"
  note sd = soundD [OF s] and wd = wiredD [OF soundD(1) [OF s]]
  let ?cs = "map snd (sm_open m)" and ?c = "m\<lparr>sm_closed := True\<rparr>"
  let ?n = "fold (\<lambda>c. close_clients c ManagerStopped) ?cs ?c"
  let ?o = "fold close_handle ?cs (?n\<lparr>sm_open := []\<rparr>)"
  have cs: "c < length (sm_conns m)" if "c \<in> set ?cs" for c
    using that wd(1) by (auto simp: ports_ok_def)
  then have n: "wired ?n" "streams_ok {} [] ?n" "length (sm_conns ?n) = length (sm_conns m)" "sm_open ?n = sm_open m"
    "\<And>k. k \<in> set ?cs \<Longrightarrow> cn_clients (conn ?n k) = []" "\<And>k. cn_port (conn ?n k) = cn_port (conn m k)"
    using close_list [of ?c ?cs ManagerStopped] sd by (simp_all add: Let_def closed_flag)
  note wn = wiredD [OF n(1)]
  have k: "conn ?o k = (if k \<in> set ?cs then (conn ?n k)\<lparr>cn_handle_closed := True\<rparr> else conn ?n k)" for k
    using close_handles_conn [of ?cs "?n\<lparr>sm_open := []\<rparr>" k] cs n(3) by simp
  have same: "cn_clients (conn ?o k) = cn_clients (conn ?n k)" "cn_controller (conn ?o k) = cn_controller (conn ?n k)"
    "cn_ring (conn ?o k) = cn_ring (conn ?n k)" "cn_stream (conn ?o k) = cn_stream (conn ?n k)" for k
    by (simp_all add: k)
  have sel: "sm_subs ?o = sm_subs ?n" "sm_open ?o = []" "sm_next ?o = sm_next ?n" "sm_panic ?o = sm_panic ?n"
    "sm_replay ?o = sm_replay ?n" "length (sm_conns ?o) = length (sm_conns ?n)"
    by (simp_all add: close_handles)
  have "gone_ok ?o"
    unfolding gone_ok_def sel
  proof (intro allI impI)
    fix d assume d: "d < length (sm_conns ?n)"
    show "cn_handle_closed (conn ?o d) \<and> cn_clients (conn ?o d) = []"
    proof (cases "d \<in> set ?cs")
      case True
      with n(5) show ?thesis by (simp add: k)
    next
      case False
      then have "\<not> is_open ?n d" using n(4) by (force dest: map_of_SomeD)
      with wn(2) d False show ?thesis unfolding gone_ok_def k by simp
    qed
  qed
  moreover have "ports_ok ?o" "used_ok ?o" by (simp_all add: ports_ok_def used_ok_def sel)
  moreover have "clients_ok ?o" using wn(3) by (simp add: clients_ok_def sel same)
  moreover have "subs_ok ?o" using wn(4) by (simp add: subs_ok_def sel same)
  moreover have "rings_ok ?o" using wn(5) by (simp add: rings_ok_def sel same)
  moreover have "streams_ok {} [] ?o" using n(2) by (simp add: streams_ok_def sel same)
  ultimately have "sound ?o" using wn(6) by (simp add: sound_def wired_def sel)
  then show ?thesis by (simp add: Close_console_def False)
qed (simp add: Close_console_def)

subsection \<open>The console as a system\<close>

inductive console_step :: "console \<Rightarrow> console \<Rightarrow> bool" where
  attaches: "sm_next m < - 1 \<Longrightarrow> console_step m (snd (Attach canceled found can_open r m))"
| reads: "c < length (sm_conns m) \<Longrightarrow> cn_loop (conn m c) \<Longrightarrow> console_step m (read_turn c res m)"
| detaches: "console_step m (detach key i m)"
| takes: "console_step m (take_chunk i m)"
| closes: "console_step m (Close_console m)"

inductive new_console :: "console \<Rightarrow> bool" where
  "New_console baud replay = Some m \<Longrightarrow> new_console m"

lemma new_sound: "new_console m \<Longrightarrow> sound m"
  by (induction rule: new_console.induct)
    (auto simp: New_console_def Let_def sound_def wired_def ports_ok_def gone_ok_def clients_ok_def subs_ok_def
      rings_ok_def used_ok_def streams_ok_def split: if_splits)

interpretation console: step_invariant new_console console_step sound
proof
  show "new_console m \<Longrightarrow> sound m" for m by (rule new_sound)
  show "sound m \<Longrightarrow> console_step m m' \<Longrightarrow> sound m'" for m m'
    by (erule console_step.cases) (auto intro: attach_sound read_turn_sound detach_sound take_sound Close_sound)
qed


text \<open>C8: no client misses or repeats a byte: what a live subscriber has received, with what waits
  in its channel, is exactly the port's output from the point where it began; a subscriber that was
  dropped has an unbroken beginning of it; and the replay ring is the last bytes of the output.\<close>

theorem console_streams_are_gap_free:
  assumes "reach new_console console_step m"
  shows "(\<forall>i s. sm_subs m i = Some s \<longrightarrow>
      (let due = drop (sb_from s) (cn_stream (conn m (sb_conn s))) in
       (\<not> sb_closed s \<longrightarrow> sb_taken s @ concat (sb_data s) = due)
       \<and> prefix (sb_taken s @ concat (sb_data s)) due \<and> length (sb_data s) \<le> 128))
    \<and> (\<forall>c < length (sm_conns m). cn_ring (conn m c)
        = drop (length (cn_stream (conn m c)) - sm_replay m) (cn_stream (conn m c)))"
proof -
  note sd = soundD [OF console.reached [OF assms]] and wd = wiredD [OF soundD(1) [OF console.reached [OF assms]]]
  have "owed False [] (cn_stream (conn m (sb_conn s))) s \<and> length (sb_data s) \<le> 128" if "sm_subs m i = Some s" for i s
    using sd(3) wd(4) that by (auto simp: streams_ok_def subs_ok_def)
  then have "(\<not> sb_closed s \<longrightarrow> sb_taken s @ concat (sb_data s) = drop (sb_from s) (cn_stream (conn m (sb_conn s))))
      \<and> prefix (sb_taken s @ concat (sb_data s)) (drop (sb_from s) (cn_stream (conn m (sb_conn s))))
      \<and> length (sb_data s) \<le> 128" if "sm_subs m i = Some s" for i s
    using that by (cases "sb_closed s") (simp_all add: owed_settled got_def)
  with wd(5) show ?thesis by (simp add: Let_def rings_ok_def tail_of_def)
qed

subsection \<open>A concrete console\<close>

definition demo_port :: port where
  "demo_port = \<lparr>pt_key = ''k'', pt_name = ''tty'', pt_vendor = [], pt_product = [], pt_usb = [], pt_channel = [],
     pt_busy = False, pt_controller = False, pt_baud = 0\<rparr>"

definition demo_attach :: "access \<Rightarrow> console \<Rightarrow> console" where
  "demo_attach acc m = snd (Attach False (Some \<lparr>dc_ports = [demo_port], dc_warnings = []\<rparr>) True
     \<lparr>ar_port = ''k'', ar_baud = 0, ar_access = acc, ar_replay = True\<rparr> m)"

definition demo_idle :: console where
  "demo_idle = \<lparr>sm_default_baud = 115200, sm_replay = 4, sm_open = [], sm_conns = [], sm_subs = (\<lambda>_. None),
     sm_next = 0, sm_closed = False, sm_panic = False\<rparr>"

definition demo_console :: console where
  "demo_console = demo_attach Observer (read_turn 0 (Read ''xyz'' False) (read_turn 0 (Read ''ab'' False)
     (demo_attach Controller demo_idle)))"

lemma demo_idle_new: "new_console demo_idle"
proof -
  have "New_console 0 4 = Some demo_idle"
    by (simp add: New_console_def demo_idle_def Let_def DefaultBaudRate_def ValidateBaudRate_def)
  then show ?thesis by (rule new_console.intros)
qed

lemma demo_attached: "length (sm_conns (demo_attach Controller demo_idle)) = 1"
    "cn_loop (conn (demo_attach Controller demo_idle) 0)" "sm_next (demo_attach Controller demo_idle) = 1"
  by code_simp+

lemma demo_read: "length (sm_conns (read_turn 0 (Read ''ab'' False) (demo_attach Controller demo_idle))) = 1"
    "cn_loop (conn (read_turn 0 (Read ''ab'' False) (demo_attach Controller demo_idle)) 0)"
    "sm_next (read_turn 0 (Read ''xyz'' False) (read_turn 0 (Read ''ab'' False) (demo_attach Controller demo_idle))) = 1"
  by code_simp+

lemma ids_left: "(0 :: client) < - 1" "(1 :: client) < - 1"
  by code_simp+

lemma demo_console_reached: "reach new_console console_step demo_console"
proof -
  let ?a = "demo_attach Controller demo_idle"
  have "reach new_console console_step ?a"
    unfolding demo_attach_def
    by (rule reach_move [where move = console_step], rule reach_start, rule demo_idle_new, rule attaches)
      (simp add: demo_idle_def ids_left)
  then have "reach new_console console_step (read_turn 0 (Read ''ab'' False) ?a)"
    by (rule reach_move [where move = console_step]) (rule reads; simp add: demo_attached)
  then have "reach new_console console_step (read_turn 0 (Read ''xyz'' False) (read_turn 0 (Read ''ab'' False) ?a))"
    by (rule reach_move [where move = console_step]) (rule reads; simp add: demo_read)
  then show ?thesis
    unfolding demo_console_def demo_attach_def [of Observer]
    by (rule reach_move [where move = console_step]) (rule attaches; simp add: demo_read ids_left)
qed


lemma console_streams_are_gap_free_witness:
  "cn_ring (conn demo_console 0) = ''bxyz'' \<and> map_option sb_data (sm_subs demo_console 1) = Some [''ab'', ''xyz'']
   \<and> map_option sb_data (sm_subs demo_console 2) = Some [''bxyz'']"
proof -
  have d: "cn_stream (conn demo_console 0) = ''abxyz''" "sm_replay demo_console = 4" "0 < length (sm_conns demo_console)"
    "map_option sb_data (sm_subs demo_console 1) = Some [''ab'', ''xyz'']"
    "map_option sb_data (sm_subs demo_console 2) = Some [''bxyz'']"
    by code_simp+
  with console_streams_are_gap_free [OF demo_console_reached] show ?thesis by simp
qed

end
