(* ===== verification/SerialCapture.thy ===== *)
theory SerialCapture
  imports SerialConsole JobModel
begin

text \<open>
  The capture of a job's console output (\<open>internal/jobs/serial_capture.go\<close>): a console client of its
  own copies the port's output to the transcript file, up to the limit, counts what it received, and
  reports a failure.  The attachment is one of \<open>SerialConsole\<close>; what a file write returns is the input
  of the turn that makes it.
\<close>

datatype capture_error = ConsoleEnded end_reason | TranscriptWrite | ShortTranscriptWrite

record capture =
  cp_limit :: int
  cp_file :: string
  cp_meta :: serial_capture
  cp_write_error :: "capture_error option"
  cp_failure_error :: "capture_error option"
  cp_failure :: "capture_error option" \<comment> \<open>the channel of capacity one\<close>
  cp_warned :: bool
  cp_running :: bool
  cp_messages :: "(string \<times> string) list"

datatype start_error = NotConfigured | TranscriptNotCreated | AttachFailed attach_error

definition new_capture :: "int \<Rightarrow> int \<Rightarrow> capture" where
  "new_capture limit now = \<lparr>cp_limit = limit, cp_file = [],
     cp_meta = \<lparr>sc_state = ''capturing'', sc_received = 0, sc_retained = 0, sc_truncated = False,
       sc_started = now, sc_finished = None\<rparr>,
     cp_write_error = None, cp_failure_error = None, cp_failure = None, cp_warned = False,
     cp_running = True, cp_messages = []\<rparr>"

definition startSerialCapture :: "config \<Rightarrow> bool \<Rightarrow> bool \<Rightarrow> discovery option \<Rightarrow> bool \<Rightarrow> int \<Rightarrow> serial_request option \<Rightarrow> console \<Rightarrow>
    (start_error + (capture \<times> attachment) option) \<times> console" where
  "startSerialCapture cfg can_create canceled found can_open now request m = (case request of
       None \<Rightarrow> (Inr None, m)
     | Some r \<Rightarrow>
         if \<not> cf_console cfg then (Inl NotConfigured, m)
         else if \<not> can_create then (Inl TranscriptNotCreated, m)
         else (case Attach canceled found can_open
               \<lparr>ar_port = sr_port r, ar_baud = sr_baud r, ar_access = Observer, ar_replay = False\<rparr> m of
             (Inl e, m') \<Rightarrow> (Inl (AttachFailed e), m')
           | (Inr a, m') \<Rightarrow> (Inr (Some (new_capture (cf_console_limit cfg) now, a)), m')))"

definition fail_capture :: "capture_error \<Rightarrow> capture \<Rightarrow> capture" where
  "fail_capture e cp = cp\<lparr>cp_failure_error := (if cp_failure_error cp = None then Some e else cp_failure_error cp),
     cp_failure := (if cp_failure cp = None then Some e else cp_failure cp)\<rparr>"

text \<open>\<open>file.Write\<close>: the number of bytes written, and whether it returned an error.\<close>

type_synonym write_result = "nat \<times> bool"

definition write_transcript :: "write_result \<Rightarrow> string \<Rightarrow> capture \<Rightarrow> capture" where
  "write_transcript res data cp =
     (let remaining = cp_limit cp - sc_retained (cp_meta cp) in
      if remaining > 0
      then (let wanted = (if int (length data) > remaining then take (nat remaining) data else data);
                written = min (fst res) (length wanted) in
        cp\<lparr>cp_file := cp_file cp @ take written wanted,
           cp_meta := (cp_meta cp)\<lparr>sc_retained := sc_retained (cp_meta cp) + int written\<rparr>,
           cp_write_error := (if snd res then Some TranscriptWrite
              else if written \<noteq> length wanted then Some ShortTranscriptWrite else cp_write_error cp)\<rparr>)
      else cp)"

definition limit_message :: "int \<Rightarrow> string" where
  "limit_message limit = ''Serial transcript reached the '' @ itoa limit @ ''-byte retention limit; live output continues''"

definition capture_chunk :: "write_result \<Rightarrow> string \<Rightarrow> capture \<Rightarrow> capture" where
  "capture_chunk res data cp0 =
     (let cp1 = cp0\<lparr>cp_meta := (cp_meta cp0)\<lparr>sc_received := sc_received (cp_meta cp0) + int (length data)\<rparr>\<rparr>;
          cp2 = write_transcript res data cp1;
          cp3 = (if sc_received (cp_meta cp2) > cp_limit cp2
                 then cp2\<lparr>cp_meta := (cp_meta cp2)\<lparr>sc_truncated := True\<rparr>\<rparr> else cp2) in
      case cp_write_error cp3 of
        Some e \<Rightarrow> (fail_capture e cp3)\<lparr>cp_running := False\<rparr>
      | None \<Rightarrow> if sc_truncated (cp_meta cp3) \<and> \<not> cp_warned cp3
          then cp3\<lparr>cp_warned := True, cp_messages := cp_messages cp3 @ [(''warning'', limit_message (cp_limit cp3))]\<rparr>
          else cp3)"

text \<open>What the loop of \<open>run\<close> selects: the stop channel, a chunk, or the closed data channel with
  the error of the attachment, with or without a stop requested.\<close>

datatype selected = StopSelected | ChunkSelected write_result string | DataClosed bool "end_reason option"

definition capture_turn :: "selected \<Rightarrow> capture \<Rightarrow> capture" where
  "capture_turn sel cp = (if \<not> cp_running cp then cp else (case sel of
       StopSelected \<Rightarrow> cp\<lparr>cp_running := False\<rparr>
     | ChunkSelected res data \<Rightarrow> capture_chunk res data cp
     | DataClosed stopped err \<Rightarrow> (if stopped then cp
           else (case err of Some r \<Rightarrow> fail_capture (ConsoleEnded r) cp | None \<Rightarrow> cp))\<lparr>cp_running := False\<rparr>))"

definition capture_run :: "selected list \<Rightarrow> capture \<Rightarrow> capture" where
  "capture_run sels cp = fold capture_turn sels cp"

definition capture_state :: "bool \<Rightarrow> capture \<Rightarrow> string" where
  "capture_state failed cp = (if failed \<or> cp_write_error cp \<noteq> None \<or> cp_failure_error cp \<noteq> None then ''failed''
     else if sc_truncated (cp_meta cp) then ''truncated'' else ''complete'')"

text \<open>\<open>Stop\<close> after the loop has ended; the error of closing the file comes last.\<close>

datatype stop_error = CaptureError capture_error | CloseError

definition Stop :: "bool \<Rightarrow> bool \<Rightarrow> int \<Rightarrow> capture \<Rightarrow> serial_capture \<times> stop_error option" where
  "Stop failed close_failed now cp =
     ((cp_meta cp)\<lparr>sc_finished := Some now, sc_state := capture_state failed cp\<rparr>,
      case cp_failure_error cp of
        Some e \<Rightarrow> Some (CaptureError e)
      | None \<Rightarrow> (case cp_write_error cp of
          Some e \<Rightarrow> Some (CaptureError e)
        | None \<Rightarrow> if close_failed then Some CloseError else None))"

datatype transcript_error = TranscriptNoJob | TranscriptNone | TranscriptUnreadable

definition SerialTranscript :: "manager \<Rightarrow> string \<Rightarrow> transcript_error + serial_capture" where
  "SerialTranscript m key = (case find_job m key of
       None \<Rightarrow> Inl TranscriptNoJob
     | Some j \<Rightarrow> (case jb_capture j of
         None \<Rightarrow> Inl TranscriptNone
       | Some c \<Rightarrow> (case Option.bind (map_of (mg_disk m) key) jd_serial of
           None \<Rightarrow> Inl TranscriptUnreadable
         | Some _ \<Rightarrow> Inr c)))"

subsection \<open>The transcript\<close>

definition capture_inv :: "string \<Rightarrow> capture \<Rightarrow> bool" where
  "capture_inv seen cp \<longleftrightarrow> 0 \<le> cp_limit cp \<and> sc_received (cp_meta cp) = int (length seen)
     \<and> sc_retained (cp_meta cp) = int (length (cp_file cp)) \<and> sc_retained (cp_meta cp) \<le> cp_limit cp
     \<and> prefix (cp_file cp) seen \<and> sc_truncated (cp_meta cp) = (sc_received (cp_meta cp) > cp_limit cp)"

definition capture_clean :: "string \<Rightarrow> capture \<Rightarrow> bool" where
  "capture_clean seen cp \<longleftrightarrow> cp_running cp \<and> cp_write_error cp = None \<and> cp_failure_error cp = None
     \<and> cp_file cp = take (nat (cp_limit cp)) seen \<and> cp_warned cp = sc_truncated (cp_meta cp)
     \<and> cp_messages cp = (if sc_truncated (cp_meta cp) then [(''warning'', limit_message (cp_limit cp))] else [])"

lemma new_capture_inv: "0 \<le> limit \<Longrightarrow> capture_inv [] (new_capture limit now) \<and> capture_clean [] (new_capture limit now)"
  by (simp add: capture_inv_def capture_clean_def new_capture_def)

text \<open>One write, in terms of what was seen before.\<close>

lemma write_same [simp]:
  "cp_limit (write_transcript res data cp) = cp_limit cp"
  "sc_received (cp_meta (write_transcript res data cp)) = sc_received (cp_meta cp)"
  "sc_truncated (cp_meta (write_transcript res data cp)) = sc_truncated (cp_meta cp)"
  "cp_running (write_transcript res data cp) = cp_running cp" "cp_warned (write_transcript res data cp) = cp_warned cp"
  "cp_messages (write_transcript res data cp) = cp_messages cp"
  "cp_failure_error (write_transcript res data cp) = cp_failure_error cp"
  by (simp_all add: write_transcript_def Let_def)

lemma write_effect:
  assumes "0 \<le> cp_limit cp" "sc_retained (cp_meta cp) = int (length (cp_file cp))"
    "cp_file cp = take (nat (cp_limit cp)) seen" "cp_write_error cp = None"
  shows "(let cp' = write_transcript res data cp in
    sc_retained (cp_meta cp') = int (length (cp_file cp')) \<and> length (cp_file cp') \<le> nat (cp_limit cp)
    \<and> prefix (cp_file cp') (seen @ data)
    \<and> (cp_write_error cp' = None \<longrightarrow> cp_file cp' = take (nat (cp_limit cp)) (seen @ data))
    \<and> (length data \<le> fst res \<and> \<not> snd res \<longrightarrow> cp_write_error cp' = None))"
proof (cases "cp_limit cp \<le> int (length seen)")
  case True
  then have n: "nat (cp_limit cp) \<le> length seen" using assms(1) by simp
  then have "sc_retained (cp_meta cp) = cp_limit cp" using assms by simp
  then have "write_transcript res data cp = cp" by (simp add: write_transcript_def)
  with n show ?thesis using assms(2-4) by (simp add: Let_def take_is_prefix prefix_prefix)
next
  case False
  then have lt: "length seen < nat (cp_limit cp)" by simp
  then have r: "sc_retained (cp_meta cp) = int (length seen)" "cp_file cp = seen" using assms by simp_all
  define w where "w = take (nat (cp_limit cp) - length seen) data"
  define n where "n = min (fst res) (length w)"
  have w: "(if int (length data) > cp_limit cp - int (length seen) then take (nat (cp_limit cp - int (length seen))) data else data) = w"
    using False by (auto simp: nat_diff_distrib' w_def)
  have cp': "write_transcript res data cp = cp\<lparr>cp_file := seen @ take n w,
      cp_meta := (cp_meta cp)\<lparr>sc_retained := int (length seen) + int n\<rparr>,
      cp_write_error := (if snd res then Some TranscriptWrite else if n \<noteq> length w then Some ShortTranscriptWrite else None)\<rparr>"
    unfolding write_transcript_def Let_def r w n_def [symmetric] using False assms(4) by simp
  have "prefix (seen @ take n w) (seen @ data)"
    unfolding w_def using prefix_order.trans [OF take_is_prefix take_is_prefix] by simp
  moreover have "seen @ w = take (nat (cp_limit cp)) (seen @ data)" unfolding w_def using lt by simp
  moreover have nw: "n \<le> length w" unfolding n_def by simp
  have "length w \<le> nat (cp_limit cp) - length seen" by (simp add: w_def)
  with nw have "length (seen @ take n w) \<le> nat (cp_limit cp)" "length (take n w) = n" using lt by simp_all
  moreover have "n = length w" if "length data \<le> fst res"
    unfolding n_def using that by (simp add: w_def)
  moreover have "cp_file (write_transcript res data cp) = seen @ take n w"
    "sc_retained (cp_meta (write_transcript res data cp)) = int (length seen) + int n"
    "cp_write_error (write_transcript res data cp) =
      (if snd res then Some TranscriptWrite else if n \<noteq> length w then Some ShortTranscriptWrite else None)"
    by (simp_all add: cp')
  ultimately show ?thesis
    unfolding Let_def by (metis (no_types, lifting) length_append of_nat_add option.distinct(1) take_all_iff order_refl)
qed

lemma chunk_step:
  assumes i: "capture_inv seen cp" and c: "capture_clean seen cp"
  shows "capture_inv (seen @ data) (capture_chunk res data cp)"
    "length data \<le> fst res \<and> \<not> snd res \<Longrightarrow> capture_clean (seen @ data) (capture_chunk res data cp)"
    "capture_clean (seen @ data) (capture_chunk res data cp) \<or> \<not> cp_running (capture_chunk res data cp)"
    "cp_limit (capture_chunk res data cp) = cp_limit cp"
proof -
  let ?cp1 = "cp\<lparr>cp_meta := (cp_meta cp)\<lparr>sc_received := sc_received (cp_meta cp) + int (length data)\<rparr>\<rparr>"
  have l: "0 \<le> cp_limit cp" "cp_file cp = take (nat (cp_limit cp)) seen" "cp_write_error cp = None" "cp_running cp"
    "cp_failure_error cp = None" "sc_received (cp_meta cp) = int (length seen)"
    "sc_truncated (cp_meta cp) = (cp_limit cp < int (length seen))" "cp_warned cp = sc_truncated (cp_meta cp)"
    "cp_messages cp = (if sc_truncated (cp_meta cp) then [(''warning'', limit_message (cp_limit cp))] else [])"
    "sc_retained (cp_meta cp) = int (length (cp_file cp))"
    using i c by (simp_all add: capture_inv_def capture_clean_def)
  define cp2 where "cp2 = write_transcript res data ?cp1"
  have e: "sc_retained (cp_meta cp2) = int (length (cp_file cp2))" "length (cp_file cp2) \<le> nat (cp_limit cp)"
    "prefix (cp_file cp2) (seen @ data)" "cp_write_error cp2 = None \<Longrightarrow> cp_file cp2 = take (nat (cp_limit cp)) (seen @ data)"
    "length data \<le> fst res \<and> \<not> snd res \<Longrightarrow> cp_write_error cp2 = None"
    using write_effect [of ?cp1 seen res data] l by (auto simp: Let_def cp2_def)
  have s: "cp_limit cp2 = cp_limit cp" "sc_received (cp_meta cp2) = int (length (seen @ data))"
    "sc_truncated (cp_meta cp2) = (cp_limit cp < int (length seen))" "cp_running cp2"
    "cp_warned cp2 = (cp_limit cp < int (length seen))" "cp_failure_error cp2 = None"
    "cp_messages cp2 = (if cp_limit cp < int (length seen) then [(''warning'', limit_message (cp_limit cp))] else [])"
    using l by (simp_all add: cp2_def)
  have ch: "capture_chunk res data cp = (let cp3 = (if int (length (seen @ data)) > cp_limit cp
        then cp2\<lparr>cp_meta := (cp_meta cp2)\<lparr>sc_truncated := True\<rparr>\<rparr> else cp2) in
      case cp_write_error cp2 of
        Some e \<Rightarrow> (fail_capture e cp3)\<lparr>cp_running := False\<rparr>
      | None \<Rightarrow> if sc_truncated (cp_meta cp3) \<and> \<not> cp_warned cp3
          then cp3\<lparr>cp_warned := True, cp_messages := cp_messages cp3 @ [(''warning'', limit_message (cp_limit cp))]\<rparr>
          else cp3)"
    unfolding capture_chunk_def Let_def cp2_def [symmetric] using s by (simp split: option.split)
  have len: "int (length (cp_file cp2)) \<le> cp_limit cp" using e(2) l(1) by linarith
  show "capture_inv (seen @ data) (capture_chunk res data cp)"
    unfolding ch using e s len l(1)
    by (auto simp: Let_def capture_inv_def fail_capture_def split: option.split)
  show clean: "capture_clean (seen @ data) (capture_chunk res data cp)" if "length data \<le> fst res \<and> \<not> snd res"
    unfolding ch using e(4,5) s that by (auto simp: Let_def capture_clean_def)
  show "capture_clean (seen @ data) (capture_chunk res data cp) \<or> \<not> cp_running (capture_chunk res data cp)"
    unfolding ch using e(4) s by (cases "cp_write_error cp2") (auto simp: Let_def capture_clean_def fail_capture_def)
  show "cp_limit (capture_chunk res data cp) = cp_limit cp"
    unfolding ch using s by (simp add: Let_def fail_capture_def split: option.split)
qed

lemma stopped_stays: "\<not> cp_running cp \<Longrightarrow> capture_run sels cp = cp"
  unfolding capture_run_def by (induction sels) (simp_all add: capture_turn_def)

definition chunk_turns :: "(write_result \<times> string) list \<Rightarrow> selected list" where
  "chunk_turns cs = map (\<lambda>(res, data). ChunkSelected res data) cs"

lemma capture_chunks:
  assumes "capture_inv seen cp" "capture_clean seen cp"
  shows "let cp' = capture_run (chunk_turns cs) cp in
    (\<exists>seen'. prefix seen' (seen @ concat (map snd cs)) \<and> capture_inv seen' cp' \<and> cp_limit cp' = cp_limit cp)
    \<and> ((\<forall>(res, data) \<in> set cs. length data \<le> fst res \<and> \<not> snd res) \<longrightarrow>
        capture_inv (seen @ concat (map snd cs)) cp' \<and> capture_clean (seen @ concat (map snd cs)) cp')"
  using assms
proof (induction cs arbitrary: seen cp)
  case Nil
  then show ?case by (auto simp: chunk_turns_def capture_run_def)
next
  case (Cons c cs)
  obtain res data where c: "c = (res, data)" by (cases c)
  let ?n = "capture_chunk res data cp"
  have run: "capture_run (chunk_turns (c # cs)) cp = capture_run (chunk_turns cs) ?n"
    using Cons.prems(2) by (simp add: capture_run_def chunk_turns_def c capture_turn_def capture_clean_def)
  note st = chunk_step [OF Cons.prems, where data = data and res = res]
  show ?case
  proof (cases "cp_running ?n")
    case True
    with st(3) have "capture_clean (seen @ data) ?n" by blast
    note ih = Cons.IH [OF st(1) this, unfolded Let_def st(4)]
    have a: "(seen @ data) @ concat (map snd cs) = seen @ concat (map snd (c # cs))" by (simp add: c)
    show ?thesis unfolding Let_def run
    proof (intro conjI impI)
      show "\<exists>seen'. prefix seen' (seen @ concat (map snd (c # cs))) \<and> capture_inv seen' (capture_run (chunk_turns cs) ?n)
          \<and> cp_limit (capture_run (chunk_turns cs) ?n) = cp_limit cp"
        using conjunct1 [OF ih] unfolding a .
      assume "\<forall>(res, data) \<in> set (c # cs). length data \<le> fst res \<and> \<not> snd res"
      then have w: "\<forall>(res, data) \<in> set cs. length data \<le> fst res \<and> \<not> snd res" by simp
      show "capture_inv (seen @ concat (map snd (c # cs))) (capture_run (chunk_turns cs) ?n)"
        using mp [OF conjunct2 [OF ih] w] unfolding a by (rule conjunct1)
      show "capture_clean (seen @ concat (map snd (c # cs))) (capture_run (chunk_turns cs) ?n)"
        using mp [OF conjunct2 [OF ih] w] unfolding a by (rule conjunct2)
    qed
  next
    case False
    then have "\<not> capture_clean (seen @ data) ?n" by (simp add: capture_clean_def)
    with st(2) have "\<not> (length data \<le> fst res \<and> \<not> snd res)" by blast
    then have "\<not> (\<forall>(res, data) \<in> set (c # cs). length data \<le> fst res \<and> \<not> snd res)" by (auto simp: c)
    moreover have "prefix (seen @ data) (seen @ concat (map snd (c # cs)))" by (simp add: c)
    ultimately show ?thesis
      unfolding Let_def run stopped_stays [OF False] using st(1,4) by blast
  qed
qed

text \<open>C35: whatever the file system does, the transcript is a beginning of what the port sent, within
  the limit, and the record counts its bytes; when every write succeeds, it is exactly the first
  \<open>limit\<close> bytes, all received bytes are counted, truncation is reported if and only if more came than
  fits, with one warning, and a successful job's capture ends as complete or truncated accordingly.\<close>

theorem transcript_is_bounded_prefix:
  assumes "0 \<le> limit"
  shows "let cp = capture_run (chunk_turns cs) (new_capture limit now); sent = concat (map snd cs) in
    prefix (cp_file cp) sent \<and> int (length (cp_file cp)) \<le> limit
    \<and> sc_retained (cp_meta cp) = int (length (cp_file cp))
    \<and> ((\<forall>(res, data) \<in> set cs. length data \<le> fst res \<and> \<not> snd res) \<longrightarrow>
        cp_file cp = take (nat limit) sent \<and> sc_received (cp_meta cp) = int (length sent)
        \<and> cp_messages cp = (if int (length sent) > limit then [(''warning'', limit_message limit)] else [])
        \<and> Stop False False end_time cp = ((cp_meta cp)\<lparr>sc_finished := Some end_time,
            sc_state := (if int (length sent) > limit then ''truncated'' else ''complete'')\<rparr>, None))"
proof -
  let ?cp = "capture_run (chunk_turns cs) (new_capture limit now)" and ?sent = "concat (map snd cs)"
  have lim: "cp_limit (new_capture limit now) = limit" by (simp add: new_capture_def)
  note r = capture_chunks [of "[]" "new_capture limit now" cs, simplified, unfolded lim Let_def]
  from r new_capture_inv [OF assms] obtain seen where s: "prefix seen ?sent" "capture_inv seen ?cp" "cp_limit ?cp = limit"
    by blast
  have "capture_clean ?sent ?cp \<and> capture_inv ?sent ?cp" if "\<forall>(res, data) \<in> set cs. length data \<le> fst res \<and> \<not> snd res"
    using r new_capture_inv [OF assms] that by blast
  then have "cp_file ?cp = take (nat limit) ?sent \<and> sc_received (cp_meta ?cp) = int (length ?sent)
        \<and> cp_messages ?cp = (if int (length ?sent) > limit then [(''warning'', limit_message limit)] else [])
        \<and> Stop False False end_time ?cp = ((cp_meta ?cp)\<lparr>sc_finished := Some end_time,
            sc_state := (if int (length ?sent) > limit then ''truncated'' else ''complete'')\<rparr>, None)"
    if "\<forall>(res, data) \<in> set cs. length data \<le> fst res \<and> \<not> snd res"
    using that s(3) by (simp add: capture_clean_def capture_inv_def Stop_def capture_state_def)
  moreover have "prefix (cp_file ?cp) ?sent" "int (length (cp_file ?cp)) \<le> limit"
    "sc_retained (cp_meta ?cp) = int (length (cp_file ?cp))"
    using s prefix_order.trans by (auto simp: capture_inv_def)
  ultimately show ?thesis unfolding Let_def by blast
qed

lemma transcript_is_bounded_prefix_witness:
  "cp_file (capture_run (chunk_turns [((9, False), ''abc''), ((9, False), ''def'')]) (new_capture 4 0)) = ''abcd''"
  using transcript_is_bounded_prefix [of 4 "[((9, False), ''abc''), ((9, False), ''def'')]" 0 0]
  by (simp add: Let_def)

end
