(* ===== verification/Net.thy ===== *)
theory Net
  imports Prelude
begin

text \<open>
  The parts of the Go library's \<open>net\<close> and \<open>strings\<close> packages that the validators and the HTTP
  interface rest on: \<open>net.ParseIP\<close> (dotted IPv4 and IPv6 with one ellipsis), \<open>To4\<close>,
  \<open>IsLoopback\<close> and the other address classes, \<open>net.SplitHostPort\<close>, \<open>strings.TrimSpace\<close>,
  \<open>strings.Trim\<close>, \<open>hex.DecodeString\<close> and \<open>utf8.Valid\<close>.  An address is the list of its sixteen
  bytes, an IPv4 address the mapped form, as in Go.
\<close>

subsection \<open>Trimming\<close>

text \<open>The UTF-8 encodings of the runes for which \<open>unicode.IsSpace\<close> holds.\<close>

definition space_runes :: "nat list list" where
  "space_runes = [[9], [10], [11], [12], [13], [32], [0xC2, 0x85], [0xC2, 0xA0], [0xE1, 0x9A, 0x80]]
     @ map (\<lambda>b. [0xE2, 0x80, b]) [0x80 ..< 0x8B] @ [[0xE2, 0x80, 0xA8], [0xE2, 0x80, 0xA9],
     [0xE2, 0x80, 0xAF], [0xE2, 0x81, 0x9F], [0xE3, 0x80, 0x80]]"

definition space_strings :: "string list" where
  "space_strings = map (map char_of) space_runes"

fun strip_left :: "string list \<Rightarrow> nat \<Rightarrow> string \<Rightarrow> string" where
  "strip_left rs 0 s = s"
| "strip_left rs (Suc n) s = (case find (\<lambda>r. prefix r s) rs of
       None \<Rightarrow> s | Some r \<Rightarrow> strip_left rs n (drop (length r) s))"

definition trim_left :: "string \<Rightarrow> string" where
  "trim_left s = strip_left space_strings (length s) s"

definition trim_right :: "string \<Rightarrow> string" where
  "trim_right s = rev (strip_left (map rev space_strings) (length s) (rev s))"

definition TrimSpace :: "string \<Rightarrow> string" where
  "TrimSpace s = trim_right (trim_left s)"

definition trim_set :: "string \<Rightarrow> string \<Rightarrow> string" where
  "trim_set chars s = rev (dropWhile (\<lambda>c. c \<in> set chars) (rev (dropWhile (\<lambda>c. c \<in> set chars) s)))"

definition trim_prefix :: "string \<Rightarrow> string \<Rightarrow> string" where
  "trim_prefix p s = (if prefix p s then drop (length p) s else s)"

definition trim_suffix :: "string \<Rightarrow> string \<Rightarrow> string" where
  "trim_suffix p s = (if suffix p s then take (length s - length p) s else s)"

definition line_break_chars :: string where
  "line_break_chars = [CHR 0x0D, CHR 0x0A, CHR 0x00]"

definition contains_any :: "string \<Rightarrow> string \<Rightarrow> bool" where
  "contains_any cs s \<longleftrightarrow> list_ex (\<lambda>c. c \<in> set cs) s"

text \<open>\<open>strings.Contains\<close> and \<open>bytes.Contains\<close>\<close>

definition bytes_contain :: "string \<Rightarrow> string \<Rightarrow> bool" where
  "bytes_contain s t = list_ex (prefix t) (suffixes s)"

lemma strip_left_set: "set (strip_left rs n s) \<subseteq> set s"
proof (induction rs n s rule: strip_left.induct)
  case (2 rs n s)
  show ?case
  proof (cases "find (\<lambda>r. prefix r s) rs")
    case (Some r)
    with 2 [OF Some] show ?thesis using set_drop_subset [of "length r" s] by auto
  qed simp
qed simp

lemma strip_left_length: "length (strip_left rs n s) \<le> length s"
proof (induction rs n s rule: strip_left.induct)
  case (2 rs n s)
  then show ?case by (fastforce split: option.split)
qed simp

lemma strip_left_none: "(\<And>r. r \<in> set rs \<Longrightarrow> \<not> prefix r s) \<Longrightarrow> strip_left rs n s = s"
  by (cases n) (auto split: option.split simp: find_Some_iff)

lemma set_trim: "set (TrimSpace s) \<subseteq> set s"
  unfolding TrimSpace_def trim_right_def trim_left_def set_rev
  by (rule order_trans [OF strip_left_set]) (simp add: strip_left_set)

lemma prefix_trim_prefix: "trim_prefix p (p @ s) = s"
  by (simp add: trim_prefix_def)

text \<open>The first byte of a space, and the last one, are never those of a printable ASCII character.\<close>

definition printable :: "char \<Rightarrow> bool" where
  "printable c \<longleftrightarrow> 32 < (of_char c :: nat) \<and> (of_char c :: nat) < 127"

lemma space_edges: "r \<in> set space_strings \<Longrightarrow> r \<noteq> [] \<and> \<not> printable (hd r) \<and> \<not> printable (last r)"
  by (auto simp: space_strings_def space_runes_def printable_def upt_rec)

lemma TrimSpace_id:
  assumes "s \<noteq> [] \<Longrightarrow> printable (hd s) \<and> printable (last s)"
  shows "TrimSpace s = s"
proof (cases "s = []")
  case True
  then show ?thesis by (simp add: TrimSpace_def trim_left_def trim_right_def)
next
  case False
  with assms have e: "printable (hd s)" "printable (hd (rev s))" by (auto simp: hd_rev)
  have "\<not> prefix r s" if r: "r \<in> set space_strings" for r
    using space_edges [OF r] e(1) by (cases r) (auto simp: prefix_def)
  then have "trim_left s = s" unfolding trim_left_def by (rule strip_left_none)
  moreover have "\<not> prefix r (rev s)" if "r \<in> set (map rev space_strings)" for r
  proof -
    from that obtain q where q: "q \<in> set space_strings" "r = rev q" unfolding set_map by blast
    then have "r \<noteq> []" "\<not> printable (hd r)" using space_edges [OF q(1)] by (simp_all add: hd_rev)
    with e(2) show ?thesis by (cases r) (auto simp: prefix_def)
  qed
  then have "trim_right s = s" unfolding trim_right_def using strip_left_none [of "map rev space_strings" "rev s"] by simp
  ultimately show ?thesis by (simp add: TrimSpace_def)
qed

subsection \<open>IP addresses\<close>

type_synonym ip = "nat list"

text \<open>\<open>parseIPv4Fields\<close>: four decimal octets without leading zeros.\<close>

definition parse_octet :: "string \<Rightarrow> nat option" where
  "parse_octet f = (if f = [] \<or> \<not> list_all is_digit f \<or> (length f > 1 \<and> hd f = CHR ''0'') then None
     else Option.bind (parse_digits 0 f) (\<lambda>v. if v > 255 then None else Some v))"

fun all_some :: "'a option list \<Rightarrow> 'a list option" where
  "all_some [] = Some []"
| "all_some (x # xs) = Option.bind x (\<lambda>a. map_option (Cons a) (all_some xs))"

definition parse_ipv4 :: "string \<Rightarrow> ip option" where
  "parse_ipv4 s = Option.bind (all_some (map parse_octet (split_on CHR ''.'' s)))
     (\<lambda>bs. if length bs = 4 then Some bs else None)"

definition hex_value :: "char \<Rightarrow> nat option" where
  "hex_value c = (let n = of_char c in
     if 48 \<le> n \<and> n \<le> 57 then Some (n - 48)
     else if 97 \<le> n \<and> n \<le> 102 then Some (n - 87)
     else if 65 \<le> n \<and> n \<le> 70 then Some (n - 55) else None)"

text \<open>A group of hexadecimal digits: its value, the number of digits and the rest.\<close>

fun hex_group :: "nat \<Rightarrow> nat \<Rightarrow> string \<Rightarrow> nat \<times> nat \<times> string" where
  "hex_group acc n [] = (acc, n, [])"
| "hex_group acc n (c # cs) = (case hex_value c of
       None \<Rightarrow> (acc, n, c # cs)
     | Some v \<Rightarrow> hex_group (16 * acc + v) (Suc n) cs)"

text \<open>The loop of \<open>parseIPv6\<close>, with the bytes so far and the position of the ellipsis; the fuel is
  the number of groups that still fit.\<close>

fun ipv6_loop :: "nat \<Rightarrow> ip \<Rightarrow> nat option \<Rightarrow> string \<Rightarrow> (ip \<times> nat option \<times> string) option" where
  "ipv6_loop 0 bs e s = Some (bs, e, s)"
| "ipv6_loop (Suc fuel) bs e s = (let (acc, n, rest) = hex_group 0 0 s in
     if n = 0 \<or> n > 4 then None
     else if rest \<noteq> [] \<and> hd rest = CHR ''.''
     then (if (e = None \<and> length bs \<noteq> 12) \<or> length bs + 4 > 16 then None
           else map_option (\<lambda>v4. (bs @ v4, e, [])) (parse_ipv4 s))
     else (let bs' = bs @ [acc div 256, acc mod 256] in
       case rest of
         [] \<Rightarrow> Some (bs', e, [])
       | c # cs \<Rightarrow>
           if c \<noteq> CHR '':'' \<or> cs = [] then None
           else if hd cs = CHR '':''
           then (if e \<noteq> None then None
                 else if tl cs = [] then Some (bs', Some (length bs'), [])
                 else ipv6_loop fuel bs' (Some (length bs')) (tl cs))
           else ipv6_loop fuel bs' e cs))"

definition expand_ellipsis :: "ip \<Rightarrow> nat option \<Rightarrow> ip option" where
  "expand_ellipsis bs e = (if length bs < 16
     then map_option (\<lambda>k. take k bs @ replicate (16 - length bs) 0 @ drop k bs) e
     else if e \<noteq> None then None else Some bs)"

definition parse_ipv6 :: "string \<Rightarrow> ip option" where
  "parse_ipv6 s = (if CHR ''%'' \<in> set s then None
     else if prefix ''::'' s
     then (if drop 2 s = [] then Some (replicate 16 0)
           else Option.bind (ipv6_loop 8 [] (Some 0) (drop 2 s))
             (\<lambda>(bs, e, rest). if rest \<noteq> [] then None else expand_ellipsis bs e))
     else Option.bind (ipv6_loop 8 [] None s)
       (\<lambda>(bs, e, rest). if rest \<noteq> [] then None else expand_ellipsis bs e))"

definition v4_prefix :: ip where "v4_prefix = replicate 10 0 @ [255, 255]"

definition ParseIP :: "string \<Rightarrow> ip option" where
  "ParseIP s = (case find (\<lambda>c. c = CHR ''.'' \<or> c = CHR '':'' \<or> c = CHR ''%'') s of
       None \<Rightarrow> None
     | Some c \<Rightarrow> if c = CHR ''.'' then map_option (\<lambda>v4. v4_prefix @ v4) (parse_ipv4 s)
         else if c = CHR '':'' then parse_ipv6 s else None)"

definition To4 :: "ip \<Rightarrow> ip option" where
  "To4 a = (if length a = 4 then Some a
     else if length a = 16 \<and> take 12 a = v4_prefix then Some (drop 12 a) else None)"

definition IsLoopback :: "ip \<Rightarrow> bool" where
  "IsLoopback a \<longleftrightarrow> (case To4 a of Some v4 \<Rightarrow> v4 ! 0 = 127 | None \<Rightarrow> a = replicate 15 0 @ [1])"

definition ipv4_string :: "ip \<Rightarrow> string" where
  "ipv4_string v4 = join_with CHR ''.'' (map show_nat v4)"

text \<open>\<open>IsGlobalUnicast\<close> of an IPv4 address: not the broadcast address, unspecified, loopback,
  multicast or link-local.\<close>

definition global_unicast4 :: "ip \<Rightarrow> bool" where
  "global_unicast4 v4 \<longleftrightarrow> v4 \<noteq> [255, 255, 255, 255] \<and> v4 \<noteq> [0, 0, 0, 0] \<and> v4 ! 0 \<noteq> 127
     \<and> \<not> (224 \<le> v4 ! 0 \<and> v4 ! 0 \<le> 239) \<and> \<not> (v4 ! 0 = 169 \<and> v4 ! 1 = 254)"

subsection \<open>Host and port\<close>

definition index_of :: "char \<Rightarrow> string \<Rightarrow> nat option" where
  "index_of c s = (let n = length (takeWhile (\<lambda>x. x \<noteq> c) s) in if n < length s then Some n else None)"

definition last_index_of :: "char \<Rightarrow> string \<Rightarrow> nat option" where
  "last_index_of c s = map_option (\<lambda>n. length s - 1 - n) (index_of c (rev s))"

definition SplitHostPort :: "string \<Rightarrow> (string \<times> string) option" where
  "SplitHostPort hp = (case last_index_of CHR '':'' hp of
       None \<Rightarrow> None
     | Some i \<Rightarrow>
         if hd hp = CHR ''[''
         then (case index_of CHR '']'' hp of
             None \<Rightarrow> None
           | Some close \<Rightarrow>
               if close + 1 \<noteq> i then None
               else if CHR ''['' \<in> set (drop 1 hp) \<or> CHR '']'' \<in> set (drop (close + 1) hp) then None
               else Some (take (close - 1) (drop 1 hp), drop (i + 1) hp))
         else if CHR '':'' \<in> set (take i hp) \<or> CHR ''['' \<in> set hp \<or> CHR '']'' \<in> set hp then None
         else Some (take i hp, drop (i + 1) hp))"

lemma SplitHostPort_join:
  assumes "h \<noteq> []" "CHR '':'' \<notin> set h" "CHR ''['' \<notin> set h" "CHR '']'' \<notin> set h"
    "CHR '':'' \<notin> set p" "CHR ''['' \<notin> set p" "CHR '']'' \<notin> set p"
  shows "SplitHostPort (h @ CHR '':'' # p) = Some (h, p)"
proof -
  have "takeWhile (\<lambda>x. x \<noteq> CHR '':'') (rev (h @ CHR '':'' # p)) = rev p"
    using assms(5) by (auto simp: takeWhile_append)
  then have "last_index_of CHR '':'' (h @ CHR '':'' # p) = Some (length h)"
    by (simp add: last_index_of_def index_of_def Let_def)
  moreover have "hd (h @ CHR '':'' # p) \<noteq> CHR ''[''"
    using assms(1,3) by (cases h) auto
  ultimately show ?thesis using assms by (simp add: SplitHostPort_def)
qed

subsection \<open>Hexadecimal and UTF-8\<close>

fun hex_decode :: "string \<Rightarrow> string option" where
  "hex_decode [] = Some []"
| "hex_decode [c] = None"
| "hex_decode (a # b # cs) = (case (hex_value a, hex_value b) of
       (Some x, Some y) \<Rightarrow> map_option (Cons (char_of (16 * x + y))) (hex_decode cs)
     | _ \<Rightarrow> None)"

definition hex_char :: "nat \<Rightarrow> char" where
  "hex_char n = char_of (if n < 10 then 48 + n else 87 + n)"

definition hex_encode :: "string \<Rightarrow> string" where
  "hex_encode s = concat (map (\<lambda>c. [hex_char (of_char c div 16), hex_char (of_char c mod 16)]) s)"

lemma hex_value_char: "n < 16 \<Longrightarrow> hex_value (hex_char n) = Some n"
  by (auto simp: hex_value_def hex_char_def Let_def)

lemma nibble: "(of_char c :: nat) div 16 < 16"
proof -
  have "(of_char c :: nat) < 256" by (rule nat_of_char_less_256)
  then show ?thesis by linarith
qed

lemma hex_decode_encode: "hex_decode (hex_encode s) = Some s"
proof (induction s)
  case (Cons c s)
  then show ?case
    using nibble [of c] by (simp add: hex_encode_def hex_value_char)
qed (simp add: hex_encode_def)

lemma hex_char_printable: "n < 16 \<Longrightarrow> printable (hex_char n)"
  by (auto simp: printable_def hex_char_def)

lemma hex_encode_printable: "c \<in> set (hex_encode s) \<Longrightarrow> printable c"
  using nibble by (auto simp: hex_encode_def hex_char_printable)

end
