(* ===== verification/Http.thy ===== *)
theory Http
  imports Net Manifest JobModel
begin

text \<open>
  What every handler of the HTTP interface shares (\<open>internal/httpapi/server.go\<close>,
  \<open>internal/httpapi/network.go\<close>): requests and responses, the routes with the ones that need a token,
  \<open>authorize\<close>, \<open>isDirectLoopbackRequest\<close>, \<open>decodeJSON\<close>, \<open>parseAfter\<close> and the list of addresses the
  station reports.  The HTTP server of the Go library is outside: a request arrives parsed, with its
  path as clean segments.  \<open>parse\<close> is the lexing of a whole JSON text, as in \<open>Manifest\<close>.
\<close>

subsection \<open>Requests and routes\<close>

record http_request =
  hr_method :: string
  hr_path :: "string list" \<comment> \<open>the segments after the leading slash\<close>
  hr_remote :: string
  hr_host :: string
  hr_authorization :: string
  hr_accept :: string
  hr_after :: string
  hr_limit :: "string list option"
  hr_url :: string \<comment> \<open>the query \<open>hwServerUrl\<close>\<close>
  hr_body :: "byte list"
  hr_body_fault :: bool

datatype segment = Lit string | PathID

datatype endpoint = Health | CapabilitiesE | StorageE | CleanupE | ListArtifacts | ImportArtifact | GetArtifact
  | XilinxTargets | SerialPorts | CreateSession | DeleteSession | StreamSession | GetSubmission
  | ListJobs | CreateJob | GetJob | CancelJob | JobEvents | JobTranscript | WebUI

definition api :: "string list \<Rightarrow> segment list" where
  "api names = map Lit ([''api'', ''v1''] @ names)"

text \<open>The table of \<open>New\<close>: method, path, whether it is wrapped in \<open>authorize\<close>, handler.\<close>

definition routes :: "(string \<times> segment list \<times> bool \<times> endpoint) list" where
  "routes = [(''GET'', api [''health''], False, Health),
     (''GET'', api [''capabilities''], True, CapabilitiesE),
     (''GET'', api [''storage''], True, StorageE),
     (''POST'', api [''storage'', ''cleanup''], True, CleanupE),
     (''GET'', api [''artifacts''], True, ListArtifacts),
     (''POST'', api [''artifacts''], True, ImportArtifact),
     (''GET'', api [''artifacts''] @ [PathID], True, GetArtifact),
     (''GET'', api [''xilinx'', ''targets''], True, XilinxTargets),
     (''GET'', api [''serial'', ''ports''], True, SerialPorts),
     (''POST'', api [''serial'', ''sessions''], True, CreateSession),
     (''DELETE'', api [''serial'', ''sessions''] @ [PathID], True, DeleteSession),
     (''GET'', api [''serial'', ''sessions''] @ [PathID, Lit ''stream''], False, StreamSession),
     (''GET'', api [''submissions''] @ [PathID], True, GetSubmission),
     (''GET'', api [''jobs''], True, ListJobs),
     (''POST'', api [''jobs''], True, CreateJob),
     (''GET'', api [''jobs''] @ [PathID], True, GetJob),
     (''POST'', api [''jobs''] @ [PathID, Lit ''cancel''], True, CancelJob),
     (''GET'', api [''jobs''] @ [PathID, Lit ''events''], True, JobEvents),
     (''GET'', api [''jobs''] @ [PathID, Lit ''serial-transcript''], True, JobTranscript)]"

fun match_path :: "segment list \<Rightarrow> string list \<Rightarrow> bool" where
  "match_path [] [] = True"
| "match_path (Lit l # ss) (p # ps) = (l = p \<and> match_path ss ps)"
| "match_path (PathID # ss) (p # ps) = (p \<noteq> [] \<and> match_path ss ps)"
| "match_path _ _ = False"

text \<open>A \<open>GET\<close> pattern also matches \<open>HEAD\<close>; what no pattern matches goes to the web pages.\<close>

definition match_method :: "string \<Rightarrow> string \<Rightarrow> bool" where
  "match_method pattern m \<longleftrightarrow> m = pattern \<or> (pattern = ''GET'' \<and> m = ''HEAD'')"

definition route :: "http_request \<Rightarrow> bool \<times> endpoint" where
  "route r = (case find (\<lambda>(m, ss, a, e). match_method m (hr_method r) \<and> match_path ss (hr_path r)) routes of
       None \<Rightarrow> (False, WebUI)
     | Some (_, _, a, e) \<Rightarrow> (a, e))"

text \<open>\<open>PathValue("id")\<close>: the segment under the wildcard.\<close>

definition path_value :: "http_request \<Rightarrow> string" where
  "path_value r = (case drop 2 (hr_path r) of
       [_, key] \<Rightarrow> key
     | [a, b, c] \<Rightarrow> if a = ''serial'' then c else b
     | _ # _ # key # _ \<Rightarrow> key
     | _ \<Rightarrow> [])"

subsection \<open>Responses\<close>

record 'p response =
  rs_status :: nat
  rs_headers :: "(string \<times> string) list"
  rs_body :: "string + 'p" \<comment> \<open>an error code, or the payload\<close>

definition json_header :: "string \<times> string" where
  "json_header = (''Content-Type'', ''application/json'')"

definition writeJSON :: "nat \<Rightarrow> 'p \<Rightarrow> 'p response" where
  "writeJSON status value = \<lparr>rs_status = status, rs_headers = [json_header], rs_body = Inr value\<rparr>"

definition writeError :: "nat \<Rightarrow> string \<Rightarrow> 'p response" where
  "writeError status code = \<lparr>rs_status = status, rs_headers = [json_header], rs_body = Inl code\<rparr>"

definition add_header :: "string \<Rightarrow> string \<Rightarrow> 'p response \<Rightarrow> 'p response" where
  "add_header name value rs = rs\<lparr>rs_headers := (name, value) # rs_headers rs\<rparr>"

definition securityHeaders :: "'p response \<Rightarrow> 'p response" where
  "securityHeaders rs = add_header ''X-Content-Type-Options'' ''nosniff'' (add_header ''Referrer-Policy'' ''no-referrer'' rs)"

subsection \<open>Authorization\<close>

definition host_of :: "string \<Rightarrow> string" where
  "host_of address = (case SplitHostPort address of Some (h, _) \<Rightarrow> h | None \<Rightarrow> address)"

definition loopback_host :: "string \<Rightarrow> bool" where
  "loopback_host address = (case ParseIP (trim_set ''[]'' (host_of address)) of
       None \<Rightarrow> False | Some a \<Rightarrow> IsLoopback a)"

definition isDirectLoopbackRequest :: "http_request \<Rightarrow> bool" where
  "isDirectLoopbackRequest r = (loopback_host (hr_remote r) \<and> loopback_host (hr_host r))"

definition bearer_ok :: "string \<Rightarrow> http_request \<Rightarrow> bool" where
  "bearer_ok token r = (let value = hr_authorization r; provided = trim_prefix ''Bearer '' value in
     prefix ''Bearer '' value \<and> length provided = length token \<and> provided = token)"

text \<open>\<open>authorize\<close>: the response instead of the handler's, if the request is refused.\<close>

definition authorize :: "string \<Rightarrow> http_request \<Rightarrow> 'p response option" where
  "authorize token r = (if token = [] \<or> isDirectLoopbackRequest r \<or> bearer_ok token r then None
     else Some (add_header ''WWW-Authenticate'' ''Bearer'' (writeError 401 ''unauthorized'')))"

subsection \<open>Bodies and queries\<close>

definition maximumJSONBytes :: int where "maximumJSONBytes = 64 * 2 ^ 10"

datatype decode_failure = BodyUnreadable | BodyTooLarge | BodyMalformed

definition decodeJSON :: "(byte list \<Rightarrow> json option) \<Rightarrow> (json \<Rightarrow> 'a option) \<Rightarrow> http_request \<Rightarrow> decode_failure + 'a" where
  "decodeJSON parse decode r =
     (if hr_body_fault r then Inl BodyUnreadable
      else if int (length (hr_body r)) > maximumJSONBytes then Inl BodyTooLarge
      else (case Option.bind (parse (hr_body r)) decode of None \<Rightarrow> Inl BodyMalformed | Some v \<Rightarrow> Inr v))"

definition parseAfter :: "string \<Rightarrow> int option" where
  "parseAfter value = (if value = [] then Some 0
     else (case atoi value of None \<Rightarrow> None | Some n \<Rightarrow> if n < 0 then None else Some n))"

text \<open>The \<open>limit\<close> of \<open>jobEvents\<close>: none given is 0, for no limit.\<close>

definition parse_limit :: "string list option \<Rightarrow> nat option" where
  "parse_limit values = (case values of
       None \<Rightarrow> Some 0
     | Some [v] \<Rightarrow> (case atoi v of None \<Rightarrow> None | Some n \<Rightarrow> if n < 1 \<or> n > 1000 then None else Some (nat n))
     | Some _ \<Rightarrow> None)"

definition serial_request_fields :: "serial_request fields" where
  "serial_request_fields =
     [(''portId'', \<lambda>v r. map_option (\<lambda>s. r\<lparr>sr_port := s\<rparr>) (decode_string v (sr_port r))),
      (''baudRate'', \<lambda>v r. map_option (\<lambda>n. r\<lparr>sr_baud := n\<rparr>) (decode_int v (sr_baud r))),
      (''selection'', \<lambda>v r. map_option (\<lambda>s. r\<lparr>sr_selection := s\<rparr>) (decode_string v (sr_selection r)))]"

definition decode_serial :: "json \<Rightarrow> serial_request option \<Rightarrow> serial_request option option" where
  "decode_serial v old = (if v = JNull then Some None
     else map_option Some (decode_struct serial_request_fields v
       (case old of Some s \<Rightarrow> s | None \<Rightarrow> \<lparr>sr_port = [], sr_baud = 0, sr_selection = []\<rparr>)))"

text \<open>\<open>plan_of\<close> decodes the task plan, whose parameters are values of any type.\<close>

definition request_fields :: "(json \<Rightarrow> plan option \<Rightarrow> plan option option) \<Rightarrow> request fields" where
  "request_fields plan_of =
     [(''requestId'', \<lambda>v r. map_option (\<lambda>s. r\<lparr>rq_id := s\<rparr>) (decode_string v (rq_id r))),
      (''deploymentTasks'', \<lambda>v r. map_option (\<lambda>p. r\<lparr>rq_tasks := p\<rparr>) (plan_of v (rq_tasks r))),
      (''artifactId'', \<lambda>v r. map_option (\<lambda>s. r\<lparr>rq_artifact := s\<rparr>) (decode_string v (rq_artifact r))),
      (''hwServerUrl'', \<lambda>v r. map_option (\<lambda>s. r\<lparr>rq_hw_server := s\<rparr>) (decode_string v (rq_hw_server r))),
      (''tftpServerIp'', \<lambda>v r. map_option (\<lambda>s. r\<lparr>rq_tftp_ip := s\<rparr>) (decode_string v (rq_tftp_ip r))),
      (''boardIp'', \<lambda>v r. map_option (\<lambda>s. r\<lparr>rq_board_ip := s\<rparr>) (decode_string v (rq_board_ip r))),
      (''targetId'', \<lambda>v r. map_option (\<lambda>s. r\<lparr>rq_target := s\<rparr>) (decode_string v (rq_target r))),
      (''targetCableSerial'', \<lambda>v r. map_option (\<lambda>s. r\<lparr>rq_cable := s\<rparr>) (decode_string v (rq_cable r))),
      (''targetDeviceIndex'', \<lambda>v r. map_option (\<lambda>s. r\<lparr>rq_device := s\<rparr>) (decode_string v (rq_device r))),
      (''serialConsole'', \<lambda>v r. map_option (\<lambda>s. r\<lparr>rq_serial := s\<rparr>) (decode_serial v (rq_serial r)))]"

definition zero_request :: request where
  "zero_request = \<lparr>rq_id = [], rq_tasks = None, rq_artifact = [], rq_hw_server = [], rq_tftp_ip = [], rq_board_ip = [],
     rq_target = [], rq_cable = [], rq_device = [], rq_serial = None\<rparr>"

definition decode_request :: "(json \<Rightarrow> plan option \<Rightarrow> plan option option) \<Rightarrow> json \<Rightarrow> request option" where
  "decode_request plan_of v = decode_struct (request_fields plan_of) v zero_request"

subsection \<open>The addresses of the station\<close>

record net_interface =
  ni_name :: string
  ni_up :: bool
  ni_loopback :: bool
  ni_addresses :: "ip list option"

definition append_ip :: "string \<Rightarrow> ip \<Rightarrow> (string \<times> string) list \<Rightarrow> (string \<times> string) list" where
  "append_ip name a found = (case To4 a of
       None \<Rightarrow> found
     | Some v4 \<Rightarrow>
         if v4 = [0, 0, 0, 0] \<or> v4 ! 0 = 127 \<or> \<not> global_unicast4 v4 then found
         else if ipv4_string v4 \<in> set (map snd found) then found
         else found @ [(name, ipv4_string v4)])"

definition stationIPv4Interfaces :: "net_interface list option \<Rightarrow> (string \<times> string) list" where
  "stationIPv4Interfaces nis = (case nis of
       None \<Rightarrow> []
     | Some nis \<Rightarrow> fold (\<lambda>ni found.
         if \<not> ni_up ni \<or> ni_loopback ni then found
         else (case ni_addresses ni of None \<Rightarrow> found | Some as \<Rightarrow> fold (append_ip (ni_name ni)) as found)) nis [])"

lemma authorize_iff: "authorize token r = None \<longleftrightarrow>
    token = [] \<or> isDirectLoopbackRequest r \<or> hr_authorization r = ''Bearer '' @ token"
  by (auto simp: authorize_def bearer_ok_def Let_def trim_prefix_def prefix_def)

lemma route_unprotected: "route r = (False, e) \<Longrightarrow> e \<in> {Health, StreamSession, WebUI}"
  by (auto simp: route_def routes_def split: option.splits if_splits)

end
