(* ===== verification/SerialSessions.thy ===== *)
theory SerialSessions
  imports SerialConsole Http
begin

text \<open>
  The serial sessions of the HTTP interface (\<open>internal/httpapi/serial.go\<close>): a session is created with
  a one-time token, a web socket claims it within thirty seconds, and its attachment to the console
  is closed when the socket ends, the session is deleted or it expires.  The table, the console and the
  running stream handlers are one state; every lock section and every wait of a handler is a step.  The
  fields from \<open>sx_claims\<close> on are history: the claims that succeeded, what was issued, the clients that
  were attached, those whose attachment was closed, and the session ids that were given out.
\<close>

subsection \<open>The table of sessions\<close>

record session =
  se_token :: string
  se_key :: string \<comment> \<open>the port of the attachment\<close>
  se_client :: client
  se_access :: access
  se_expires :: int
  se_connected :: bool
  se_timer :: bool

datatype stream = Authenticating string | Attached string session | Ended

record sessions =
  sx_items :: "(string \<times> session) list"
  sx_console :: console
  sx_streams :: "stream list"
  sx_claims :: "(string \<times> client \<times> int) list"
  sx_issued :: "(string \<times> client \<times> int) set"
  sx_opened :: "client set"
  sx_released :: "client set"
  sx_used :: "string set"

definition serialAttachTTL :: int where "serialAttachTTL = 30 * 10 ^ 9"

definition newSerialSessions :: "console \<Rightarrow> sessions" where
  "newSerialSessions m = \<lparr>sx_items = [], sx_console = m, sx_streams = [], sx_claims = [], sx_issued = {},
     sx_opened = {}, sx_released = {}, sx_used = {}\<rparr>"

definition close_attachment :: "session \<Rightarrow> sessions \<Rightarrow> sessions" where
  "close_attachment s sx = sx\<lparr>sx_console := detach (se_key s) (se_client s) (sx_console sx),
     sx_released := insert (se_client s) (sx_released sx)\<rparr>"

definition add_session :: "string \<Rightarrow> session \<Rightarrow> sessions \<Rightarrow> sessions" where
  "add_session key s sx = sx\<lparr>sx_items := AList.update key (s\<lparr>se_timer := True\<rparr>) (sx_items sx),
     sx_issued := insert (se_token s, se_client s, se_expires s) (sx_issued sx), sx_used := insert key (sx_used sx)\<rparr>"

definition drop_session :: "string \<Rightarrow> sessions \<Rightarrow> sessions" where
  "drop_session key sx = sx\<lparr>sx_items := AList.delete key (sx_items sx)\<rparr>"

definition expire_session :: "string \<Rightarrow> int \<Rightarrow> sessions \<Rightarrow> session option \<times> sessions" where
  "expire_session key now sx = (case map_of (sx_items sx) key of
       None \<Rightarrow> (None, sx)
     | Some s \<Rightarrow> if se_connected s \<or> now < se_expires s then (None, sx) else (Some s, drop_session key sx))"

definition pending :: "string \<Rightarrow> int \<Rightarrow> sessions \<Rightarrow> bool" where
  "pending key now sx = (case map_of (sx_items sx) key of
       None \<Rightarrow> False | Some s \<Rightarrow> \<not> se_connected s \<and> now < se_expires s)"

definition claim :: "string \<Rightarrow> string \<Rightarrow> int \<Rightarrow> sessions \<Rightarrow> session option \<times> sessions" where
  "claim key token now sx = (case map_of (sx_items sx) key of
       None \<Rightarrow> (None, sx)
     | Some s \<Rightarrow>
         if se_connected s \<or> \<not> now < se_expires s \<or> length token \<noteq> length (se_token s) \<or> token \<noteq> se_token s
         then (None, sx)
         else (let s' = s\<lparr>se_connected := True, se_token := [], se_timer := False\<rparr> in
           (Some s', sx\<lparr>sx_items := AList.update key s' (sx_items sx),
              sx_claims := (token, se_client s, now) # sx_claims sx\<rparr>)))"

definition remove_session :: "string \<Rightarrow> sessions \<Rightarrow> session option \<times> sessions" where
  "remove_session key sx = (map_of (sx_items sx) key, drop_session key sx)"

definition discard :: "string \<Rightarrow> sessions \<Rightarrow> sessions" where
  "discard key sx = (case remove_session key sx of
       (Some s, sx') \<Rightarrow> close_attachment s sx' | (None, sx') \<Rightarrow> sx')"

text \<open>The function of \<open>time.AfterFunc\<close>; when it has run, the timer is spent.\<close>

definition timer_fires :: "string \<Rightarrow> int \<Rightarrow> sessions \<Rightarrow> sessions" where
  "timer_fires key now sx = (case expire_session key now sx of
       (Some s, sx') \<Rightarrow> close_attachment s sx'
     | (None, sx') \<Rightarrow> (case map_of (sx_items sx') key of
         None \<Rightarrow> sx'
       | Some s \<Rightarrow> sx'\<lparr>sx_items := AList.update key (s\<lparr>se_timer := False\<rparr>) (sx_items sx')\<rparr>))"

subsection \<open>The handlers\<close>

record session_info =
  si_key :: string
  si_port :: port
  si_baud :: int
  si_access :: access
  si_token :: string
  si_expires :: int

definition attach_status :: "attach_error \<Rightarrow> nat" where
  "attach_status e = (case e of ControllerBusy \<Rightarrow> 409 | ModeConflict _ \<Rightarrow> 409 | PortNotFound \<Rightarrow> 404 | _ \<Rightarrow> 400)"

definition session_of :: "attachment \<Rightarrow> string \<Rightarrow> int \<Rightarrow> session" where
  "session_of a token expires = \<lparr>se_token = token, se_key = pt_key (at_port a), se_client = at_id a,
     se_access = at_access a, se_expires = expires, se_connected = False, se_timer = False\<rparr>"

text \<open>The inputs: the decoded body, the state of the request's context, the discovery and the opening of
  the port, the two random credentials and the clock.\<close>

record create_io =
  cs_body :: "decode_failure + attach_request"
  cs_canceled :: bool
  cs_found :: "discovery option"
  cs_can_open :: bool
  cs_key :: "string option"
  cs_token :: "string option"
  cs_now :: int

definition opened :: "attachment \<Rightarrow> console \<Rightarrow> sessions \<Rightarrow> sessions" where
  "opened a m sx = sx\<lparr>sx_console := m, sx_opened := insert (at_id a) (sx_opened sx)\<rparr>"

definition createSerialSession :: "create_io \<Rightarrow> sessions \<Rightarrow> session_info response \<times> sessions" where
  "createSerialSession io sx = (case cs_body io of
       Inl _ \<Rightarrow> (writeError 400 ''invalid_request'', sx)
     | Inr r \<Rightarrow> (case Attach (cs_canceled io) (cs_found io) (cs_can_open io) (r\<lparr>ar_replay := True\<rparr>) (sx_console sx) of
         (Inl e, m) \<Rightarrow> (writeError (attach_status e) ''serial_session_rejected'', sx\<lparr>sx_console := m\<rparr>)
       | (Inr a, m) \<Rightarrow>
           (let sx1 = opened a m sx; failed = (writeError 500 ''serial_session_failed'',
                  close_attachment (session_of a [] 0) sx1) in
            case cs_key io of None \<Rightarrow> failed
            | Some key \<Rightarrow> (case cs_token io of None \<Rightarrow> failed
              | Some token \<Rightarrow>
                  (let expires = cs_now io + serialAttachTTL in
                   (add_header ''Cache-Control'' ''no-store'' (writeJSON 201
                      \<lparr>si_key = key, si_port = at_port a, si_baud = at_baud a, si_access = at_access a,
                       si_token = token, si_expires = expires\<rparr>),
                    add_session key (session_of a token expires) sx1))))))"

definition deleteSerialSession :: "string \<Rightarrow> sessions \<Rightarrow> unit response \<times> sessions" where
  "deleteSerialSession key sx = (case remove_session key sx of
       (None, sx') \<Rightarrow> (writeError 404 ''serial_session_not_found'', sx')
     | (Some s, sx') \<Rightarrow> (\<lparr>rs_status = 204, rs_headers = [], rs_body = Inr ()\<rparr>, close_attachment s sx'))"

text \<open>\<open>streamSerialSession\<close> up to its first wait, after the authentication message, and at its end.\<close>

datatype auth = NoTextMessage | InvalidMessage | AuthToken string

definition stream_open :: "string \<Rightarrow> int \<Rightarrow> bool \<Rightarrow> sessions \<Rightarrow> unit response option \<times> sessions" where
  "stream_open key now accepted sx =
     (if \<not> pending key now sx then (Some (writeError 404 ''serial_session_not_found''), sx)
      else if \<not> accepted then (None, sx)
      else (None, sx\<lparr>sx_streams := sx_streams sx @ [Authenticating key]\<rparr>))"

definition set_stream :: "nat \<Rightarrow> stream \<Rightarrow> sessions \<Rightarrow> sessions" where
  "set_stream h st sx = sx\<lparr>sx_streams := (sx_streams sx)[h := st]\<rparr>"

definition stream_auth :: "nat \<Rightarrow> string \<Rightarrow> auth \<Rightarrow> int \<Rightarrow> sessions \<Rightarrow> sessions" where
  "stream_auth h key msg now sx = (case msg of
       AuthToken token \<Rightarrow> (case claim key token now sx of
           (Some s, sx') \<Rightarrow> set_stream h (Attached key s) sx'
         | (None, sx') \<Rightarrow> set_stream h Ended (discard key sx'))
     | _ \<Rightarrow> set_stream h Ended (discard key sx))"

definition stream_end :: "nat \<Rightarrow> string \<Rightarrow> session \<Rightarrow> sessions \<Rightarrow> sessions" where
  "stream_end h key s sx = set_stream h Ended (close_attachment s (snd (remove_session key sx)))"

subsection \<open>The two directions of a stream\<close>

datatype frame = ReadyFrame string access int | BinaryFrame string

datatype forward_event = StreamContextDone | Chunk "string option" \<comment> \<open>\<open>None\<close>: the channel is closed\<close>

text \<open>\<open>writeSerialWebSocket\<close> after its ready frame; each event with whether a write then succeeds.\<close>

fun forward_frames :: "(forward_event \<times> bool) list \<Rightarrow> frame list" where
  "forward_frames [] = []"
| "forward_frames ((StreamContextDone, _) # es) = []"
| "forward_frames ((Chunk None, _) # es) = []"
| "forward_frames ((Chunk (Some d), ok) # es) = (if ok then BinaryFrame d # forward_frames es else [])"

definition writeSerialWebSocket :: "port \<Rightarrow> access \<Rightarrow> int \<Rightarrow> bool \<Rightarrow> (forward_event \<times> bool) list \<Rightarrow> frame list" where
  "writeSerialWebSocket p acc baud ready_ok es =
     (if \<not> ready_ok then [] else ReadyFrame (pt_key p) acc baud # forward_frames es)"

datatype received = ReadFailed | TextMessage string | BinaryMessage "int option list" string

datatype stream_error = SocketError | BinaryOnly | ObserverCannotWrite | PortError write_error

text \<open>\<open>readSerialWebSocket\<close>: the bytes written to the port, and the error that ends the loop.\<close>

fun readSerialWebSocket :: "access \<Rightarrow> string \<Rightarrow> client \<Rightarrow> console \<Rightarrow> received list \<Rightarrow> string \<times> stream_error option" where
  "readSerialWebSocket acc key i m [] = ([], None)"
| "readSerialWebSocket acc key i m (ReadFailed # rs) = ([], Some SocketError)"
| "readSerialWebSocket acc key i m (TextMessage _ # rs) = ([], Some BinaryOnly)"
| "readSerialWebSocket acc key i m (BinaryMessage results data # rs) =
     (if acc \<noteq> Controller then ([], Some ObserverCannotWrite)
      else (case write_console key i results data m of
          (Some e, out) \<Rightarrow> (out, Some (PortError e))
        | (None, out) \<Rightarrow> (let (more, e) = readSerialWebSocket acc key i m rs in (out @ more, e))))"

lemma observer_writes_nothing: "acc \<noteq> Controller \<Longrightarrow> fst (readSerialWebSocket acc key i m rs) = []"
  by (cases "(acc, key, i, m, rs)" rule: readSerialWebSocket.cases) auto

lemma without_lease_writes_nothing:
  assumes "\<And>c. map_of (sm_open m) key = Some c \<Longrightarrow> cn_controller (conn m c) \<noteq> i"
  shows "fst (readSerialWebSocket acc key i m rs) = []"
proof -
  have "write_console key i results data m = (Some NoLease, [])" for results data
    using assms by (auto simp: write_console_def split: option.split)
  then show ?thesis by (cases "(acc, key, i, m, rs)" rule: readSerialWebSocket.cases) auto
qed

subsection \<open>The sessions as a system\<close>

definition stream_clients :: "stream list \<Rightarrow> client list" where
  "stream_clients sts = concat (map (\<lambda>st. case st of Attached _ s \<Rightarrow> [se_client s] | _ \<Rightarrow> []) sts)"

definition item_clients :: "sessions \<Rightarrow> client list" where
  "item_clients sx = map (\<lambda>(_, s). se_client s) (sx_items sx)"

definition claimed :: "sessions \<Rightarrow> client list" where
  "claimed sx = map (\<lambda>(_, i, _). i) (sx_claims sx)"

text \<open>A credential is fresh: \<open>crypto/rand\<close> gives sixteen bytes that no session has had.\<close>

inductive session_step :: "sessions \<Rightarrow> sessions \<Rightarrow> bool" where
  creates: "\<lbrakk>sm_next (sx_console sx) < - 1; \<forall>key. cs_key io = Some key \<longrightarrow> key \<notin> sx_used sx\<rbrakk> \<Longrightarrow>
    session_step sx (snd (createSerialSession io sx))"
| deletes: "session_step sx (snd (deleteSerialSession key sx))"
| timer: "\<lbrakk>map_of (sx_items sx) key = Some s; se_timer s; se_expires s \<le> now\<rbrakk> \<Longrightarrow> session_step sx (timer_fires key now sx)"
| opens: "session_step sx (snd (stream_open key now accepted sx))"
| authenticates: "\<lbrakk>h < length (sx_streams sx); sx_streams sx ! h = Authenticating key\<rbrakk> \<Longrightarrow>
    session_step sx (stream_auth h key msg now sx)"
| ends: "\<lbrakk>h < length (sx_streams sx); sx_streams sx ! h = Attached key s\<rbrakk> \<Longrightarrow> session_step sx (stream_end h key s sx)"
| console: "console_step (sx_console sx) m \<Longrightarrow> session_step sx (sx\<lparr>sx_console := m\<rparr>)"

inductive fresh_sessions :: "sessions \<Rightarrow> bool" where
  "reach new_console console_step m \<Longrightarrow> fresh_sessions (newSerialSessions m)"

definition items_ok :: "sessions \<Rightarrow> bool" where
  "items_ok sx \<longleftrightarrow> distinct (map fst (sx_items sx)) \<and> distinct (item_clients sx)
     \<and> (\<forall>(key, s) \<in> set (sx_items sx). \<not> se_connected s \<longrightarrow>
          se_timer s \<and> se_client s \<notin> set (claimed sx) \<and> (se_token s, se_client s, se_expires s) \<in> sx_issued sx)"

definition claims_ok :: "sessions \<Rightarrow> bool" where
  "claims_ok sx \<longleftrightarrow> distinct (claimed sx)
     \<and> (\<forall>(token, i, now) \<in> set (sx_claims sx). \<exists>e. (token, i, e) \<in> sx_issued sx \<and> now < e)
     \<and> distinct (stream_clients (sx_streams sx)) \<and> set (stream_clients (sx_streams sx)) \<subseteq> set (claimed sx)"

definition clients_bound :: "sessions \<Rightarrow> bool" where
  "clients_bound sx \<longleftrightarrow> (\<forall>i \<in> set (item_clients sx) \<union> set (claimed sx) \<union> sx_opened sx. i \<le> sm_next (sx_console sx))
     \<and> set (item_clients sx) \<union> set (claimed sx) \<subseteq> sx_opened sx"

definition owned :: "sessions \<Rightarrow> bool" where
  "owned sx \<longleftrightarrow> sx_opened sx \<subseteq> sx_released sx \<union> set (item_clients sx) \<union> set (stream_clients (sx_streams sx))"

text \<open>The table holds only given ids, and a stream's id never stands for another session.\<close>

definition matched :: "sessions \<Rightarrow> bool" where
  "matched sx \<longleftrightarrow> fst ` set (sx_items sx) \<subseteq> sx_used sx \<and> (\<forall>key t. Attached key t \<in> set (sx_streams sx) \<longrightarrow>
     key \<in> sx_used sx \<and> (\<forall>s. (key, s) \<in> set (sx_items sx) \<longrightarrow> se_client s = se_client t))"

definition sessions_ok :: "sessions \<Rightarrow> bool" where
  "sessions_ok sx \<longleftrightarrow> items_ok sx \<and> claims_ok sx \<and> clients_bound sx \<and> owned sx \<and> matched sx"

subsection \<open>Client numbers only grow\<close>

lemma next_kept [simp]:
  "sm_next (closeSubscriberLocked c i reason m) = sm_next m" "sm_next (close_handle c m) = sm_next m"
  "sm_next (forget_port key m) = sm_next m" "sm_next (deliver_chunk c data i m) = sm_next m"
  by (simp_all add: closeSubscriberLocked_def close_handle_def forget_port_def deliver_chunk_def split: option.split)

lemma next_fold: "(\<And>i m. sm_next (f i m) = sm_next m) \<Longrightarrow> sm_next (fold f is m) = sm_next m"
  by (induction "is" arbitrary: m) auto

lemma next_kept_more [simp]:
  "sm_next (close_clients c reason m) = sm_next m" "sm_next (drop_if_unused c key m) = sm_next m"
  "sm_next (detach key i m) = sm_next m" "sm_next (take_chunk i m) = sm_next m" "sm_next (Close_console m) = sm_next m"
  by (simp_all add: close_clients_def drop_if_unused_def detach_def take_chunk_def Close_console_def next_fold split: option.split)

lemma next_read [simp]: "sm_next (read_turn c res m) = sm_next m"
  by (cases res) (simp add: read_turn_def endConnection_def broadcast_def Let_def next_fold)

lemma subscribe_next [simp]: "sm_next (subscribe_client c acc replay m) = sm_next m + 1"
  by (simp add: subscribe_client_def Let_def)

lemma Attach_next:
  "Attach canceled found can_open r m = (Inl e, m') \<Longrightarrow> m' = m"
  "Attach canceled found can_open r m = (Inr a, m') \<Longrightarrow> sm_next m' = sm_next m + 1 \<and> at_id a = sm_next m + 1"
  by (auto simp: Attach_def attach_locked_def Let_def split: sum.splits option.splits if_splits)

lemma next_id: "sm_next m < - 1 \<Longrightarrow> i \<le> sm_next m \<Longrightarrow> i < sm_next m + 1"
proof -
  assume "sm_next m < - 1" and i: "i \<le> sm_next m"
  then have "1 + sm_next m \<noteq> 0" by (metis add.commute add_eq_0_iff order.strict_iff_not order_refl)
  then have "unat (1 + sm_next m) = Suc (unat (sm_next m))" by (rule unatSuc)
  with i show "i < sm_next m + 1" by (simp add: word_less_nat_alt word_le_nat_alt add.commute)
qed

lemma next_mono: "console_step m m' \<Longrightarrow> sm_next m \<le> sm_next m'"
proof (induction rule: console_step.induct)
  case (attaches m canceled found can_open r)
  obtain x m' where a: "Attach canceled found can_open r m = (x, m')" by fastforce
  show ?case
  proof (cases x)
    case (Inl e)
    with Attach_next(1) a show ?thesis by fastforce
  next
    case (Inr b)
    with Attach_next(2) a have "sm_next m' = sm_next m + 1" by blast
    with a next_id [OF attaches order_refl] show ?thesis by simp
  qed
qed simp_all

subsection \<open>Each operation keeps the invariant\<close>

lemma close_sel [simp]:
  "sx_items (close_attachment s sx) = sx_items sx" "sx_streams (close_attachment s sx) = sx_streams sx"
  "sx_claims (close_attachment s sx) = sx_claims sx" "sx_issued (close_attachment s sx) = sx_issued sx"
  "sx_opened (close_attachment s sx) = sx_opened sx" "sx_used (close_attachment s sx) = sx_used sx"
  "sx_released (close_attachment s sx) = insert (se_client s) (sx_released sx)"
  "sm_next (sx_console (close_attachment s sx)) = sm_next (sx_console sx)"
  by (simp_all add: close_attachment_def)

lemma drop_sel [simp]:
  "sx_items (drop_session key sx) = AList.delete key (sx_items sx)" "sx_streams (drop_session key sx) = sx_streams sx"
  "sx_claims (drop_session key sx) = sx_claims sx" "sx_issued (drop_session key sx) = sx_issued sx"
  "sx_opened (drop_session key sx) = sx_opened sx" "sx_released (drop_session key sx) = sx_released sx"
  "sx_console (drop_session key sx) = sx_console sx" "sx_used (drop_session key sx) = sx_used sx"
  by (simp_all add: drop_session_def)

lemma set_stream_sel [simp]:
  "sx_items (set_stream h st sx) = sx_items sx" "sx_streams (set_stream h st sx) = (sx_streams sx)[h := st]"
  "sx_claims (set_stream h st sx) = sx_claims sx" "sx_issued (set_stream h st sx) = sx_issued sx"
  "sx_opened (set_stream h st sx) = sx_opened sx" "sx_released (set_stream h st sx) = sx_released sx"
  "sx_console (set_stream h st sx) = sx_console sx" "sx_used (set_stream h st sx) = sx_used sx"
  by (simp_all add: set_stream_def)

lemmas ok_defs = sessions_ok_def items_ok_def claims_ok_def clients_bound_def owned_def matched_def item_clients_def claimed_def

lemma okD:
  assumes "sessions_ok sx"
  shows "items_ok sx" "claims_ok sx" "clients_bound sx" "owned sx" "matched sx"
  using assms by (simp_all only: sessions_ok_def)

lemma okI: "items_ok sx \<Longrightarrow> claims_ok sx \<Longrightarrow> clients_bound sx \<Longrightarrow> owned sx \<Longrightarrow> matched sx \<Longrightarrow> sessions_ok sx"
  by (simp only: sessions_ok_def)

lemma matchedD:
  assumes "matched sx"
  shows "(k, v) \<in> set (sx_items sx) \<Longrightarrow> k \<in> sx_used sx" "Attached k t \<in> set (sx_streams sx) \<Longrightarrow> k \<in> sx_used sx"
    "Attached k t \<in> set (sx_streams sx) \<Longrightarrow> (k, v) \<in> set (sx_items sx) \<Longrightarrow> se_client v = se_client t"
  using assms unfolding matched_def by (force, blast, blast)

text \<open>Steps that neither attach a stream nor add a session keep the table and the streams matched.\<close>

lemma matched_kept:
  assumes m: "matched sx" and items: "\<And>k v. (k, v) \<in> set (sx_items sx') \<Longrightarrow> \<exists>w. (k, w) \<in> set (sx_items sx) \<and> se_client w = se_client v"
    and streams: "\<And>k t. Attached k t \<in> set (sx_streams sx') \<Longrightarrow> Attached k t \<in> set (sx_streams sx)"
    and used: "sx_used sx' = sx_used sx"
  shows "matched sx'"
  unfolding matched_def used
proof (intro conjI subsetI allI impI)
  fix k assume "k \<in> fst ` set (sx_items sx')"
  then obtain v where "(k, v) \<in> set (sx_items sx')" by fastforce
  then show "k \<in> sx_used sx" using items matchedD(1) [OF m] by blast
next
  fix k t assume "Attached k t \<in> set (sx_streams sx')"
  then show "k \<in> sx_used sx" using streams matchedD(2) [OF m] by blast
next
  fix k t v assume "Attached k t \<in> set (sx_streams sx')" "(k, v) \<in> set (sx_items sx')"
  then show "se_client v = se_client t" using items streams matchedD(3) [OF m] by metis
qed

lemma close_ok: "sessions_ok sx \<Longrightarrow> sessions_ok (close_attachment s sx)"
  by (auto simp: ok_defs)

lemma delete_items: "AList.delete key xs = filter (\<lambda>(k, v). k \<noteq> key) xs"
  by (induction xs) auto

lemma drop_close_ok:
  assumes ok: "sessions_ok sx" and s: "map_of (sx_items sx) key = Some s"
  shows "sessions_ok (close_attachment s (drop_session key sx))"
proof -
  have dk: "distinct (map fst (sx_items sx))" using ok by (simp add: ok_defs)
  have "set (item_clients sx) \<subseteq> insert (se_client s) (set (item_clients (drop_session key sx)))"
  proof
    fix i assume "i \<in> set (item_clients sx)"
    then obtain k t where t: "(k, t) \<in> set (sx_items sx)" "i = se_client t" by (auto simp: item_clients_def)
    show "i \<in> insert (se_client s) (set (item_clients (drop_session key sx)))"
    proof (cases "k = key")
      case True
      with t(1) dk s have "t = s" by (metis map_of_eq_Some_iff option.inject)
      with t(2) show ?thesis by simp
    next
      case False
      with t show ?thesis by (force simp: item_clients_def delete_items)
    qed
  qed
  moreover have "distinct (item_clients (drop_session key sx))"
    using ok by (simp add: ok_defs delete_items distinct_map_filter)
  moreover have "distinct (map fst (AList.delete key (sx_items sx)))" using dk by (rule distinct_delete)
  moreover have "set (item_clients (drop_session key sx)) \<subseteq> set (item_clients sx)"
    by (auto simp: item_clients_def delete_items)
  moreover have "set (AList.delete key (sx_items sx)) \<subseteq> set (sx_items sx)" by (auto simp: delete_items)
  ultimately have part: "set (item_clients sx) \<subseteq> insert (se_client s) (set (item_clients (drop_session key sx)))"
    "distinct (item_clients (drop_session key sx))" "distinct (map fst (AList.delete key (sx_items sx)))"
    "set (item_clients (drop_session key sx)) \<subseteq> set (item_clients sx)"
    "set (AList.delete key (sx_items sx)) \<subseteq> set (sx_items sx)" .
  let ?n = "close_attachment s (drop_session key sx)"
  have ic: "item_clients ?n = item_clients (drop_session key sx)" "claimed ?n = claimed sx" "sx_items ?n = AList.delete key (sx_items sx)"
    by (simp_all add: item_clients_def claimed_def)
  have "items_ok ?n" using ok part(2,3,5) unfolding sessions_ok_def items_ok_def ic by auto
  moreover have "claims_ok ?n" using ok by (simp add: sessions_ok_def claims_ok_def claimed_def)
  moreover have "clients_bound ?n" using ok part(4) unfolding sessions_ok_def clients_bound_def ic by auto
  moreover have "owned ?n" using ok part(1) unfolding sessions_ok_def owned_def ic by auto
  moreover have "matched ?n"
    by (rule matched_kept [OF okD(5) [OF ok]]) (use part(5) in \<open>auto simp: ic(3)\<close>)
  ultimately show ?thesis by (simp add: sessions_ok_def)
qed

lemma discard_ok: "sessions_ok sx \<Longrightarrow> sessions_ok (discard key sx)"
proof -
  assume ok: "sessions_ok sx"
  show ?thesis
  proof (cases "map_of (sx_items sx) key")
    case None
    then have "drop_session key sx = sx"
      by (simp add: drop_session_def delete_idem map_of_eq_None_iff)
    with None ok show ?thesis by (simp add: discard_def remove_session_def)
  next
    case (Some s)
    with drop_close_ok [OF ok Some] show ?thesis by (simp add: discard_def remove_session_def)
  qed
qed

lemma stream_clients_parts [simp]:
  "stream_clients (a @ b) = stream_clients a @ stream_clients b" "stream_clients (Ended # b) = stream_clients b"
  "stream_clients (Authenticating key # b) = stream_clients b" "stream_clients (Attached key s # b) = se_client s # stream_clients b"
  "stream_clients [] = []"
  by (simp_all add: stream_clients_def)

lemma stream_update:
  assumes "h < length sts"
  shows "set (stream_clients sts) = set (stream_clients (sts[h := Ended])) \<union> set (stream_clients [sts ! h])"
    "distinct (stream_clients sts) \<Longrightarrow> distinct (stream_clients (sts[h := Ended]))"
    "set (stream_clients (sts[h := Attached key s])) = insert (se_client s) (set (stream_clients (sts[h := Ended])))"
    "distinct (stream_clients (sts[h := Attached key s])) \<longleftrightarrow> distinct (stream_clients (sts[h := Ended]))
       \<and> se_client s \<notin> set (stream_clients (sts[h := Ended]))"
proof -
  obtain a x b where sts: "sts = a @ x # b" "length a = h"
    using id_take_nth_drop [OF assms] assms by (metis length_take min.absorb4)
  then have up: "sts[h := y] = a @ y # b" "sts ! h = x" for y by auto
  show "set (stream_clients sts) = set (stream_clients (sts[h := Ended])) \<union> set (stream_clients [sts ! h])"
    "distinct (stream_clients sts) \<Longrightarrow> distinct (stream_clients (sts[h := Ended]))"
    unfolding up unfolding sts(1) by (cases x; auto)+
  show "set (stream_clients (sts[h := Attached key s])) = insert (se_client s) (set (stream_clients (sts[h := Ended])))"
    "distinct (stream_clients (sts[h := Attached key s])) \<longleftrightarrow> distinct (stream_clients (sts[h := Ended]))
       \<and> se_client s \<notin> set (stream_clients (sts[h := Ended]))"
    unfolding up by auto
qed

lemma item_claimed_sel [simp]:
  "item_clients (set_stream h st sx) = item_clients sx" "claimed (set_stream h st sx) = claimed sx"
  "item_clients (close_attachment s sx) = item_clients sx" "claimed (close_attachment s sx) = claimed sx"
  "claimed (drop_session key sx) = claimed sx"
  by (simp_all add: item_clients_def claimed_def)

text \<open>A stream may end when it holds no attachment, or when its attachment was closed.\<close>

lemma end_stream_ok:
  assumes ok: "sessions_ok sx" and h: "h < length (sx_streams sx)"
    and free: "\<And>key s. sx_streams sx ! h = Attached key s \<Longrightarrow> se_client s \<in> sx_released sx"
  shows "sessions_ok (set_stream h Ended sx)"
proof -
  let ?n = "set_stream h Ended sx"
  note up = stream_update [OF h]
  have "items_ok ?n" "clients_bound ?n" using ok by (simp_all add: sessions_ok_def items_ok_def clients_bound_def)
  moreover have "claims_ok ?n" using ok up(1,2) by (auto simp: sessions_ok_def claims_ok_def)
  moreover have "set (stream_clients [sx_streams sx ! h]) \<subseteq> sx_released sx"
    using free by (cases "sx_streams sx ! h") auto
  then have "owned ?n" using ok up(1) by (auto simp: sessions_ok_def owned_def)
  moreover have "set ((sx_streams sx)[h := Ended]) \<subseteq> insert Ended (set (sx_streams sx))" by (rule set_update_subset_insert)
  then have "matched ?n" by (intro matched_kept [OF okD(5) [OF ok]]) auto
  ultimately show ?thesis by (simp add: sessions_ok_def)
qed

lemma update_items:
  assumes "distinct (map fst xs)" "map_of xs key = Some s" "se_client s' = se_client s"
  shows "map (\<lambda>(_, s). se_client s) (AList.update key s' xs) = map (\<lambda>(_, s). se_client s) xs"
    "set (AList.update key s' xs) \<subseteq> insert (key, s') (set xs - {(key, s)})"
    "distinct (map fst (AList.update key s' xs))"
proof -
  show "map (\<lambda>(_, s). se_client s) (AList.update key s' xs) = map (\<lambda>(_, s). se_client s) xs"
    using assms by (induction xs) (auto split: if_splits)
  show "set (AList.update key s' xs) \<subseteq> insert (key, s') (set xs - {(key, s)})"
    using assms by (induction xs) (auto split: if_splits simp: rev_image_eqI)
  show "distinct (map fst (AList.update key s' xs))" using assms(1) by (rule distinct_update)
qed

lemma claim_ok:
  assumes ok: "sessions_ok sx" and h: "h < length (sx_streams sx)" "sx_streams sx ! h = Authenticating key"
    and c: "claim key token now sx = (Some s', sx')"
  shows "sessions_ok (set_stream h (Attached key s') sx')"
proof -
  obtain s where s: "map_of (sx_items sx) key = Some s" "\<not> se_connected s" "now < se_expires s" "token = se_token s"
    "s' = s\<lparr>se_connected := True, se_token := [], se_timer := False\<rparr>"
    "sx' = sx\<lparr>sx_items := AList.update key s' (sx_items sx), sx_claims := (token, se_client s, now) # sx_claims sx\<rparr>"
    using c by (auto simp: claim_def Let_def split: option.splits if_splits)
  let ?n = "set_stream h (Attached key s') sx'"
  have it: "(key, s) \<in> set (sx_items sx)" using s(1) by (rule map_of_SomeD)
  have dk: "distinct (map fst (sx_items sx))" and di: "distinct (item_clients sx)"
    and un: "se_client s \<notin> set (claimed sx)" "(se_token s, se_client s, se_expires s) \<in> sx_issued sx"
    using ok it s(2) by (auto simp: sessions_ok_def items_ok_def)
  note u = update_items [OF dk s(1), of s', simplified s(5), simplified]
  have ic: "item_clients ?n = item_clients sx" "claimed ?n = se_client s # claimed sx" "sx_issued ?n = sx_issued sx"
    "sx_items ?n = AList.update key s' (sx_items sx)" "sx_opened ?n = sx_opened sx" "sx_released ?n = sx_released sx"
    "sx_console ?n = sx_console sx" "sx_claims ?n = (token, se_client s, now) # sx_claims sx"
    "sx_streams ?n = (sx_streams sx)[h := Attached key s']"
    using u(1) by (simp_all add: item_clients_def claimed_def s(5,6))
  have other: "se_client t \<noteq> se_client s" if "(k, t) \<in> set (sx_items sx)" "(k, t) \<noteq> (key, s)" for k t
    using di that it unfolding item_clients_def by (force simp: distinct_map inj_on_def)
  have "items_ok ?n"
    unfolding items_ok_def ic
  proof (intro conjI ballI)
    show "distinct (map fst (AList.update key s' (sx_items sx)))" using dk by (rule distinct_update)
    show "distinct (item_clients sx)" by (rule di)
    fix p assume p: "p \<in> set (AList.update key s' (sx_items sx))"
    obtain k t where kt: "p = (k, t)" by (cases p)
    from p u(2) have "p = (key, s') \<or> p \<in> set (sx_items sx) - {(key, s)}" by (auto simp: s(5))
    then show "case p of (k, t) \<Rightarrow> \<not> se_connected t \<longrightarrow>
        se_timer t \<and> se_client t \<notin> set (se_client s # claimed sx) \<and> (se_token t, se_client t, se_expires t) \<in> sx_issued sx"
    proof
      assume "p = (key, s')"
      then show ?thesis by (simp add: s(5))
    next
      assume "p \<in> set (sx_items sx) - {(key, s)}"
      then show ?thesis using ok other kt by (auto simp: sessions_ok_def items_ok_def)
    qed
  qed
  moreover have sc: "set (stream_clients (sx_streams ?n)) = insert (se_client s) (set (stream_clients (sx_streams sx)))"
    using stream_update(1,3) [OF h(1)] h(2) unfolding ic by (simp add: s(5))
  moreover have "distinct (stream_clients (sx_streams ?n))"
    using stream_update(1,2,4) [OF h(1)] h(2) ok un(1) unfolding ic by (auto simp: s(5) sessions_ok_def claims_ok_def)
  then have "claims_ok ?n"
    using ok un s(3,4) sc unfolding sessions_ok_def claims_ok_def ic by (auto simp: ic)
  moreover have "se_client s \<in> set (item_clients sx)" using it by (force simp: item_clients_def)
  then have "clients_bound ?n" using ok unfolding sessions_ok_def clients_bound_def ic by auto
  moreover have "owned ?n" using ok sc unfolding sessions_ok_def owned_def ic(1,5,6) by auto
  moreover have "matched ?n"
    unfolding matched_def
  proof (intro conjI allI impI subsetI)
    note md = matchedD [OF okD(5) [OF ok]]
    have us: "sx_used ?n = sx_used sx" by (simp add: s(6))
    have sub: "set (sx_items ?n) \<subseteq> insert (key, s') (set (sx_items sx) - {(key, s)})" using u(2) unfolding ic by (simp add: s(5))
    have str: "Attached k t \<in> set (sx_streams ?n) \<Longrightarrow> (k = key \<and> t = s') \<or> Attached k t \<in> set (sx_streams sx)" for k t
      unfolding ic using set_update_subset_insert [of "sx_streams sx" h "Attached key s'"] by blast
    have cl: "se_client s' = se_client s" by (simp add: s(5))
    show "k \<in> sx_used ?n" if k: "k \<in> fst ` set (sx_items ?n)" for k
    proof -
      obtain v where "(k, v) \<in> set (sx_items ?n)" using k by fastforce
      then have "k = key \<or> (k, v) \<in> set (sx_items sx)" using sub by blast
      then show ?thesis using md(1) it unfolding us by blast
    qed
    show "k \<in> sx_used ?n" if "Attached k t \<in> set (sx_streams ?n)" for k t
      using str [OF that] md(1) [OF it] md(2) [of k t] unfolding us by blast
    show "se_client v = se_client t" if k: "Attached k t \<in> set (sx_streams ?n)" "(k, v) \<in> set (sx_items ?n)" for k t v
    proof (cases "k = key")
      case True
      have v: "v = s'" using k(2) sub True eq_key_imp_eq_value [OF dk it] by blast
      with True str [OF k(1)] md(3) [of key t s] it cl show ?thesis by auto
    next
      case False
      then have "(k, v) \<in> set (sx_items sx)" "Attached k t \<in> set (sx_streams sx)" using k sub str by blast+
      then show ?thesis using md(3) by blast
    qed
  qed
  ultimately show ?thesis by (simp add: sessions_ok_def)
qed

lemma timer_ok:
  assumes ok: "sessions_ok sx" and s: "map_of (sx_items sx) key = Some s" and now: "se_expires s \<le> now"
    and armed: "se_timer s"
  shows "sessions_ok (timer_fires key now sx)"
proof (cases "se_connected s")
  case False
  with now s drop_close_ok [OF ok s] show ?thesis by (simp add: timer_fires_def expire_session_def)
next
  case True
  let ?s = "s\<lparr>se_timer := False\<rparr>" and ?n = "timer_fires key now sx"
  have n: "?n = sx\<lparr>sx_items := AList.update key ?s (sx_items sx)\<rparr>"
    using True s by (simp add: timer_fires_def expire_session_def)
  have dk: "distinct (map fst (sx_items sx))" using ok by (simp add: ok_defs)
  note u = update_items [OF dk s, of ?s, simplified]
  have ic: "item_clients ?n = item_clients sx" "claimed ?n = claimed sx" using u(1) by (simp_all add: n item_clients_def claimed_def)
  have "items_ok ?n" using ok u(2,3) True unfolding sessions_ok_def items_ok_def ic by (fastforce simp: n)
  moreover have "claims_ok ?n" "clients_bound ?n" "owned ?n"
    using ok unfolding sessions_ok_def claims_ok_def clients_bound_def owned_def ic by (simp_all add: n)
  moreover have "matched ?n"
  proof (rule matched_kept [OF okD(5) [OF ok]])
    fix k v assume "(k, v) \<in> set (sx_items ?n)"
    then have "(k, v) = (key, ?s) \<or> (k, v) \<in> set (sx_items sx)" using u(2) by (auto simp: n)
    then show "\<exists>w. (k, w) \<in> set (sx_items sx) \<and> se_client w = se_client v" using map_of_SomeD [OF s] by auto
  qed (simp_all add: n)
  ultimately show ?thesis by (simp add: sessions_ok_def)
qed

lemma new_item: "map_of xs key = None \<Longrightarrow> AList.update key v xs = xs @ [(key, v)]"
  by (induction xs) (auto split: if_splits)

lemma opened_ok:
  assumes ok: "sessions_ok sx" and a: "Attach canceled found can_open r (sx_console sx) = (Inr a, m)"
    and ids: "sm_next (sx_console sx) < - 1"
  shows "sessions_ok (close_attachment (session_of a token e) (opened a m sx))"
    "key \<notin> sx_used sx \<Longrightarrow> sessions_ok (add_session key (session_of a token e) (opened a m sx))"
proof -
  have next': "at_id a = sm_next (sx_console sx) + 1" "sm_next m = sm_next (sx_console sx) + 1" using Attach_next(2) [OF a] by simp_all
  have bound: "i < at_id a" if "i \<in> set (item_clients sx) \<union> set (claimed sx) \<union> sx_opened sx" for i
    using ok that next_id [OF ids] unfolding next'(1) sessions_ok_def clients_bound_def by blast
  have fresh: "at_id a \<notin> set (item_clients sx)" "at_id a \<notin> set (claimed sx)" using bound by blast+
  let ?o = "opened a m sx"
  have o: "sx_items ?o = sx_items sx" "sx_claims ?o = sx_claims sx" "sx_streams ?o = sx_streams sx" "sx_issued ?o = sx_issued sx"
    "sx_opened ?o = insert (at_id a) (sx_opened sx)" "sx_released ?o = sx_released sx" "sx_console ?o = m" "sx_used ?o = sx_used sx"
    by (simp_all add: opened_def)
  have le: "i \<le> at_id a" if "i \<in> insert (at_id a) (set (item_clients sx) \<union> set (claimed sx) \<union> sx_opened sx)" for i
    using that bound by (auto intro: less_imp_le)
  let ?c = "close_attachment (session_of a token e) ?o"
  have cl: "item_clients ?c = item_clients sx" "claimed ?c = claimed sx" by (simp_all add: item_clients_def claimed_def o)
  have "items_ok ?c" "claims_ok ?c" using ok unfolding sessions_ok_def items_ok_def claims_ok_def cl by (simp_all add: o)
  moreover have "clients_bound ?c" using ok le unfolding sessions_ok_def clients_bound_def cl by (auto simp: o next')
  moreover have "owned ?c" using ok unfolding sessions_ok_def owned_def cl by (auto simp: o session_of_def)
  moreover have "matched ?c" by (rule matched_kept [OF okD(5) [OF ok]]) (auto simp: o)
  ultimately show "sessions_ok ?c" by (simp add: sessions_ok_def)
  assume new: "key \<notin> sx_used sx"
  then have none: "map_of (sx_items sx) key = None" using ok by (force simp: sessions_ok_def matched_def map_of_eq_None_iff)
  let ?a = "add_session key (session_of a token e) ?o" and ?s = "(session_of a token e)\<lparr>se_timer := True\<rparr>"
  have it: "sx_items ?a = sx_items sx @ [(key, ?s)]"
    using new_item [OF none] by (simp add: add_session_def o)
  have ca: "item_clients ?a = item_clients sx @ [at_id a]" "claimed ?a = claimed sx"
    "sx_issued ?a = insert (token, at_id a, e) (sx_issued sx)" "sx_streams ?a = sx_streams sx" "sx_claims ?a = sx_claims sx"
    "sx_opened ?a = insert (at_id a) (sx_opened sx)" "sx_released ?a = sx_released sx" "sx_console ?a = m"
    by (simp_all add: item_clients_def it) (simp_all add: claimed_def add_session_def o session_of_def)
  have "items_ok ?a"
    using ok none fresh unfolding sessions_ok_def items_ok_def ca it
    by (auto simp: session_of_def map_of_eq_None_iff)
  moreover have "claims_ok ?a" using ok unfolding sessions_ok_def claims_ok_def ca by auto
  moreover have "clients_bound ?a" using ok le unfolding sessions_ok_def clients_bound_def ca by (auto simp: next')
  moreover have "owned ?a" using ok unfolding sessions_ok_def owned_def ca by auto
  moreover have "sx_used ?a = insert key (sx_used sx)" by (simp add: add_session_def o)
  then have "matched ?a" using okD(5) [OF ok] new unfolding matched_def ca it by auto
  ultimately show "sessions_ok ?a" by (simp add: sessions_ok_def)
qed

text \<open>Only the client of a closed attachment matters to the table.\<close>

lemma close_same: "se_client v = se_client t \<Longrightarrow> sessions_ok (close_attachment v sx) \<Longrightarrow> sessions_ok (close_attachment t sx)"
  unfolding sessions_ok_def items_ok_def claims_ok_def clients_bound_def owned_def matched_def by simp

lemma create_ok:
  assumes ok: "sessions_ok s" and ids: "sm_next (sx_console s) < - 1" and new: "\<forall>key. cs_key io = Some key \<longrightarrow> key \<notin> sx_used s"
  shows "sessions_ok (snd (createSerialSession io s))"
proof (cases "cs_body io")
  case (Inl x)
  with ok show ?thesis by (simp add: createSerialSession_def)
next
  case body: (Inr r)
  obtain x m where a: "Attach (cs_canceled io) (cs_found io) (cs_can_open io) (r\<lparr>ar_replay := True\<rparr>) (sx_console s) = (x, m)"
    by fastforce
  show ?thesis
  proof (cases x)
    case (Inl err)
    then have "m = sx_console s" using Attach_next(1) a by blast
    with ok a body Inl show ?thesis by (simp add: createSerialSession_def)
  next
    case (Inr b)
    note op = opened_ok [OF ok a [unfolded Inr] ids]
    show ?thesis
    proof (cases "cs_key io")
      case None
      with op(1) show ?thesis by (simp add: createSerialSession_def body a Inr Let_def)
    next
      case (Some key)
      with op new show ?thesis
        by (cases "cs_token io") (simp_all add: createSerialSession_def body a Inr Let_def)
    qed
  qed
qed

lemma delete_ok: "sessions_ok s \<Longrightarrow> sessions_ok (snd (deleteSerialSession key s))"
  using discard_ok [of s key]
  by (simp add: deleteSerialSession_def discard_def remove_session_def split: option.splits)

lemma stream_open_ok: "sessions_ok s \<Longrightarrow> sessions_ok (snd (stream_open key now accepted s))"
proof -
  assume ok: "sessions_ok s"
  let ?n = "s\<lparr>sx_streams := sx_streams s @ [Authenticating key]\<rparr>"
  have "item_clients ?n = item_clients s" "claimed ?n = claimed s" by (simp_all add: item_clients_def claimed_def)
  then have "items_ok ?n" "claims_ok ?n" "clients_bound ?n" "owned ?n"
    using okD [OF ok] by (simp_all add: items_ok_def claims_ok_def clients_bound_def owned_def)
  moreover have "matched ?n" by (rule matched_kept [OF okD(5) [OF ok]]) auto
  ultimately show ?thesis using ok by (simp add: stream_open_def okI)
qed

lemma stream_auth_ok:
  assumes ok: "sessions_ok s" and h: "h < length (sx_streams s)" "sx_streams s ! h = Authenticating key"
  shows "sessions_ok (stream_auth h key msg now s)"
proof -
  have same: "sx_streams (discard key s) = sx_streams s"
    by (simp add: discard_def remove_session_def split: option.split)
  have d: "sessions_ok (set_stream h Ended (discard key s))"
    using ok h by (intro end_stream_ok) (simp_all add: discard_ok same)
  show ?thesis
  proof (cases msg)
    case (AuthToken token)
    obtain x s' where c: "claim key token now s = (x, s')" by fastforce
    show ?thesis
    proof (cases x)
      case None
      then have "s' = s" using c by (auto simp: claim_def Let_def split: option.splits if_splits)
      with d None c AuthToken show ?thesis by (simp add: stream_auth_def)
    next
      case (Some t)
      with claim_ok [OF ok h, of token now t s'] c AuthToken show ?thesis by (simp add: stream_auth_def)
    qed
  qed (use d in \<open>simp_all add: stream_auth_def\<close>)
qed

lemma stream_end_ok:
  assumes ok: "sessions_ok s" and h: "h < length (sx_streams s)" "sx_streams s ! h = Attached key t"
  shows "sessions_ok (stream_end h key t s)"
proof -
  let ?d = "close_attachment t (drop_session key s)"
  have d: "sessions_ok ?d"
  proof (cases "map_of (sx_items s) key")
    case None
    then have "drop_session key s = s" by (simp add: drop_session_def delete_idem map_of_eq_None_iff)
    with ok show ?thesis by (simp add: close_ok)
  next
    case (Some v)
    have "Attached key t \<in> set (sx_streams s)" using h by (metis nth_mem)
    then have "se_client v = se_client t" using matchedD(3) [OF okD(5) [OF ok]] map_of_SomeD [OF Some] by blast
    moreover have "sessions_ok (close_attachment v (drop_session key s))" by (rule drop_close_ok [OF ok Some])
    ultimately show ?thesis by (rule close_same)
  qed
  have "sessions_ok (set_stream h Ended ?d)" using d h by (intro end_stream_ok) auto
  then show ?thesis by (simp add: stream_end_def remove_session_def)
qed

lemma console_ok: "sessions_ok s \<Longrightarrow> console_step (sx_console s) m \<Longrightarrow> sessions_ok (s\<lparr>sx_console := m\<rparr>)"
proof -
  assume ok: "sessions_ok s" and st: "console_step (sx_console s) m"
  let ?n = "s\<lparr>sx_console := m\<rparr>"
  have ic: "item_clients ?n = item_clients s" "claimed ?n = claimed s" by (simp_all add: item_clients_def claimed_def)
  have "items_ok ?n" "claims_ok ?n" "owned ?n"
    using okD [OF ok] ic by (simp_all add: items_ok_def claims_ok_def owned_def)
  moreover have "clients_bound ?n"
    unfolding clients_bound_def ic
  proof (intro conjI ballI)
    fix i assume "i \<in> set (item_clients s) \<union> set (claimed s) \<union> sx_opened ?n"
    then have "i \<le> sm_next (sx_console s)" using okD(3) [OF ok] unfolding clients_bound_def by simp
    then show "i \<le> sm_next (sx_console ?n)" using next_mono [OF st] by simp
  qed (use okD(3) [OF ok] in \<open>simp add: clients_bound_def\<close>)
  moreover have "matched ?n" by (rule matched_kept [OF okD(5) [OF ok]]) auto
  ultimately show ?thesis by (simp add: okI)
qed

lemma step_sessions_ok: "sessions_ok sx \<Longrightarrow> session_step sx sx' \<Longrightarrow> sessions_ok sx'"
  by (erule session_step.cases; hypsubst)
    (erule (2) create_ok, erule delete_ok, erule (3) timer_ok, erule stream_open_ok, erule (2) stream_auth_ok,
      erule (2) stream_end_ok, erule (1) console_ok)

lemma fresh_sessions_ok: "fresh_sessions sx \<Longrightarrow> sessions_ok sx"
  by (induction rule: fresh_sessions.induct) (simp add: newSerialSessions_def ok_defs)

interpretation sessions: step_invariant fresh_sessions session_step sessions_ok
  by unfold_locales (rule fresh_sessions_ok, assumption, rule step_sessions_ok)

text \<open>C7: in every reachable state of the serial sessions, a token has admitted at most one stream,
  it was the issued one and it was used before it expired; no two streams share an attachment; a session
  that waits for its stream still has its expiry timer; and every attachment that was opened has been
  closed, or belongs to a session of the table or to a running stream.\<close>

theorem serial_tokens_are_single_use:
  assumes "reach fresh_sessions session_step sx"
  shows "distinct (map (\<lambda>(_, i, _). i) (sx_claims sx))
    \<and> (\<forall>(token, i, now) \<in> set (sx_claims sx). \<exists>expires. (token, i, expires) \<in> sx_issued sx \<and> now < expires)
    \<and> distinct (stream_clients (sx_streams sx)) \<and> set (stream_clients (sx_streams sx)) \<subseteq> (\<lambda>(_, i, _). i) ` set (sx_claims sx)
    \<and> (\<forall>(key, s) \<in> set (sx_items sx). \<not> se_connected s \<longrightarrow> se_timer s \<and> se_client s \<notin> (\<lambda>(_, i, _). i) ` set (sx_claims sx))
    \<and> sx_opened sx \<subseteq> sx_released sx \<union> (\<lambda>(_, s). se_client s) ` set (sx_items sx) \<union> set (stream_clients (sx_streams sx))"
  using okD(1,2,4) [OF sessions.reached [OF assms]]
  unfolding items_ok_def claims_ok_def owned_def claimed_def item_clients_def set_map by blast

definition demo_created :: sessions where
  "demo_created = snd (createSerialSession \<lparr>cs_body = Inr \<lparr>ar_port = ''k'', ar_baud = 0, ar_access = Controller, ar_replay = False\<rparr>,
     cs_canceled = False, cs_found = Some \<lparr>dc_ports = [demo_port], dc_warnings = []\<rparr>, cs_can_open = True, cs_key = Some ''s'', cs_token = Some ''t'', cs_now = 0\<rparr>
     (newSerialSessions demo_idle))"

definition demo_opened :: sessions where
  "demo_opened = snd (stream_open ''s'' 5 True demo_created)"

definition demo_claimed :: sessions where
  "demo_claimed = stream_auth 0 ''s'' (AuthToken ''t'') 6 demo_opened"

lemma demo_claimed_reached: "reach fresh_sessions session_step demo_claimed"
proof -
  have "reach fresh_sessions session_step (newSerialSessions demo_idle)"
    by (rule reach_start [where start = fresh_sessions], rule fresh_sessions.intros,
        rule reach_start [where start = new_console], rule demo_idle_new)
  then have "reach fresh_sessions session_step demo_created"
    unfolding demo_created_def
    by (rule reach_move [where move = session_step], intro creates) (simp_all add: newSerialSessions_def demo_idle_def ids_left)
  then have "reach fresh_sessions session_step demo_opened"
    unfolding demo_opened_def by (rule reach_move [where move = session_step]) (rule opens)
  moreover have "0 < length (sx_streams demo_opened)" "sx_streams demo_opened ! 0 = Authenticating ''s''" by code_simp+
  ultimately show ?thesis
    unfolding demo_claimed_def by (metis authenticates reach_move)
qed

lemma serial_tokens_are_single_use_witness:
  "sx_claims demo_claimed = [(''t'', 1, 6)] \<and> (\<exists>expires. (''t'', 1, expires) \<in> sx_issued demo_claimed \<and> 6 < expires)"
proof -
  have "sx_claims demo_claimed = [(''t'', 1, 6)]" by code_simp
  with serial_tokens_are_single_use [OF demo_claimed_reached] show ?thesis by auto
qed

end
