(* ===== verification/Xsdb.thy ===== *)
theory Xsdb
  imports Net Paths JobModel
begin

text \<open>
  XSDB execution (\<open>internal/xsdb/executor.go\<close>, \<open>internal/xsdb/targets.go\<close>): the validators of the
  request, the search for the tools, the argument list, the line writer that turns the tool's output
  into log lines, and the parser of the target discovery.  The Unix build is modelled.  The host is a
  record: the environment, the working directory, \<open>exec.LookPath\<close>, \<open>os.Stat\<close> and \<open>filepath.Glob\<close>; what
  the started process prints and how it ends is an input of \<open>Run\<close> and \<open>Discover\<close>.
\<close>

subsection \<open>Validation\<close>

datatype xsdb_error =
    UrlForm | UrlHost | UrlPort
  | NotIPv4 string
  | BadTargetID | BadCableSerial | BadDeviceIndex | IndexWithoutSerial
  | ToolNotFound string | NotRegularTool | NotExecutable | CannotInspect | CannotResolve | SearchFailed
  | EntrypointMissing | RunCanceled | RunFailed
  | ScriptNotWritten | DiscoveryFailed string
  | MalformedRecord | InvalidProperty | InvalidTarget | ScannerTooLong

record xsdb_request =
  xr_entrypoint :: string
  xr_url :: string
  xr_tftp_ip :: string
  xr_board_ip :: string
  xr_target :: string
  xr_serial :: string
  xr_index :: string
  xr_folder :: string

definition hostname_char :: "char \<Rightarrow> bool" where
  "hostname_char c = (let n = (of_char c :: nat) in
     (97 \<le> n \<and> n \<le> 122) \<or> (65 \<le> n \<and> n \<le> 90) \<or> (48 \<le> n \<and> n \<le> 57) \<or> c = CHR ''-'' \<or> c = CHR ''_'')"

definition valid_label :: "string \<Rightarrow> bool" where
  "valid_label l = (l \<noteq> [] \<and> length l \<le> 63 \<and> hd l \<noteq> CHR ''-'' \<and> last l \<noteq> CHR ''-'' \<and> list_all hostname_char l)"

definition validHostname :: "string \<Rightarrow> bool" where
  "validHostname host = (length host \<le> 253 \<and> \<not> prefix ''.'' host \<and> \<not> suffix ''.'' host
     \<and> list_all valid_label (split_on CHR ''.'' host))"

definition ValidateHWServerURL :: "string \<Rightarrow> xsdb_error option" where
  "ValidateHWServerURL value =
     (if \<not> prefix ''tcp:'' value \<or> contains_any line_break_chars value then Some UrlForm
      else (case SplitHostPort (trim_prefix ''tcp:'' value) of
        None \<Rightarrow> Some UrlForm
      | Some (host, port_text) \<Rightarrow>
          if TrimSpace host = [] then Some UrlForm
          else if ParseIP host = None \<and> \<not> validHostname host then Some UrlHost
          else (case atoi port_text of
            None \<Rightarrow> Some UrlPort
          | Some n \<Rightarrow> if n < 1 \<or> n > 65535 then Some UrlPort else None)))"

definition ValidateTargetID :: "string \<Rightarrow> xsdb_error option" where
  "ValidateTargetID value = (if value = [] then None else (case atoi value of
       None \<Rightarrow> Some BadTargetID
     | Some n \<Rightarrow> if n \<le> 0 \<or> itoa n \<noteq> value then Some BadTargetID else None))"

definition ValidateTargetCableSerial :: "string \<Rightarrow> xsdb_error option" where
  "ValidateTargetCableSerial value = (if value = [] then None
     else if length value > 256 \<or> contains_any line_break_chars value then Some BadCableSerial else None)"

definition ValidateTargetDeviceIndex :: "string \<Rightarrow> xsdb_error option" where
  "ValidateTargetDeviceIndex value = (if value = [] then None else (case atoi value of
       None \<Rightarrow> Some BadDeviceIndex
     | Some n \<Rightarrow> if n < 0 \<or> itoa n \<noteq> value then Some BadDeviceIndex else None))"

definition ValidateIPv4 :: "string \<Rightarrow> string \<Rightarrow> bool \<Rightarrow> xsdb_error option" where
  "ValidateIPv4 label value optional = (if value = [] \<and> optional then None
     else (case ParseIP value of
       None \<Rightarrow> Some (NotIPv4 label)
     | Some a \<Rightarrow> if To4 a = None then Some (NotIPv4 label) else None))"

text \<open>The checks of \<open>Run\<close>, in order; the first error is returned.\<close>

definition first_some :: "'e option list \<Rightarrow> 'e option" where
  "first_some es = (case filter (\<lambda>e. e \<noteq> None) es of [] \<Rightarrow> None | e # _ \<Rightarrow> e)"

definition validate_request :: "xsdb_request \<Rightarrow> xsdb_error option" where
  "validate_request r = first_some
     [ValidateHWServerURL (xr_url r), ValidateIPv4 ''TFTP server IP'' (xr_tftp_ip r) False,
      ValidateIPv4 ''board IP'' (xr_board_ip r) True, ValidateTargetID (xr_target r),
      ValidateTargetCableSerial (xr_serial r), ValidateTargetDeviceIndex (xr_index r),
      if xr_index r \<noteq> [] \<and> xr_serial r = [] then Some IndexWithoutSerial else None]"

lemma first_some_None: "first_some es = None \<longleftrightarrow> (\<forall>e \<in> set es. e = None)"
  by (auto simp: first_some_def filter_empty_conv split: list.split dest!: filter_eq_ConsD)

subsection \<open>Finding the tools\<close>

record host =
  hs_cwd :: "string option"
  hs_env :: "string \<Rightarrow> string"
  hs_look :: "string \<Rightarrow> string option"
  hs_stat :: "string \<Rightarrow> (bool \<times> nat) option" \<comment> \<open>a regular file; its permission bits\<close>
  hs_glob :: "string \<Rightarrow> string list option"

definition clean_relative :: "string \<Rightarrow> string" where
  "clean_relative p = (let cs = fold (\<lambda>c st. if c = [] \<or> c = ''.'' then st
       else if c = ''..'' \<and> st \<noteq> [] \<and> hd st \<noteq> ''..'' then tl st else c # st) (split_on slash p) [] in
     if cs = [] then ''.'' else join_with slash (rev cs))"

definition clean_path :: "string \<Rightarrow> string" where
  "clean_path p = (if prefix ''/'' p then clean_rooted p else clean_relative p)"

definition join_elems :: "string list \<Rightarrow> string" where
  "join_elems es = (case dropWhile (\<lambda>e. e = []) es of [] \<Rightarrow> [] | es' \<Rightarrow> clean_path (join_with slash es'))"

definition abs_path :: "host \<Rightarrow> string \<Rightarrow> string option" where
  "abs_path h p = (if prefix ''/'' p then Some (clean_rooted p)
     else map_option (\<lambda>d. join_elems [d, p]) (hs_cwd h))"

definition executableName :: "string \<Rightarrow> string" where "executableName name = name"

definition defaultInstallRoots :: "string list" where "defaultInstallRoots = [''/opt/Xilinx'']"

definition check_tool :: "host \<Rightarrow> string \<Rightarrow> xsdb_error + string" where
  "check_tool h candidate = (case abs_path h candidate of
       None \<Rightarrow> Inl CannotResolve
     | Some absolute \<Rightarrow> (case hs_stat h absolute of
         None \<Rightarrow> Inl CannotInspect
       | Some (regular, perm) \<Rightarrow>
           if \<not> regular then Inl NotRegularTool
           else if and perm 0x49 = 0 then Inl NotExecutable else Inr absolute))"

definition resolveCandidate :: "host \<Rightarrow> string \<Rightarrow> xsdb_error + string" where
  "resolveCandidate h candidate = (if \<not> prefix ''/'' candidate \<and> slash \<notin> set candidate
     then (case hs_look h candidate of None \<Rightarrow> Inl (ToolNotFound candidate) | Some p \<Rightarrow> check_tool h p)
     else check_tool h candidate)"

text \<open>\<open>filepath.Rel\<close> of two absolute paths, as its components.\<close>

fun rel_comps :: "string list \<Rightarrow> string list \<Rightarrow> string list" where
  "rel_comps (b # bs) (t # ts) = (if b = t then rel_comps bs ts else map (\<lambda>_. ''..'') (b # bs) @ t # ts)"
| "rel_comps bs ts = map (\<lambda>_. ''..'') bs @ ts"

definition relative_comps :: "string \<Rightarrow> string \<Rightarrow> string list" where
  "relative_comps base p = (case rel_comps (path_comps base) (path_comps p) of [] \<Rightarrow> [''.''] | cs \<Rightarrow> cs)"

definition version_of :: "string \<Rightarrow> int list option" where
  "version_of component = (let parts = split_on CHR ''.'' component in
     if length parts < 2 then None else all_some (map atoi parts))"

fun first_version :: "string list \<Rightarrow> int list" where
  "first_version [] = []"
| "first_version (c # cs) = (case version_of c of None \<Rightarrow> first_version cs | Some v \<Rightarrow> v)"

definition candidateVersion :: "string \<Rightarrow> string \<Rightarrow> int list" where
  "candidateVersion candidate base = first_version (relative_comps base candidate)"

fun compareVersions :: "int list \<Rightarrow> int list \<Rightarrow> int" where
  "compareVersions [] [] = 0"
| "compareVersions (a # as) [] = (if a < 0 then -1 else if a > 0 then 1 else compareVersions as [])"
| "compareVersions [] (b # bs) = (if 0 < b then -1 else if 0 > b then 1 else compareVersions [] bs)"
| "compareVersions (a # as) (b # bs) = (if a < b then -1 else if a > b then 1 else compareVersions as bs)"

definition tool_patterns :: "string \<Rightarrow> string \<Rightarrow> string list" where
  "tool_patterns base name = map (\<lambda>es. join_elems (base # es))
     [[''Vitis'', ''*'', ''bin'', name], [''*'', ''Vitis'', ''bin'', name],
      [''Vivado'', ''*'', ''bin'', name], [''*'', ''Vivado'', ''bin'', name],
      [''HWSRVR'', ''*'', ''bin'', name], [''*'', ''HWSRVR'', ''bin'', name], [''bin'', name]]"

text \<open>The matches of the patterns, each once, that are usable tools.\<close>

definition usable :: "host \<Rightarrow> string \<Rightarrow> bool" where
  "usable h candidate = (case resolveCandidate h candidate of Inl _ \<Rightarrow> False | Inr _ \<Rightarrow> True)"

definition add_candidate :: "host \<Rightarrow> string \<Rightarrow> string list \<Rightarrow> string list" where
  "add_candidate h candidate found =
     (if candidate \<in> set found \<or> \<not> usable h candidate then found else found @ [candidate])"

fun collect_candidates :: "host \<Rightarrow> string list \<Rightarrow> string list \<Rightarrow> string list option" where
  "collect_candidates h [] found = Some found"
| "collect_candidates h (p # ps) found = (case hs_glob h p of
       None \<Rightarrow> None
     | Some ms \<Rightarrow> collect_candidates h ps (fold (add_candidate h) ms found))"

text \<open>\<open>sort.SliceStable\<close> with the newest version first.\<close>

fun insert_stable :: "('a \<Rightarrow> 'a \<Rightarrow> bool) \<Rightarrow> 'a \<Rightarrow> 'a list \<Rightarrow> 'a list" where
  "insert_stable before x [] = [x]"
| "insert_stable before x (y # ys) = (if before y x then y # insert_stable before x ys else x # y # ys)"

definition stable_sort :: "('a \<Rightarrow> 'a \<Rightarrow> bool) \<Rightarrow> 'a list \<Rightarrow> 'a list" where
  "stable_sort before xs = foldr (insert_stable before) xs []"

definition newer :: "string \<Rightarrow> string \<Rightarrow> string \<Rightarrow> bool" where
  "newer base a b = (compareVersions (candidateVersion a base) (candidateVersion b base) > 0)"

definition findToolInInstallRoot :: "host \<Rightarrow> string \<Rightarrow> string \<Rightarrow> xsdb_error + string" where
  "findToolInInstallRoot h base tool = (case collect_candidates h (tool_patterns base (executableName tool)) [] of
       None \<Rightarrow> Inl SearchFailed
     | Some candidates \<Rightarrow> (case stable_sort (newer base) candidates of
         [] \<Rightarrow> Inl (ToolNotFound tool)
       | c # _ \<Rightarrow> (case abs_path h c of None \<Rightarrow> Inl CannotResolve | Some p \<Rightarrow> Inr p)))"

fun first_right :: "('e + 'a) list \<Rightarrow> 'a option" where
  "first_right [] = None"
| "first_right (Inl _ # rs) = first_right rs"
| "first_right (Inr a # rs) = Some a"

definition search_tool :: "host \<Rightarrow> string list \<Rightarrow> string \<Rightarrow> xsdb_error + string" where
  "search_tool h roots name =
     (case first_right (map (\<lambda>base. resolveCandidate h (join_elems [base, ''bin'', executableName name]))
        (filter (\<lambda>base. base \<noteq> []) (map (hs_env h) [''XILINX_VITIS'', ''XILINX_VIVADO'']))) of
       Some p \<Rightarrow> Inr p
     | None \<Rightarrow> (case first_right (map (\<lambda>base. findToolInInstallRoot h base name) roots) of
         Some p \<Rightarrow> Inr p
       | None \<Rightarrow> Inl (ToolNotFound name)))"

definition resolveXilinxTool :: "host \<Rightarrow> string \<Rightarrow> string \<Rightarrow> string \<Rightarrow> string list \<Rightarrow> xsdb_error + string" where
  "resolveXilinxTool h path override name roots =
     (if path \<noteq> [] then resolveCandidate h path
      else if hs_env h override \<noteq> [] then resolveCandidate h (hs_env h override)
      else (case hs_look h (executableName name) of
        Some p \<Rightarrow> (case abs_path h p of None \<Rightarrow> Inl CannotResolve | Some a \<Rightarrow> Inr a)
      | None \<Rightarrow> search_tool h roots name))"

definition Resolve :: "host \<Rightarrow> string \<Rightarrow> xsdb_error + string" where
  "Resolve h path = resolveXilinxTool h path ''MPS_XSDB'' ''xsdb'' defaultInstallRoots"

definition ResolveHWServer :: "host \<Rightarrow> string \<Rightarrow> xsdb_error + string" where
  "ResolveHWServer h path = resolveXilinxTool h path ''MPS_HW_SERVER'' ''hw_server'' defaultInstallRoots"

subsection \<open>The arguments and the output of a run\<close>

definition arguments :: "string \<Rightarrow> xsdb_request \<Rightarrow> string list" where
  "arguments entrypoint r = [entrypoint, xr_url r, xr_tftp_ip r]
     @ (if xr_board_ip r \<noteq> [] \<or> xr_target r \<noteq> [] \<or> xr_serial r \<noteq> [] then [xr_board_ip r] else [])
     @ (if xr_target r \<noteq> [] \<or> xr_serial r \<noteq> [] then [xr_target r] else [])
     @ (if xr_serial r \<noteq> [] then [xr_serial r] else [])
     @ (if xr_index r \<noteq> [] then [xr_index r] else [])"

abbreviation newline :: char where "newline \<equiv> CHR 0x0A"
abbreviation carriage_return :: char where "carriage_return \<equiv> CHR 0x0D"

record line_writer =
  lw_data :: string
  lw_emit :: bool \<comment> \<open>\<open>emit\<close> is not nil\<close>
  lw_lines :: "string list" \<comment> \<open>what was emitted\<close>

definition newLineWriter :: "bool \<Rightarrow> line_writer" where
  "newLineWriter emitting = \<lparr>lw_data = [], lw_emit = emitting, lw_lines = []\<rparr>"

definition emitBuffered :: "line_writer \<Rightarrow> line_writer" where
  "emitBuffered w = w\<lparr>lw_data := [],
     lw_lines := (if lw_emit w then lw_lines w @ [trim_suffix [carriage_return] (lw_data w)] else lw_lines w)\<rparr>"

text \<open>\<open>Write\<close>: the part before the first newline completes the buffered line.\<close>

function write_lines :: "string \<Rightarrow> line_writer \<Rightarrow> line_writer" where
  "write_lines data w = (if data = [] then w else (case index_of newline data of
       None \<Rightarrow> w\<lparr>lw_data := lw_data w @ data\<rparr>
     | Some i \<Rightarrow> write_lines (drop (i + 1) data) (emitBuffered (w\<lparr>lw_data := lw_data w @ take i data\<rparr>))))"
  by auto
termination by (relation "measure (\<lambda>(data, w). length data)") auto

declare write_lines.simps [simp del]

definition Flush :: "line_writer \<Rightarrow> line_writer" where
  "Flush w = (if length (lw_data w) > 0 then emitBuffered w else w)"

record process =
  ps_chunks :: "string list" \<comment> \<open>what it writes, as the pipe delivers it\<close>
  ps_failed :: bool
  ps_canceled :: bool

definition Run :: "host \<Rightarrow> string \<Rightarrow> bool \<Rightarrow> process \<Rightarrow> xsdb_request \<Rightarrow>
    xsdb_error option \<times> string list \<times> string list" where
  "Run h path emitting proc r = (case Resolve h path of
       Inl e \<Rightarrow> (Some e, [], [])
     | Inr tool \<Rightarrow> (case validate_request r of
         Some e \<Rightarrow> (Some e, [], [])
       | None \<Rightarrow> (case abs_path h (xr_entrypoint r) of
           None \<Rightarrow> (Some CannotResolve, [], [])
         | Some entrypoint \<Rightarrow> (case hs_stat h entrypoint of
             None \<Rightarrow> (Some EntrypointMissing, [], [])
           | Some (regular, _) \<Rightarrow>
               if \<not> regular then (Some EntrypointMissing, [], [])
               else (let w = Flush (fold write_lines (ps_chunks proc) (newLineWriter emitting));
                         started = (if emitting then [''Starting XSDB: '' @ tool] else []) in
                 (if ps_failed proc then (if ps_canceled proc then Some RunCanceled else Some RunFailed) else None,
                  tool # arguments entrypoint r, started @ lw_lines w))))))"

subsection \<open>Target discovery\<close>

record target =
  tg_key :: string
  tg_name :: string
  tg_index :: string
  tg_device :: string
  tg_cable :: string
  tg_serial :: string

definition targetMarker :: string where "targetMarker = ''MNC_XSDB_TARGET''"

abbreviation tab :: char where "tab \<equiv> CHR 0x09"

function utf8_valid :: "nat list \<Rightarrow> bool" where
  "utf8_valid bs = (if bs = [] then True else if rune_len bs = 0 then False else utf8_valid (drop (rune_len bs) bs))"
  by auto
termination by (relation "measure length") auto

declare utf8_valid.simps [simp del]

definition decode_property :: "string \<Rightarrow> string option" where
  "decode_property s = Option.bind (hex_decode s) (\<lambda>d. if utf8_valid (codes d) then Some d else None)"

definition parse_record :: "string list \<Rightarrow> xsdb_error + target" where
  "parse_record fs = (if length fs \<noteq> 7 then Inl MalformedRecord
     else (case all_some (map decode_property (tl fs)) of
       None \<Rightarrow> Inl InvalidProperty
     | Some vs \<Rightarrow> (case ValidateTargetID (vs ! 0) of
         Some e \<Rightarrow> Inl InvalidTarget
       | None \<Rightarrow> Inr \<lparr>tg_key = vs ! 0, tg_name = vs ! 1, tg_index = vs ! 2, tg_device = vs ! 3,
           tg_cable = vs ! 4, tg_serial = vs ! 5\<rparr>)))"

text \<open>\<open>bufio.Scanner\<close>: the lines without their terminator, none after a final newline; a line of
  64 KiB or more does not fit the buffer and ends the scan with an error.\<close>

definition scan_lines :: "string \<Rightarrow> string list" where
  "scan_lines s = (let ls = split_on newline s in if last ls = [] then butlast ls else ls)"

definition maxScanToken :: nat where "maxScanToken = 64 * 1024"

fun parse_lines :: "string list \<Rightarrow> target list \<Rightarrow> xsdb_error + target list" where
  "parse_lines [] ts = Inr ts"
| "parse_lines (l # ls) ts =
     (if length l \<ge> maxScanToken then Inl ScannerTooLong
      else (let fs = split_on tab (trim_suffix [carriage_return] (trim_suffix [carriage_return] l)) in
        if hd fs \<noteq> targetMarker then parse_lines ls ts
        else (case parse_record fs of
          Inl e \<Rightarrow> Inl e
        | Inr t \<Rightarrow> parse_lines ls (ts @ [t]))))"

definition parseTargets :: "string \<Rightarrow> xsdb_error + target list" where
  "parseTargets output = parse_lines (scan_lines output) []"

text \<open>The line that the discovery script prints for a target.\<close>

definition target_line :: "target \<Rightarrow> string" where
  "target_line t = targetMarker @ tab # join_with tab (map hex_encode
     [tg_key t, tg_name t, tg_index t, tg_device t, tg_cable t, tg_serial t])"

definition failure_message :: "string \<Rightarrow> string" where
  "failure_message output = (let m = TrimSpace output in
     if length m > 4096 then drop (length m - 4096) m else m)"

definition Discover :: "host \<Rightarrow> string \<Rightarrow> bool \<Rightarrow> string \<Rightarrow> bool \<Rightarrow> string \<Rightarrow> xsdb_error + target list" where
  "Discover h path script_written url command_failed output = (case ValidateHWServerURL url of
       Some e \<Rightarrow> Inl e
     | None \<Rightarrow> (case Resolve h path of
         Inl e \<Rightarrow> Inl e
       | Inr _ \<Rightarrow> if \<not> script_written then Inl ScriptNotWritten
           else if command_failed then Inl (DiscoveryFailed (failure_message output))
           else parseTargets output))"

subsection \<open>The line writer\<close>

definition log_lines :: "string \<Rightarrow> string list" where
  "log_lines s = map (trim_suffix [carriage_return]) (scan_lines s)"

lemma split_on_chunks: "split_on c (xs @ ys) = butlast (split_on c xs) @ split_on c (last (split_on c xs) @ ys)"
proof (induction xs)
  case (Cons x xs)
  then show ?case by (cases "split_on c xs") (auto split: list.split)
qed simp

lemma index_of_split: "index_of c s = None \<Longrightarrow> c \<notin> set s"
  "index_of c s = Some i \<Longrightarrow> i < length s \<and> s = take i s @ c # drop (i + 1) s \<and> c \<notin> set (take i s)"
proof -
  assume "index_of c s = None"
  then have "length s \<le> length (takeWhile (\<lambda>x. x \<noteq> c) s)"
    by (simp add: index_of_def Let_def split: if_splits)
  then have "takeWhile (\<lambda>x. x \<noteq> c) s = s"
    using takeWhile_eq_take [of "\<lambda>x. x \<noteq> c" s] take_all [of s "length (takeWhile (\<lambda>x. x \<noteq> c) s)"] by metis
  then have "\<forall>x \<in> set s. x \<noteq> c" by (simp only: takeWhile_eq_all_conv)
  then show "c \<notin> set s" by blast
next
  assume "index_of c s = Some i"
  then have i: "i = length (takeWhile (\<lambda>x. x \<noteq> c) s)" "i < length s"
    by (auto simp: index_of_def Let_def split: if_splits)
  with nth_length_takeWhile [of "\<lambda>x. x \<noteq> c" s] have "s ! i = c" by simp
  moreover have "take i s = takeWhile (\<lambda>x. x \<noteq> c) s" unfolding i(1) by (rule takeWhile_eq_take [symmetric])
  then have "c \<notin> set (take i s)" using set_takeWhileD [of _ "\<lambda>x. x \<noteq> c" s] by auto
  moreover have "s = take i s @ s ! i # drop (i + 1) s" using id_take_nth_drop [OF i(2)] by simp
  ultimately show "i < length s \<and> s = take i s @ c # drop (i + 1) s \<and> c \<notin> set (take i s)"
    using i(2) by simp
qed

lemma write_lines_state:
  "newline \<notin> set (lw_data w) \<Longrightarrow> lw_emit w \<Longrightarrow>
    write_lines data w = w\<lparr>lw_data := last (split_on newline (lw_data w @ data)),
      lw_lines := lw_lines w @ map (trim_suffix [carriage_return]) (butlast (split_on newline (lw_data w @ data)))\<rparr>"
proof (induction data w rule: write_lines.induct)
  case (1 data w)
  show ?case
  proof (cases "data = []")
    case True
    with 1 show ?thesis by (simp add: write_lines.simps [of "[]"] split_on_id)
  next
    case False
    show ?thesis
    proof (cases "index_of newline data")
      case None
      with index_of_split(1) [OF this] 1 False show ?thesis
        by (simp add: write_lines.simps [of data] split_on_id)
    next
      case (Some i)
      note sp = index_of_split(2) [OF Some]
      let ?w = "emitBuffered (w\<lparr>lw_data := lw_data w @ take i data\<rparr>)"
      have w: "lw_data ?w = []" "lw_emit ?w"
        "lw_lines ?w = lw_lines w @ [trim_suffix [carriage_return] (lw_data w @ take i data)]"
        using 1(3) by (simp_all add: emitBuffered_def)
      have "newline \<notin> set (lw_data w @ take i data)" using 1(2) sp by simp
      then have "split_on newline (lw_data w @ data) = (lw_data w @ take i data) # split_on newline (drop (i + 1) data)"
        using sp split_on_append [of newline "lw_data w @ take i data" "drop (i + 1) data"] by (metis append.assoc)
      moreover have "write_lines data w = write_lines (drop (i + 1) data) ?w"
        using False Some by (simp add: write_lines.simps [of data])
      moreover note 1(1) [OF False Some] w
      ultimately show ?thesis by (simp add: emitBuffered_def)
    qed
  qed
qed

lemma write_chunks_state:
  "newline \<notin> set (lw_data w) \<Longrightarrow> lw_emit w \<Longrightarrow>
    fold write_lines chunks w = w\<lparr>lw_data := last (split_on newline (lw_data w @ concat chunks)),
      lw_lines := lw_lines w @ map (trim_suffix [carriage_return]) (butlast (split_on newline (lw_data w @ concat chunks)))\<rparr>"
proof (induction chunks arbitrary: w)
  case Nil
  then show ?case by (simp add: split_on_id)
next
  case (Cons d ds)
  let ?w = "write_lines d w"
  note w = write_lines_state [OF Cons.prems, of d]
  have "newline \<notin> set (last (split_on newline (lw_data w @ d)))"
    using split_on_parts [of _ newline "lw_data w @ d"] by (meson last_in_set split_on_not_Nil)
  then have "newline \<notin> set (lw_data ?w)" "lw_emit ?w" using Cons.prems by (simp_all add: w)
  note ih = Cons.IH [OF this]
  have sp: "split_on newline ((lw_data w @ d) @ concat ds) = butlast (split_on newline (lw_data w @ d))
      @ split_on newline (last (split_on newline (lw_data w @ d)) @ concat ds)"
    by (rule split_on_chunks)
  show ?case using ih sp by (simp add: w butlast_append)
qed

lemma silent_writer: "\<not> lw_emit w \<Longrightarrow> lw_lines (write_lines data w) = lw_lines w \<and> \<not> lw_emit (write_lines data w)"
proof (induction data w rule: write_lines.induct)
  case (1 data w)
  then show ?case
    by (cases "index_of newline data") (simp_all add: write_lines.simps [of data] emitBuffered_def)
qed

text \<open>However the pipe cuts the output of the tool into chunks, the emitted lines are those of
  the whole output: its lines without their terminators, the last one also when it is unterminated,
  and none after a final newline.\<close>

theorem output_is_split_into_lines:
  "lw_lines (Flush (fold write_lines chunks (newLineWriter True))) = log_lines (concat chunks)"
proof -
  let ?ps = "split_on newline (concat chunks)"
  have "fold write_lines chunks (newLineWriter True) = (newLineWriter True)\<lparr>lw_data := last ?ps,
      lw_lines := map (trim_suffix [carriage_return]) (butlast ?ps)\<rparr>"
    using write_chunks_state [of "newLineWriter True" chunks] by (simp add: newLineWriter_def)
  then have f: "lw_lines (Flush (fold write_lines chunks (newLineWriter True))) =
      (if last ?ps = [] then map (trim_suffix [carriage_return]) (butlast ?ps)
       else map (trim_suffix [carriage_return]) (butlast ?ps) @ [trim_suffix [carriage_return] (last ?ps)])"
    by (simp add: Flush_def emitBuffered_def newLineWriter_def)
  have m: "map f xs = map f (butlast xs) @ [f (last xs)]" if "xs \<noteq> []" for f :: "string \<Rightarrow> string" and xs
    using that by (cases xs rule: rev_cases) auto
  show ?thesis unfolding f log_lines_def scan_lines_def Let_def using m [of ?ps] by simp
qed

subsection \<open>The newest tool\<close>

lemma compare_sym: "compareVersions b a = - compareVersions a b"
  by (induction a b rule: compareVersions.induct) auto

lemma compare_range: "compareVersions a b \<in> {-1, 0, 1}"
  by (induction a b rule: compareVersions.induct) auto

lemma compare_trans: "compareVersions a b \<le> 0 \<Longrightarrow> compareVersions b c \<le> 0 \<Longrightarrow> compareVersions a c \<le> 0"
proof (induction a b arbitrary: c rule: compareVersions.induct)
  case 1
  then show ?case by simp
next
  case (2 x xs)
  show ?case
  proof (cases c)
    case (Cons z zs)
    with 2(2,3) 2(1) [of zs] show ?thesis by (simp split: if_splits)
  qed (use 2(2) in simp)
next
  case (3 y ys)
  show ?case
  proof (cases c)
    case (Cons z zs)
    with 3(2,3) 3(1) [of zs] show ?thesis by (simp split: if_splits)
  qed simp
next
  case (4 x xs y ys)
  show ?case
  proof (cases c)
    case Nil
    with 4(2,3) 4(1) [of "[]"] show ?thesis by (simp split: if_splits)
  next
    case (Cons z zs)
    with 4(2,3) 4(1) [of zs] show ?thesis by (simp split: if_splits)
  qed
qed

lemma newer_total: "\<not> newer base a b \<Longrightarrow> \<not> newer base b c \<Longrightarrow> \<not> newer base a c"
  unfolding newer_def using compare_trans by (meson linorder_not_less)

lemma newer_asym: "newer base a b \<Longrightarrow> \<not> newer base b a"
  unfolding newer_def using compare_sym by (metis less_le_not_le neg_less_0_iff_less)

lemma hd_insert_stable: "hd (insert_stable before x ys) = (if ys \<noteq> [] \<and> before (hd ys) x then hd ys else x)"
  by (cases ys) auto

lemma insert_stable_not_Nil [simp]: "insert_stable before x ys \<noteq> []"
  by (cases ys) auto

lemma stable_sort_Nil [simp]: "stable_sort before [] = []" "stable_sort before xs = [] \<longleftrightarrow> xs = []"
  by (simp add: stable_sort_def) (cases xs, simp_all add: stable_sort_def)

lemma hd_stable_sort:
  assumes nt: "\<And>a b c. \<not> before a b \<Longrightarrow> \<not> before b c \<Longrightarrow> \<not> before a c"
    and as: "\<And>a b. before a b \<Longrightarrow> \<not> before b a"
  shows "xs \<noteq> [] \<Longrightarrow> \<exists>ps b qs. xs = ps @ b # qs \<and> hd (stable_sort before xs) = b
    \<and> (\<forall>p \<in> set ps. before b p) \<and> (\<forall>q \<in> set qs. \<not> before q b)"
proof (induction xs)
  case (Cons x xs)
  have st: "stable_sort before (x # xs) = insert_stable before x (stable_sort before xs)"
    by (simp add: stable_sort_def)
  show ?case
  proof (cases "xs = []")
    case True
    then show ?thesis unfolding st hd_insert_stable by (intro exI [of _ "[]"] exI [of _ x]) simp
  next
    case False
    from Cons.IH [OF this] obtain ps b qs where ih: "xs = ps @ b # qs" "hd (stable_sort before xs) = b"
      "\<forall>p \<in> set ps. before b p" "\<forall>q \<in> set qs. \<not> before q b" by blast
    show ?thesis
    proof (cases "before b x")
      case True
      with ih False have "x # xs = (x # ps) @ b # qs \<and> hd (stable_sort before (x # xs)) = b
          \<and> (\<forall>p \<in> set (x # ps). before b p) \<and> (\<forall>q \<in> set qs. \<not> before q b)"
        unfolding st hd_insert_stable by simp
      then show ?thesis by blast
    next
      case nb: False
      have "\<not> before q b" if "q \<in> set xs" for q
        using that ih(1,3,4) nb as by (metis Un_iff set_ConsD set_append)
      then have "\<not> before q x" if "q \<in> set xs" for q
        using nt [OF _ nb] that by blast
      with nb ih(2) False have "x # xs = [] @ x # xs \<and> hd (stable_sort before (x # xs)) = x
          \<and> (\<forall>p \<in> set []. before x p) \<and> (\<forall>q \<in> set xs. \<not> before q x)"
        unfolding st hd_insert_stable by simp
      then show ?thesis by blast
    qed
  qed
qed simp

lemma fold_add_candidate:
  "set (fold (add_candidate h) ms found) = set found \<union> {m \<in> set ms. usable h m}"
  by (induction ms arbitrary: found) (auto simp: add_candidate_def)

lemma collected:
  "collect_candidates h ps found = Some cs \<Longrightarrow>
    set cs = set found \<union> {m. usable h m \<and> (\<exists>p \<in> set ps. \<exists>ms. hs_glob h p = Some ms \<and> m \<in> set ms)}"
  by (induction h ps found rule: collect_candidates.induct)
    (auto simp: fold_add_candidate split: option.splits)

definition offered :: "host \<Rightarrow> string \<Rightarrow> string \<Rightarrow> string \<Rightarrow> bool" where
  "offered h base tool c \<longleftrightarrow> usable h c
     \<and> (\<exists>p \<in> set (tool_patterns base (executableName tool)). \<exists>ms. hs_glob h p = Some ms \<and> c \<in> set ms)"


subsection \<open>Discovery reads back what the script prints\<close>

lemma hex_char_not_tab: "c \<in> set (hex_encode s) \<Longrightarrow> c \<noteq> tab \<and> c \<noteq> newline \<and> c \<noteq> carriage_return"
  using hex_encode_printable [of c s] by (auto simp: printable_def)

lemma split_target_line:
  "split_on tab (target_line t) = targetMarker # map hex_encode
     [tg_key t, tg_name t, tg_index t, tg_device t, tg_cable t, tg_serial t]"
proof -
  have "tab \<notin> set targetMarker" by (simp add: targetMarker_def)
  moreover have "split_on tab (join_with tab (map hex_encode vs)) = map hex_encode vs" if "vs \<noteq> []" for vs
    using that hex_char_not_tab by (intro split_join) auto
  moreover  note this [of "[tg_key t, tg_name t, tg_index t, tg_device t, tg_cable t, tg_serial t]", simplified]
  ultimately show ?thesis unfolding target_line_def by (simp add: split_on_append)
qed

definition target_ok :: "target \<Rightarrow> bool" where
  "target_ok t \<longleftrightarrow> ValidateTargetID (tg_key t) = None \<and> length (target_line t) + 1 < maxScanToken
     \<and> list_all (\<lambda>v. utf8_valid (codes v)) [tg_key t, tg_name t, tg_index t, tg_device t, tg_cable t, tg_serial t]"

lemma parse_target_record: "target_ok t \<Longrightarrow> parse_record (split_on tab (target_line t)) = Inr t"
  by (simp add: split_target_line parse_record_def decode_property_def hex_decode_encode target_ok_def)

lemma target_line_chars: "c \<in> set (target_line t) \<Longrightarrow> c \<noteq> newline \<and> c \<noteq> carriage_return"
  unfolding target_line_def by (auto simp: targetMarker_def dest: hex_char_not_tab)

text \<open>Other output lines, between the records: short, and not starting with the marker field.\<close>

definition other_line :: "string \<Rightarrow> bool" where
  "other_line l \<longleftrightarrow> newline \<notin> set l \<and> length l < maxScanToken
     \<and> hd (split_on tab (trim_suffix [carriage_return] (trim_suffix [carriage_return] l))) \<noteq> targetMarker"

fun printed :: "string + target \<Rightarrow> string" where
  "printed (Inl l) = l"
| "printed (Inr t) = target_line t"

fun records :: "(string + target) list \<Rightarrow> target list" where
  "records [] = []"
| "records (Inl l # is) = records is"
| "records (Inr t # is) = t # records is"

definition item_ok :: "string + target \<Rightarrow> bool" where
  "item_ok i \<longleftrightarrow> (case i of Inl l \<Rightarrow> other_line l | Inr t \<Rightarrow> target_ok t)"

lemma split_terminated: "(\<And>l. l \<in> set ls \<Longrightarrow> c \<notin> set l) \<Longrightarrow> split_on c (concat (map (\<lambda>l. l @ [c]) ls)) = ls @ [[]]"
  by (induction ls) (simp_all add: split_on_append)

lemma trim_cr: "carriage_return \<notin> set l \<Longrightarrow> trim_suffix [carriage_return] l = l"
  by (auto simp: trim_suffix_def suffix_def)

lemma trim_cr2: "carriage_return \<notin> set l \<Longrightarrow> trim_suffix [carriage_return] (l @ [carriage_return]) = l"
  by (simp add: trim_suffix_def)

lemma parse_printed:
  assumes "list_all item_ok is" "eol = [] \<or> eol = [carriage_return]"
  shows "parse_lines (map (\<lambda>i. case i of Inl l \<Rightarrow> l | Inr t \<Rightarrow> target_line t @ eol) is) ts = Inr (ts @ records is)"
  using assms(1)
proof (induction "is" arbitrary: ts rule: records.induct)
  case (2 l "is")
  then show ?case by (simp add: item_ok_def other_line_def Let_def)
next
  case (3 t "is")
  have ok: "target_ok t" using 3(2) by (simp add: item_ok_def)
  have cr: "carriage_return \<notin> set (target_line t)" using target_line_chars by blast
  have "trim_suffix [carriage_return] (trim_suffix [carriage_return] (target_line t @ eol)) = target_line t"
    using assms(2) trim_cr [OF cr] trim_cr2 [OF cr] by auto
  moreover have "length (target_line t @ eol) < maxScanToken"
    using ok assms(2) by (auto simp: target_ok_def)
  moreover have "hd (split_on tab (target_line t)) = targetMarker" by (simp add: split_target_line)
  ultimately show ?case using 3 parse_target_record [OF ok] by (simp add: Let_def)
qed simp

text \<open>C37: a discovery whose output holds target records among other lines, with Unix or Windows line
  ends, returns exactly the printed targets in order, whatever text their properties hold.\<close>

theorem targets_roundtrip:
  assumes "list_all item_ok is" "eol = [] \<or> eol = [carriage_return]"
  shows "parseTargets (concat (map (\<lambda>i. (case i of Inl l \<Rightarrow> l | Inr t \<Rightarrow> target_line t @ eol) @ [newline]) is))
    = Inr (records is)"
proof -
  let ?ls = "map (\<lambda>i. case i of Inl l \<Rightarrow> l | Inr t \<Rightarrow> target_line t @ eol) is"
  have "newline \<notin> set l" if "l \<in> set ?ls" for l
    using that assms target_line_chars by (fastforce simp: list_all_iff item_ok_def other_line_def split: sum.splits)
  then have sp: "split_on newline (concat (map (\<lambda>l. l @ [newline]) ?ls)) = ?ls @ [[]]"
    by (rule split_terminated)
  have "scan_lines (concat (map (\<lambda>l. l @ [newline]) ?ls)) = ?ls"
    unfolding scan_lines_def Let_def sp by simp
  then show ?thesis
    using parse_printed [OF assms, of "[]"] by (simp add: parseTargets_def comp_def)
qed

subsection \<open>The arguments determine the selection\<close>

text \<open>The loader script can tell every argument: two accepted requests with the same argument
  list agree in all that the list carries.\<close>

theorem arguments_injective:
  assumes "validate_request r = None" "validate_request s = None" "arguments e r = arguments e' s"
  shows "e = e' \<and> xr_url r = xr_url s \<and> xr_tftp_ip r = xr_tftp_ip s \<and> xr_board_ip r = xr_board_ip s
    \<and> xr_target r = xr_target s \<and> xr_serial r = xr_serial s \<and> xr_index r = xr_index s"
proof -
  have "xr_index r \<noteq> [] \<longrightarrow> xr_serial r \<noteq> []" "xr_index s \<noteq> [] \<longrightarrow> xr_serial s \<noteq> []"
    using assms(1,2) by (auto simp: validate_request_def first_some_None split: if_splits)
  with assms(3) show ?thesis by (auto simp: arguments_def split: if_splits)
qed

text \<open>A sample host: two Vivado versions and one old Vitis below the install root.\<close>

definition sample_host :: host where
  "sample_host = \<lparr>hs_cwd = Some ''/w'', hs_env = (\<lambda>_. []), hs_look = (\<lambda>_. None), hs_stat = (\<lambda>_. Some (True, 73)),
     hs_glob = (\<lambda>p. if p = ''/x/Vivado/*/bin/t'' then Some [''/x/Vivado/2022.2/bin/t'', ''/x/Vivado/2023.1/bin/t'']
       else if p = ''/x/Vitis/*/bin/t'' then Some [''/x/Vitis/2019.2/bin/t''] else Some [])\<rparr>"


definition sample_target :: target where
  "sample_target = \<lparr>tg_key = ''3'', tg_name = ''PSU'', tg_index = ''0'', tg_device = [tab, newline], tg_cable = [], tg_serial = ''X''\<rparr>"

lemma targets_roundtrip_witness:
  "parseTargets (''hello'' @ [newline] @ target_line sample_target @ [carriage_return, newline]) = Inr [sample_target]"
proof -
  have "length (target_line sample_target) < 50" by code_simp
  moreover have "ValidateTargetID (tg_key sample_target) = None
      \<and> list_all (\<lambda>v. utf8_valid (codes v)) [tg_key sample_target, tg_name sample_target, tg_index sample_target,
        tg_device sample_target, tg_cable sample_target, tg_serial sample_target]" by code_simp
  moreover have "hd (split_on tab (trim_suffix [carriage_return] (trim_suffix [carriage_return] ''hello''))) \<noteq> targetMarker"
    by code_simp
  ultimately have "list_all item_ok [Inl ''hello'', Inr sample_target]"
    by (simp add: item_ok_def target_ok_def other_line_def maxScanToken_def)
  from targets_roundtrip [OF this, of "[carriage_return]"] show ?thesis by simp
qed

definition sample_xsdb_request :: xsdb_request where
  "sample_xsdb_request = \<lparr>xr_entrypoint = ''/a/l.tcl'', xr_url = ''tcp:127.0.0.1:3121'', xr_tftp_ip = ''10.0.0.1'',
     xr_board_ip = [], xr_target = ''2'', xr_serial = ''X'', xr_index = ''0'', xr_folder = []\<rparr>"

lemma arguments_injective_witness:
  "arguments ''/a'' sample_xsdb_request = [''/a'', ''tcp:127.0.0.1:3121'', ''10.0.0.1'', [], ''2'', ''X'', ''0'']
   \<and> xr_target sample_xsdb_request = xr_target (sample_xsdb_request\<lparr>xr_folder := ''/f''\<rparr>)"
proof
  have v: "validate_request sample_xsdb_request = None" by code_simp
  have w: "validate_request (sample_xsdb_request\<lparr>xr_folder := ''/f''\<rparr>) = None" by code_simp
  show a: "arguments ''/a'' sample_xsdb_request = [''/a'', ''tcp:127.0.0.1:3121'', ''10.0.0.1'', [], ''2'', ''X'', ''0'']"
    by code_simp
  have "arguments ''/a'' sample_xsdb_request = arguments ''/a'' (sample_xsdb_request\<lparr>xr_folder := ''/f''\<rparr>)"
    by (simp add: arguments_def)
  from arguments_injective [OF v w this]
  show "xr_target sample_xsdb_request = xr_target (sample_xsdb_request\<lparr>xr_folder := ''/f''\<rparr>)" by blast
qed

end
