(* ===== verification/Runner.thy ===== *)
theory Runner
  imports Xsdb Tftp Store SerialModel
begin

text \<open>
  The Xilinx JTAG runner (\<open>internal/runner/xilinx.go\<close>): the checks of a request against an artifact,
  the files that must be transferred, the monitor of the transfers, and the course of \<open>Run\<close>.  The
  outside is the input record \<open>run_env\<close>: the host and the process of \<open>Xsdb\<close>, the discovery of
  \<open>SerialModel\<close>, the loader file, the outcome of the task phase, the events the TFTP server delivered
  to the monitor, and the case the final \<open>select\<close> takes.
\<close>

subsection \<open>Configuration\<close>

definition targetSelectorMarkerV1 :: string where "targetSelectorMarkerV1 = ''MNC_STATION_TARGET_SELECTOR_V1''"
definition targetSelectorMarkerV2 :: string where "targetSelectorMarkerV2 = ''MNC_STATION_TARGET_SELECTOR_V2''"

record xilinx_config =
  xc_executor :: bool \<comment> \<open>an executor is configured\<close>
  xc_listen :: string
  xc_retries :: int
  xc_timeout :: int
  xc_max_block :: int
  xc_job_timeout :: int
  xc_serial :: bool \<comment> \<open>a serial service is configured\<close>

definition NewXilinx :: "xilinx_config \<Rightarrow> xilinx_config option" where
  "NewXilinx c = (if \<not> xc_executor c then None
     else (let c = c\<lparr>xc_listen := (if xc_listen c = [] then '':69'' else xc_listen c),
             xc_retries := (if xc_retries c = 0 then 5 else xc_retries c),
             xc_timeout := (if xc_timeout c = 0 then 3 * 10 ^ 9 else xc_timeout c),
             xc_max_block := (if xc_max_block c = 0 then 1468 else xc_max_block c),
             xc_job_timeout := (if xc_job_timeout c = 0 then 600 * 10 ^ 9 else xc_job_timeout c)\<rparr> in
       if xc_job_timeout c \<le> 0 then None else Some c))"

subsection \<open>Validation of a job\<close>

datatype runner_error =
    UnsupportedArtifact | UnsupportedExecutor | NoTftpRoot
  | InvalidRequest xsdb_error | IndexNeedsSerial
  | NoPortID | BadSerialBaud | NoSerialService
  | MatchedNeedsCable | CableNotMatched | PortOfOtherCable | CannotListPorts | PortNotAvailable | BadSelection
  | LoaderUnreadable | LoaderTooOld
  | NoXsdb xsdb_error | NoPayload

definition expectedTFTPFiles :: "manifest \<Rightarrow> string list" where
  "expectedTFTPFiles mf = (let pre = xm_tftp_root (mf_executor mf) @ ''/'' in
     sort (map (trim_prefix pre) (filter (prefix pre) (map fst (mf_files mf)))))"

record run_env =
  re_host :: host
  re_xsdb_path :: string
  re_conns :: "string \<Rightarrow> (bool \<times> int) option"
  re_ports :: "discovery option"
  re_loader :: "string option"
  re_address :: string
  re_listen_fault :: bool
  re_tasks_failed :: bool
  re_proc :: process
  re_events :: "transfer_event list"

definition check_serial :: "xilinx_config \<Rightarrow> run_env \<Rightarrow> JobModel.request \<Rightarrow> serial_request \<Rightarrow> runner_error option" where
  "check_serial cfg env rq s =
     (if sr_port s = [] then Some NoPortID
      else if sr_baud s \<noteq> 0 \<and> \<not> ValidateBaudRate (sr_baud s) then Some BadSerialBaud
      else if \<not> xc_serial cfg then Some NoSerialService
      else (let selection = (if sr_selection s = [] then ''matched'' else sr_selection s) in
        if selection = ''matched'' then
          (if rq_cable rq = [] then Some MatchedNeedsCable
           else (case re_ports env of
             None \<Rightarrow> Some CableNotMatched
           | Some d \<Rightarrow> (case MatchCableSerial (re_conns env) d (rq_cable rq) of
               Matched p \<Rightarrow> if pt_key p \<noteq> sr_port s then Some PortOfOtherCable else None
             | _ \<Rightarrow> Some CableNotMatched)))
        else if selection = ''manual'' then
          (case re_ports env of
             None \<Rightarrow> Some CannotListPorts
           | Some d \<Rightarrow> if list_ex (\<lambda>p. pt_key p = sr_port s) (dc_ports (List_ports (re_conns env) d))
               then None else Some PortNotAvailable)
        else Some BadSelection))"

definition check_loader :: "run_env \<Rightarrow> JobModel.request \<Rightarrow> runner_error option" where
  "check_loader env rq = (if rq_target rq \<noteq> [] \<or> rq_cable rq \<noteq> [] then
     (case re_loader env of
        None \<Rightarrow> Some LoaderUnreadable
      | Some content \<Rightarrow>
          if bytes_contain content (if rq_cable rq \<noteq> [] then targetSelectorMarkerV2 else targetSelectorMarkerV1)
          then None else Some LoaderTooOld)
     else None)"

definition Validate_job :: "xilinx_config \<Rightarrow> run_env \<Rightarrow> stored_artifact \<Rightarrow> JobModel.request \<Rightarrow> runner_error option" where
  "Validate_job cfg env sa rq = (let mf = sa_manifest sa; am = mf_artifact mf in first_some
     [if am_vendor am \<noteq> ''xilinx'' \<or> am_operation am \<noteq> ''jtag-boot'' then Some UnsupportedArtifact else None,
      if xm_type (mf_executor mf) \<noteq> ''xilinx-xsdb'' then Some UnsupportedExecutor else None,
      if xm_tftp_root (mf_executor mf) = [] then Some NoTftpRoot else None,
      map_option InvalidRequest (ValidateHWServerURL (rq_hw_server rq)),
      map_option InvalidRequest (ValidateIPv4 ''TFTP server IP'' (rq_tftp_ip rq) False),
      map_option InvalidRequest (ValidateIPv4 ''board IP'' (rq_board_ip rq) True),
      map_option InvalidRequest (ValidateTargetID (rq_target rq)),
      map_option InvalidRequest (ValidateTargetCableSerial (rq_cable rq)),
      map_option InvalidRequest (ValidateTargetDeviceIndex (rq_device rq)),
      if rq_device rq \<noteq> [] \<and> rq_cable rq = [] then Some IndexNeedsSerial else None,
      Option.bind (rq_serial rq) (check_serial cfg env rq),
      check_loader env rq,
      (case Resolve (re_host env) (re_xsdb_path env) of Inl e \<Rightarrow> Some (NoXsdb e) | Inr _ \<Rightarrow> None),
      if expectedTFTPFiles mf = [] then Some NoPayload else None])"

subsection \<open>Monitoring the transfers\<close>

type_synonym log = "(string \<times> string) list"

record monitor =
  mn_completed :: "string set"
  mn_signaled :: bool
  mn_log :: log

definition monitor_start :: monitor where
  "monitor_start = \<lparr>mn_completed = {}, mn_signaled = False, mn_log = []\<rparr>"

definition monitor_event :: "(peer \<Rightarrow> string) \<Rightarrow> (failure \<Rightarrow> string) \<Rightarrow> string list \<Rightarrow> transfer_event \<Rightarrow> monitor \<Rightarrow> monitor" where
  "monitor_event peer_text failure_text expected e m = (case ev_status e of
       Started \<Rightarrow> m\<lparr>mn_log := mn_log m @ [(''info'', ''tftp: request '' @ ev_filename e @ '' from '' @ peer_text (ev_remote e))]\<rparr>
     | Completed \<Rightarrow>
         (let completed = (if ev_filename e \<in> set expected then insert (ev_filename e) (mn_completed m) else mn_completed m) in
          m\<lparr>mn_log := mn_log m @ [(''info'', ''tftp: sent '' @ ev_filename e @ '' ('' @ itoa (ev_bytes e) @ '' bytes)'')],
            mn_completed := completed,
            mn_signaled := mn_signaled m \<or> card completed = card (set expected)\<rparr>)
     | Tftp.Failed cause \<Rightarrow> m\<lparr>mn_log := mn_log m
         @ [(''warning'', ''tftp: '' @ ev_filename e @ '' failed: '' @ failure_text cause)]\<rparr>)"

definition monitorTransfers :: "(peer \<Rightarrow> string) \<Rightarrow> (failure \<Rightarrow> string) \<Rightarrow> string list \<Rightarrow> transfer_event list \<Rightarrow> monitor" where
  "monitorTransfers peer_text failure_text expected es = fold (monitor_event peer_text failure_text expected) es monitor_start"

subsection \<open>Running a job\<close>

definition runner_tftp :: "xilinx_config \<Rightarrow> tftp_config" where
  "runner_tftp cfg = default_config\<lparr>tc_listen := xc_listen cfg, tc_retries := xc_retries cfg,
     tc_timeout := xc_timeout cfg, tc_max_block := xc_max_block cfg\<rparr>"

text \<open>The allowed client of the TFTP server (\<open>tftp.Listen\<close>); \<open>None\<close> for any client.\<close>

definition v4_word :: "ip \<Rightarrow> 32 word" where
  "v4_word v4 = fold (\<lambda>b w. push_bit 8 w + of_nat b) v4 0"

definition allowed_client :: "JobModel.request \<Rightarrow> (32 word option) option" where
  "allowed_client rq = (if rq_board_ip rq = [] then Some None
     else map_option (\<lambda>v4. Some (v4_word v4)) (Option.bind (ParseIP (rq_board_ip rq)) To4))"

definition loader_path :: "stored_artifact \<Rightarrow> string" where
  "loader_path sa = join_elems [sa_root_path sa, xm_entrypoint (mf_executor (sa_manifest sa))]"

definition dir_of :: "string \<Rightarrow> string" where
  "dir_of p = clean_path (rev (dropWhile (\<lambda>c. c \<noteq> slash) (rev p)))"

definition loader_request :: "stored_artifact \<Rightarrow> JobModel.request \<Rightarrow> xsdb_request" where
  "loader_request sa rq = \<lparr>xr_entrypoint = loader_path sa, xr_url = rq_hw_server rq, xr_tftp_ip = rq_tftp_ip rq,
     xr_board_ip = rq_board_ip rq, xr_target = rq_target rq, xr_serial = rq_cable rq, xr_index = rq_device rq,
     xr_folder = dir_of (loader_path sa)\<rparr>"

datatype run_error = JobInvalid runner_error | ListenFailed | TasksFailed | LoaderFailed xsdb_error
  | JobCanceled | BootTimeout | ServerFailed | ServerStopped

text \<open>What the last \<open>select\<close> finds: all transfers done; the server has returned, with or without an
  error; the run context has ended.  The contexts may have ended in the second case too.\<close>

datatype waited = AllTransfers | ServerReturned bool bool | RunContextDone

definition wait_result :: "bool \<Rightarrow> waited \<Rightarrow> run_error option" where
  "wait_result job_canceled w = (case w of
       AllTransfers \<Rightarrow> None
     | ServerReturned failed context_done \<Rightarrow>
         if context_done then (if job_canceled then Some JobCanceled else Some BootTimeout)
         else if failed then Some ServerFailed else Some ServerStopped
     | RunContextDone \<Rightarrow> if job_canceled then Some JobCanceled else Some BootTimeout)"

definition xsdb_log :: "string list \<Rightarrow> log" where
  "xsdb_log ls = map (\<lambda>l. (''info'', ''xsdb: '' @ l)) (filter (\<lambda>l. l \<noteq> []) ls)"

definition join_names :: "string list \<Rightarrow> string" where
  "join_names ns = concat (case ns of [] \<Rightarrow> [] | n # ns' \<Rightarrow> n # map (\<lambda>x. '', '' @ x) ns')"

definition Run_job :: "xilinx_config \<Rightarrow> run_env \<Rightarrow> bool \<Rightarrow> waited \<Rightarrow> stored_artifact \<Rightarrow> JobModel.request \<Rightarrow> run_error option \<times> log" where
  "Run_job cfg env job_canceled w sa rq = (case Validate_job cfg env sa rq of
       Some e \<Rightarrow> (Some (JobInvalid e), [])
     | None \<Rightarrow>
         if check_config (runner_tftp cfg) \<noteq> None \<or> allowed_client rq = None \<or> re_listen_fault env
         then (Some ListenFailed, [])
         else (let mf = sa_manifest sa;
                   log1 = [(''info'', ''TFTP server listening on '' @ re_address env @ '' with root '' @ xm_tftp_root (mf_executor mf)),
                           (''info'', ''Waiting for TFTP files: '' @ join_names (expectedTFTPFiles mf))] in
           if re_tasks_failed env then (Some TasksFailed, log1)
           else (case Run (re_host env) (re_xsdb_path env) True (re_proc env) (loader_request sa rq) of
               (Some e, _, ls) \<Rightarrow> (Some (LoaderFailed e), log1 @ xsdb_log ls)
             | (None, _, ls) \<Rightarrow>
                 (let log2 = log1 @ xsdb_log ls @ [(''info'', ''XSDB loader completed; waiting for the board to finish all TFTP transfers'')] in
                  case wait_result job_canceled w of
                    Some e \<Rightarrow> (Some e, log2)
                  | None \<Rightarrow> (None, log2 @ [(''info'', ''All artifact TFTP files were transferred'')])))))"

subsection \<open>The signal of the monitor\<close>

definition completed_names :: "transfer_event list \<Rightarrow> string set" where
  "completed_names es = {ev_filename e |e. e \<in> set es \<and> ev_status e = Completed}"

lemma completed_names_Cons: "completed_names (e # es) =
    (if ev_status e = Completed then insert (ev_filename e) (completed_names es) else completed_names es)"
  by (auto simp: completed_names_def)

lemma monitor_fold:
  "mn_completed m \<subseteq> set expected \<Longrightarrow>
    mn_completed (fold (monitor_event pt ft expected) es m) = mn_completed m \<union> (completed_names es \<inter> set expected)"
proof (induction es arbitrary: m)
  case Nil
  then show ?case by (simp add: completed_names_def)
next
  case (Cons e es)
  have "mn_completed (monitor_event pt ft expected e m) = mn_completed m \<union> (completed_names [e] \<inter> set expected)"
    by (auto simp: monitor_event_def Let_def completed_names_def split: status.splits)
  moreover from this have "mn_completed (monitor_event pt ft expected e m) \<subseteq> set expected" using Cons.prems by blast
  ultimately show ?case using Cons.IH by (auto simp: completed_names_Cons completed_names_def)
qed

lemma full_card: "C \<subseteq> set expected \<Longrightarrow> card C = card (set expected) \<longleftrightarrow> C = set expected"
  using card_subset_eq by blast

text \<open>Whatever the monitor saw last, the signal is given exactly when all expected files are complete.\<close>

lemma monitor_signal:
  "mn_completed m \<subseteq> set expected \<Longrightarrow> expected \<noteq> [] \<Longrightarrow> mn_signaled m = (mn_completed m = set expected) \<Longrightarrow>
    mn_signaled (fold (monitor_event pt ft expected) es m) =
      (mn_completed (fold (monitor_event pt ft expected) es m) = set expected)"
proof (induction es arbitrary: m)
  case (Cons e es)
  let ?m = "monitor_event pt ft expected e m"
  have c: "mn_completed ?m = mn_completed m \<union> (completed_names [e] \<inter> set expected)"
    by (auto simp: monitor_event_def Let_def completed_names_def split: status.splits)
  then have sub: "mn_completed ?m \<subseteq> set expected" using Cons.prems(1) by blast
  have "mn_signaled ?m = (mn_completed ?m = set expected)"
    using Cons.prems sub full_card [of _ expected]
    by (auto simp: monitor_event_def Let_def split: status.splits if_splits)
  with Cons.IH [OF sub Cons.prems(2)] show ?case by simp
qed simp

lemma monitor_signals_when_complete:
  "expected \<noteq> [] \<Longrightarrow> mn_signaled (monitorTransfers pt ft expected es) \<longleftrightarrow> set expected \<subseteq> completed_names es"
  using monitor_signal [of monitor_start expected pt ft es] monitor_fold [of monitor_start expected pt ft es]
  by (auto simp: monitorTransfers_def monitor_start_def)

lemma monitor_log_length: "length (mn_log (monitorTransfers pt ft expected es)) = length es"
proof -
  have "length (mn_log (fold (monitor_event pt ft expected) es m)) = length (mn_log m) + length es" for m
    by (induction es arbitrary: m) (auto simp: monitor_event_def Let_def split: status.splits)
  then show ?thesis by (simp add: monitorTransfers_def monitor_start_def)
qed

subsection \<open>A successful job has delivered its payload\<close>

text \<open>An event of the TFTP server: some request it served, under the runner's configuration and root,
  emitted it.\<close>

definition tftp_dir :: "stored_artifact \<Rightarrow> string" where
  "tftp_dir sa = join_elems [sa_root_path sa, xm_tftp_root (mf_executor (sa_manifest sa))]"

definition served_event :: "(tftp_error \<Rightarrow> string) \<Rightarrow> tftp_config \<Rightarrow> string \<Rightarrow> transfer_event \<Rightarrow> bool" where
  "served_event text_of cfg dir e \<longleftrightarrow>
     (\<exists>env remote req outs. serveRequest text_of cfg dir env remote req = Some outs \<and> Emit e \<in> set outs)"

text \<open>The event is the end of a transfer whose packets give a client the whole content of the named
  file below the root.\<close>

definition delivered :: "(tftp_error \<Rightarrow> string) \<Rightarrow> tftp_config \<Rightarrow> string \<Rightarrow> transfer_event \<Rightarrow> bool" where
  "delivered text_of cfg dir e \<longleftrightarrow> (\<exists>env remote req content ng start outs.
     serveRequest text_of cfg dir env remote req = Some (start # outs @ [Emit e])
     \<and> te_lstat env (join_path dir (ev_filename e)) = Regular content
     \<and> negotiate cfg (req_options req) (int (length content)) = Inr ng
     \<and> cl_data (client_run (nat (ng_block ng)) outs) = content
     \<and> cl_done (client_run (nat (ng_block ng)) outs))"

lemma completed_is_delivered:
  assumes cfg: "check_config cfg = None" and e: "served_event text_of cfg dir e" "ev_status e = Completed"
  shows "delivered text_of cfg dir e"
proof -
  obtain env remote req outs where s: "serveRequest text_of cfg dir env remote req = Some outs" "Emit e \<in> set outs"
    using e(1) by (auto simp: served_event_def)
  have tr: "e = \<lparr>ev_filename = req_filename req, ev_remote = remote, ev_bytes = n, ev_status = st\<rparr> \<and> st = Completed"
    if "outs = trace_of req remote pkts n st" for pkts n st
    using that s(2) e(2) by (auto simp: trace_of_def emit_event_def)
  show ?thesis
  proof (cases "\<exists>content ng. ready cfg dir env req content ng")
    case True
    then obtain content ng where r: "ready cfg dir env req content ng" by blast
    obtain pkts n st where run: "serveRequest text_of cfg dir env remote req = Some (trace_of req remote pkts n st)"
      and data: "let cl = fold (client_step (nat (ng_block ng))) pkts client_start in
         prefix (cl_data cl) content \<and> 0 \<le> n \<and> n \<le> int (length (cl_data cl))
         \<and> (st = Completed \<longrightarrow> cl_data cl = content \<and> n = int (length content) \<and> cl_done cl)"
      using serveRequest_ready [OF cfg r] by blast
    have "outs = trace_of req remote pkts n st" using run s(1) by simp
    note ev = tr [OF this]
    have "serveRequest text_of cfg dir env remote req
        = Some (emit_event (req_filename req) remote 0 Started # map Send pkts @ [Emit e])"
      using run ev by (simp add: trace_of_def emit_event_def)
    moreover have "te_lstat env (join_path dir (ev_filename e)) = Regular content"
      "negotiate cfg (req_options req) (int (length content)) = Inr ng"
      using r ev by (simp_all add: ready_def)
    ultimately show ?thesis using ev data unfolding delivered_def Let_def client_run_def
      by (metis packets_of_Send)
  next
    case False
    then obtain pkts cause where "serveRequest text_of cfg dir env remote req
        = Some (trace_of req remote pkts 0 (Tftp.Failed cause))"
      using serveRequest_refused [of cfg dir env req text_of remote] by blast
    with s(1) tr [of pkts 0 "Tftp.Failed cause"] show ?thesis by simp
  qed
qed

lemma Run_job_success:
  assumes "fst (Run_job cfg env jc w sa rq) = None"
  shows "Validate_job cfg env sa rq = None" "check_config (runner_tftp cfg) = None" "allowed_client rq \<noteq> None"
    "\<not> re_tasks_failed env" "fst (Run (re_host env) (re_xsdb_path env) True (re_proc env) (loader_request sa rq)) = None"
    "w = AllTransfers"
  using assms by (auto simp: Run_job_def Let_def wait_result_def split: option.splits if_splits prod.splits waited.splits)

lemma Run_job_succeeds:
  assumes "Validate_job cfg env sa rq = None" "check_config (runner_tftp cfg) = None" "allowed_client rq \<noteq> None"
    "\<not> re_listen_fault env" "\<not> re_tasks_failed env"
    "fst (Run (re_host env) (re_xsdb_path env) True (re_proc env) (loader_request sa rq)) = None"
  shows "fst (Run_job cfg env jc AllTransfers sa rq) = None"
  using assms
  by (cases "Run (re_host env) (re_xsdb_path env) True (re_proc env) (loader_request sa rq)")
    (simp add: Run_job_def wait_result_def Let_def)

lemma Validate_job_None:
  assumes "Validate_job cfg env sa rq = None"
  shows "expectedTFTPFiles (sa_manifest sa) \<noteq> []" "Option.bind (rq_serial rq) (check_serial cfg env rq) = None"
    "check_loader env rq = None" "ValidateHWServerURL (rq_hw_server rq) = None"
  using assms unfolding Validate_job_def Let_def first_some_None by (auto split: if_splits)

lemma trim_prefix_prefix: "prefix pre s \<Longrightarrow> pre @ trim_prefix pre s = s"
  by (auto simp: trim_prefix_def prefix_def)

lemma trimmed: "trim_prefix pre ` {p \<in> S. prefix pre p} = {name. pre @ name \<in> S}"
proof (intro set_eqI iffI)
  fix name assume "name \<in> {name. pre @ name \<in> S}"
  then have "pre @ name \<in> {p \<in> S. prefix pre p}" by simp
  then have "trim_prefix pre (pre @ name) \<in> trim_prefix pre ` {p \<in> S. prefix pre p}" by (rule imageI)
  then show "name \<in> trim_prefix pre ` {p \<in> S. prefix pre p}" by (simp add: trim_prefix_def)
next
  fix name assume "name \<in> trim_prefix pre ` {p \<in> S. prefix pre p}"
  then obtain p where "p \<in> S" "prefix pre p" "name = trim_prefix pre p" by blast
  then show "name \<in> {name. pre @ name \<in> S}" by (simp add: trim_prefix_prefix)
qed

lemma set_expected:
  "set (expectedTFTPFiles mf) = {name. (xm_tftp_root (mf_executor mf) @ ''/'') @ name \<in> fst ` set (mf_files mf)}"
  using trimmed [of "xm_tftp_root (mf_executor mf) @ ''/''" "fst ` set (mf_files mf)"]
  unfolding expectedTFTPFiles_def Let_def by (simp only: set_sort set_map set_filter)

text \<open>C4: a JTAG boot that ends without an error was an accepted job whose task phase and loader
  process succeeded, it has payload files, and a TFTP client received the whole content of every file
  of the artifact below its TFTP root.\<close>

theorem successful_boot_delivered_payload:
  assumes run: "fst (Run_job cfg env job_canceled w sa rq) = None"
    and selected: "w = AllTransfers \<longrightarrow> mn_signaled (monitorTransfers pt ft (expectedTFTPFiles (sa_manifest sa)) (re_events env))"
    and server: "\<forall>e \<in> set (re_events env). served_event text_of (runner_tftp cfg) (tftp_dir sa) e"
  shows "Validate_job cfg env sa rq = None \<and> \<not> re_tasks_failed env \<and> \<not> ps_failed (re_proc env)
    \<and> expectedTFTPFiles (sa_manifest sa) \<noteq> []
    \<and> (\<forall>name. (xm_tftp_root (mf_executor (sa_manifest sa)) @ ''/'') @ name \<in> fst ` set (mf_files (sa_manifest sa))
        \<longrightarrow> (\<exists>e \<in> set (re_events env). ev_filename e = name \<and> delivered text_of (runner_tftp cfg) (tftp_dir sa) e))"
proof -
  note ok = Run_job_success [OF run]
  have payload: "expectedTFTPFiles (sa_manifest sa) \<noteq> []" by (rule Validate_job_None [OF ok(1)])
  have "set (expectedTFTPFiles (sa_manifest sa)) \<subseteq> completed_names (re_events env)"
    using selected ok(6) monitor_signals_when_complete [OF payload] by blast
  then have "\<exists>e \<in> set (re_events env). ev_filename e = name \<and> ev_status e = Completed"
    if "name \<in> set (expectedTFTPFiles (sa_manifest sa))" for name
    using that by (auto simp: completed_names_def)
  then have "\<exists>e \<in> set (re_events env). ev_filename e = name \<and> delivered text_of (runner_tftp cfg) (tftp_dir sa) e"
    if "name \<in> set (expectedTFTPFiles (sa_manifest sa))" for name
    using that server completed_is_delivered [OF ok(2)] by blast
  moreover have "\<not> ps_failed (re_proc env)"
    using ok(5) by (auto simp: Run_def Let_def split: sum.splits option.splits prod.splits if_splits)
  ultimately show ?thesis using ok payload by (simp add: set_expected)
qed

definition sample_config :: xilinx_config where
  "sample_config = \<lparr>xc_executor = True, xc_listen = '':69'', xc_retries = 5, xc_timeout = 3 * 10 ^ 9, xc_max_block = 1468,
     xc_job_timeout = 600 * 10 ^ 9, xc_serial = False\<rparr>"

definition sample_boot :: stored_artifact where
  "sample_boot = zero_artifact\<lparr>sa_root_path := ''/srv/a'', sa_manifest := empty_manifest\<lparr>
     mf_artifact := (mf_artifact empty_manifest)\<lparr>am_vendor := ''xilinx'', am_operation := ''jtag-boot''\<rparr>,
     mf_executor := \<lparr>xm_type = ''xilinx-xsdb'', xm_entrypoint = ''boot.tcl'', xm_tftp_root = ''tftp''\<rparr>,
     mf_files := [(''tftp/f'', \<lparr>fd_size = 3, fd_sha256 = [], fd_mode = []\<rparr>)]\<rparr>\<rparr>"

definition sample_job :: JobModel.request where
  "sample_job = \<lparr>rq_id = [], rq_tasks = None, rq_artifact = [], rq_hw_server = ''tcp:127.0.0.1:3121'',
     rq_tftp_ip = ''10.0.0.1'', rq_board_ip = [], rq_target = [], rq_cable = [], rq_device = [], rq_serial = None\<rparr>"

definition sample_peer :: peer where "sample_peer = \<lparr>peer_ip = 7, peer_port = 9\<rparr>"

definition sample_done :: transfer_event where
  "sample_done = \<lparr>ev_filename = ''f'', ev_remote = sample_peer, ev_bytes = 3, ev_status = Completed\<rparr>"

definition sample_run :: run_env where
  "sample_run = \<lparr>re_host = \<lparr>hs_cwd = None, hs_env = (\<lambda>_. []), hs_look = (\<lambda>n. Some (''/bin/'' @ n)),
       hs_stat = (\<lambda>_. Some (True, 73)), hs_glob = (\<lambda>_. None)\<rparr>, re_xsdb_path = [], re_conns = (\<lambda>_. None), re_ports = None,
     re_loader = None, re_address = '':69'', re_listen_fault = False, re_tasks_failed = False,
     re_proc = \<lparr>ps_chunks = [''connected''], ps_failed = False, ps_canceled = False\<rparr>, re_events = [sample_done]\<rparr>"

lemma sample_served: "served_event (\<lambda>_. []) (runner_tftp sample_config) (tftp_dir sample_boot) sample_done"
proof -
  let ?ok = "\<lparr>at_ctx_done = False, at_send_fault = False, at_inbox = [Datagram sample_peer [0, 4, 0, 1]]\<rparr> :: attempt"
  let ?env = "\<lparr>te_lstat = (\<lambda>_. Regular [1, 2, 3]), te_open_fault = False, te_socket_fault = False,
      te_oack_net = (\<lambda>_. ?ok), te_data_net = (\<lambda>_ _. ?ok), te_ctx_done = (\<lambda>_. False), te_read_fault = (\<lambda>_. False)\<rparr>"
  have "serveRequest (\<lambda>_. []) (runner_tftp sample_config) (tftp_dir sample_boot) ?env sample_peer
      \<lparr>req_filename = ''f'', req_options = Map.empty\<rparr>
    = Some [emit_event ''f'' sample_peer 0 Started, Send [0, 3, 0, 1, 1, 2, 3], Emit sample_done]"
    by code_simp
  then show ?thesis unfolding served_event_def by (metis list.set_intros)
qed

lemma successful_boot_delivered_payload_witness:
  "\<exists>e. ev_filename e = ''f'' \<and> delivered (\<lambda>_. []) (runner_tftp sample_config) ''/srv/a/tftp'' e"
proof -
  have run: "fst (Run_job sample_config sample_run False AllTransfers sample_boot sample_job) = None"
  proof -
    have "Validate_job sample_config sample_run sample_boot sample_job = None" by code_simp
    moreover have "check_config (runner_tftp sample_config) = None" by code_simp
    moreover have "fst (Run (re_host sample_run) (re_xsdb_path sample_run) True (re_proc sample_run)
      (loader_request sample_boot sample_job)) = None" by code_simp
    ultimately show ?thesis
      by (intro Run_job_succeeds) (simp_all add: allowed_client_def sample_job_def sample_run_def)
  qed
  have dir: "tftp_dir sample_boot = ''/srv/a/tftp''" by code_simp
  have ex: "expectedTFTPFiles (sa_manifest sample_boot) = [''f'']" by code_simp
  have sel: "AllTransfers = AllTransfers \<longrightarrow> mn_signaled (monitorTransfers (\<lambda>_. []) (\<lambda>_. [])
      (expectedTFTPFiles (sa_manifest sample_boot)) (re_events sample_run))"
    unfolding ex by (simp add: monitorTransfers_def monitor_event_def monitor_start_def sample_run_def sample_done_def)
  have ev: "\<forall>e \<in> set (re_events sample_run). served_event (\<lambda>_. []) (runner_tftp sample_config) (tftp_dir sample_boot) e"
    using sample_served by (simp add: sample_run_def)
  have "(xm_tftp_root (mf_executor (sa_manifest sample_boot)) @ ''/'') @ ''f'' \<in> fst ` set (mf_files (sa_manifest sample_boot))"
    by (simp add: sample_boot_def)
  with successful_boot_delivered_payload [OF run sel ev] show ?thesis unfolding dir by blast
qed

subsection \<open>Ending the server\<close>

text \<open>
  The end of \<open>Run\<close>: the context has ended, so the monitor no longer reads; the transfers in flight still
  send their events to the channel of the server, which blocks when its buffer is full (\<open>emit\<close>), and
  \<open>Serve\<close> returns when every transfer has.  \<open>sd_left\<close> is what each transfer has still to send.
\<close>

record shutdown =
  sd_buffered :: nat
  sd_left :: "nat list"

definition event_buffer :: nat where "event_buffer = 64"

inductive shutdown_step :: "shutdown \<Rightarrow> shutdown \<Rightarrow> bool" where
  send_event: "\<lbrakk>i < length (sd_left s); sd_left s ! i > 0; sd_buffered s < event_buffer\<rbrakk> \<Longrightarrow>
    shutdown_step s \<lparr>sd_buffered = sd_buffered s + 1, sd_left = (sd_left s)[i := sd_left s ! i - 1]\<rparr>"

definition serve_returned :: "shutdown \<Rightarrow> bool" where
  "serve_returned s \<longleftrightarrow> list_all (\<lambda>n. n = 0) (sd_left s)"

lemma sum_list_dec: "i < length xs \<Longrightarrow> xs ! i > 0 \<Longrightarrow> sum_list (xs[i := xs ! i - 1]) + 1 = sum_list (xs :: nat list)"
  by (induction xs arbitrary: i) (auto split: nat.split simp: nth_Cons')

lemma shutdown_sum: "shutdown_step s s' \<Longrightarrow> sd_buffered s' + sum_list (sd_left s') = sd_buffered s + sum_list (sd_left s)
    \<and> sd_buffered s' \<le> event_buffer \<and> sum_list (sd_left s') < sum_list (sd_left s)"
  by (induction rule: shutdown_step.induct) (use sum_list_dec in \<open>fastforce\<close>)

lemma shutdown_sums: "shutdown_step\<^sup>*\<^sup>* s s' \<Longrightarrow> sd_buffered s \<le> event_buffer \<Longrightarrow>
    sd_buffered s' + sum_list (sd_left s') = sd_buffered s + sum_list (sd_left s) \<and> sd_buffered s' \<le> event_buffer"
  by (induction rule: rtranclp_induct) (use shutdown_sum in fastforce)+

lemma shutdown_stuck: "(\<nexists>s'. shutdown_step s s') \<Longrightarrow> sd_buffered s < event_buffer \<Longrightarrow> serve_returned s"
  unfolding serve_returned_def list_all_length using send_event by blast

text \<open>A run of the shutdown always comes to rest; at rest the server has returned if what was buffered and
  left to send fits the buffer, and otherwise it never returns.\<close>

theorem shutdown_blocks_beyond_buffer:
  assumes "sd_buffered s \<le> event_buffer" "shutdown_step\<^sup>*\<^sup>* s s'" "\<nexists>s''. shutdown_step s' s''"
  shows "serve_returned s' \<longleftrightarrow> sd_buffered s + sum_list (sd_left s) \<le> event_buffer"
proof
  assume "serve_returned s'"
  then have "sum_list (sd_left s') = 0" by (auto simp: serve_returned_def list_all_iff sum_list_eq_0_iff)
  then show "sd_buffered s + sum_list (sd_left s) \<le> event_buffer" using shutdown_sums [OF assms(2,1)] by linarith
next
  assume fits: "sd_buffered s + sum_list (sd_left s) \<le> event_buffer"
  show "serve_returned s'"
  proof (cases "sd_buffered s' < event_buffer")
    case True
    with assms(3) show ?thesis by (rule shutdown_stuck)
  next
    case False
    with fits shutdown_sums [OF assms(2,1)] have "sum_list (sd_left s') = 0" by linarith
    then show ?thesis by (simp add: serve_returned_def list_all_iff)
  qed
qed

lemma shutdown_can_hang:
  "shutdown_step\<^sup>*\<^sup>* \<lparr>sd_buffered = 0, sd_left = replicate 65 1\<rparr> s' \<Longrightarrow> \<nexists>s''. shutdown_step s' s'' \<Longrightarrow> \<not> serve_returned s'"
  by (subst shutdown_blocks_beyond_buffer [of "\<lparr>sd_buffered = 0, sd_left = replicate 65 1\<rparr>"])
    (simp_all add: event_buffer_def sum_list_replicate)

end
