(* ===== verification/HttpApi.thy ===== *)
theory HttpApi
  imports Http Jobs SerialCapture SerialSessions Xsdb
begin

text \<open>
  The handlers of the HTTP interface (\<open>internal/httpapi/server.go\<close>, \<open>internal/httpapi/serial.go\<close>)
  over the job manager, the artifact store, the serial console and the XSDB executor, and \<open>serve\<close>, the
  whole of a request: route, authorization, handler and security headers.  A handler returns the
  response and the state it leaves.  What the outside decides in a request (the clock, what the disk,
  the ports and the loader do, the parts of an upload, the random ids) is a record of inputs.  The
  text of an error is a parameter, \<open>hi_text\<close>, because one handler searches it.
\<close>

subsection \<open>The service\<close>

record api_config =
  ac_version :: string
  ac_token :: string
  ac_tftp :: string
  ac_max_body :: int
  ac_max_console :: int
  ac_xsdb_path :: string

definition DefaultLogBytes :: int where "DefaultLogBytes = 16 * 2 ^ 20"

text \<open>\<open>New\<close>; \<open>services\<close> tells whether all four services are given.\<close>

definition new_server :: "bool \<Rightarrow> limits \<Rightarrow> api_config \<Rightarrow> api_config option" where
  "new_server services lm ac = (if \<not> services then None
     else Some (ac\<lparr>ac_version := (if ac_version ac = [] then ''dev'' else ac_version ac),
       ac_max_body := (if ac_max_body ac \<le> 0 then i64 (lm_compressed lm + 2 ^ 20) else ac_max_body ac),
       ac_max_console := (if ac_max_console ac \<le> 0 then DefaultLogBytes else ac_max_console ac)\<rparr>))"

record service =
  sv_mgr :: manager
  sv_sessions :: sessions

record station_info =
  sf_version :: string
  sf_compressed :: int
  sf_uncompressed :: int
  sf_tasks :: "descriptor list"
  sf_tftp :: string
  sf_addresses :: "string list"
  sf_interfaces :: "(string \<times> string) list"
  sf_preferred :: "string option"
  sf_xsdb :: "xsdb_error + string"
  sf_baud :: int
  sf_transcript :: int
  sf_replay :: nat
  sf_auth_required :: bool

datatype association = SerialMatched port | SerialAmbiguous | SerialNotFound

datatype sse = LogEvent event | DoneEvent | Keepalive

datatype payload =
    HealthP string int
  | StationP station_info
  | TargetsP "(target \<times> association) list"
  | ArtifactsP "stored_artifact list"
  | ArtifactP stored_artifact
  | JobsP "job list"
  | JobP job
  | SubmissionP string job
  | EventsP "event list"
  | StreamP "sse list"
  | StorageP annotated
  | CleanupP cleanup
  | PortsP discovery
  | SessionP session_info
  | TranscriptP serial_capture
  | EmptyP
  | PageP

text \<open>A part of an upload: its form name, its file name and the pieces it is read in, with the fault that
  ends the import, if any, and the time.\<close>

datatype part =
    BrokenPart
  | Part string string "byte list list" "import_fault option" int

type_synonym growth_error = "cleanup_error ensure_error"

record http_io =
  hi_now :: int
  hi_host :: host
  hi_interfaces :: "net_interface list option"
  hi_script_written :: bool
  hi_command_failed :: bool
  hi_output :: string
  hi_discoveries :: "nat \<Rightarrow> discovery option" \<comment> \<open>of the n-th search of the request\<close>
  hi_list_fault :: bool
  hi_parts :: "part list option"
  hi_grow :: "int \<Rightarrow> store \<Rightarrow> growth_error option \<times> store"
  hi_text :: "growth_error import_error \<Rightarrow> string"
  hi_submit :: submit_io
  hi_cancel :: io
  hi_cleanup :: cleanup_io
  hi_flusher :: bool
  hi_writes :: nat \<comment> \<open>the past events written before the first write that fails\<close>
  hi_create :: create_io
  hi_transcript_open :: bool
  hi_socket_accepted :: bool
  hi_file :: "string list \<Rightarrow> nat"
  hi_parse :: "byte list \<Rightarrow> json option"
  hi_plan_of :: "json \<Rightarrow> plan option \<Rightarrow> plan option option"

subsection \<open>Information about the station\<close>

definition health :: "api_config \<Rightarrow> http_io \<Rightarrow> payload response" where
  "health ac io = writeJSON 200 (HealthP (ac_version ac) (hi_now io))"

definition capabilities :: "config \<Rightarrow> api_config \<Rightarrow> http_io \<Rightarrow> http_request \<Rightarrow> service \<Rightarrow> payload response" where
  "capabilities cfg ac io r s =
     (let lm = so_limits (mg_store (sv_mgr s)); nis = stationIPv4Interfaces (hi_interfaces io) in
      writeJSON 200 (StationP \<lparr>sf_version = ac_version ac, sf_compressed = lm_compressed lm,
        sf_uncompressed = lm_uncompressed lm, sf_tasks = Capabilities (cf_registry cfg), sf_tftp = ac_tftp ac,
        sf_addresses = map snd nis, sf_interfaces = nis,
        sf_preferred = (case nis of [] \<Rightarrow> None | ni # _ \<Rightarrow> Some (snd ni)),
        sf_xsdb = Resolve (hi_host io) (ac_xsdb_path ac),
        sf_baud = sm_default_baud (sx_console (sv_sessions s)), sf_transcript = ac_max_console ac,
        sf_replay = sm_replay (sx_console (sv_sessions s)),
        sf_auth_required = (ac_token ac \<noteq> [] \<and> \<not> isDirectLoopbackRequest r)\<rparr>))"

definition conns_view :: "console \<Rightarrow> string \<Rightarrow> (bool \<times> int) option" where
  "conns_view m key = map_option (\<lambda>c. (cn_controller (conn m c) \<noteq> 0, cn_baud (conn m c))) (map_of (sm_open m) key)"

definition associate :: "console \<Rightarrow> (nat \<Rightarrow> discovery option) \<Rightarrow> nat \<Rightarrow> target \<Rightarrow> association" where
  "associate m found n t = (if tg_serial t = [] then SerialNotFound
     else (case found n of
         None \<Rightarrow> SerialNotFound
       | Some d \<Rightarrow> (case MatchCableSerial (conns_view m) d (tg_serial t) of
           Matched p \<Rightarrow> SerialMatched p | Ambiguous \<Rightarrow> SerialAmbiguous | NotFoundPort \<Rightarrow> SerialNotFound)))"

definition xilinxTargets :: "api_config \<Rightarrow> http_io \<Rightarrow> http_request \<Rightarrow> service \<Rightarrow> payload response" where
  "xilinxTargets ac io r s =
     (case Discover (hi_host io) (ac_xsdb_path ac) (hi_script_written io) (hr_url r) (hi_command_failed io) (hi_output io) of
        Inl _ \<Rightarrow> writeError 400 ''target_discovery_failed''
      | Inr ts \<Rightarrow> writeJSON 200 (TargetsP (map (\<lambda>(n, t). (t, associate (sx_console (sv_sessions s)) (hi_discoveries io) n t))
          (enumerate 0 ts))))"

definition serialPorts :: "http_io \<Rightarrow> service \<Rightarrow> payload response" where
  "serialPorts io s = (case hi_discoveries io 0 of
       None \<Rightarrow> writeError 500 ''serial_discovery_failed''
     | Some d \<Rightarrow> writeJSON 200 (PortsP (List_ports (conns_view (sx_console (sv_sessions s))) d)))"

subsection \<open>Artifacts\<close>

definition listArtifacts :: "config \<Rightarrow> http_io \<Rightarrow> service \<Rightarrow> payload response" where
  "listArtifacts cfg io s = (if hi_list_fault io then writeError 500 ''artifact_list_failed''
     else writeJSON 200 (ArtifactsP (List_artifacts (cd_parse_json (cf_codec cfg)) (cd_parse_time (cf_codec cfg)) (mg_store (sv_mgr s)))))"

definition getArtifact :: "config \<Rightarrow> http_request \<Rightarrow> service \<Rightarrow> payload response" where
  "getArtifact cfg r s = (case load (cf_codec cfg) (mg_store (sv_mgr s)) (path_value r) of
       Inl _ \<Rightarrow> writeError 404 ''artifact_not_found''
     | Inr a \<Rightarrow> writeJSON 200 (ArtifactP a))"

text \<open>\<open>errors.Is(err, storagebudget.ErrFull)\<close>, for what growth and admission report.\<close>

fun full :: "growth_error \<Rightarrow> bool" where
  "full ErrFull = True"
| "full (ReclaimFailed BudgetFull) = True"
| "full _ = False"

fun import_full :: "growth_error import_error \<Rightarrow> bool" where
  "import_full (UploadRefused e) = full e"
| "import_full (MetadataRefused e) = full e"
| "import_full (BadArchive (Growth e)) = full e"
| "import_full _ = False"

definition import_failure :: "(growth_error import_error \<Rightarrow> string) \<Rightarrow> growth_error import_error \<Rightarrow> payload response" where
  "import_failure text e = (if import_full e then writeError 507 ''storage_full''
     else writeError (if bytes_contain (text e) ''compressed size limit'' \<or> bytes_contain (text e) ''request body too large''
       then 413 else 400) ''invalid_artifact'')"

fun import_parts :: "codec \<Rightarrow> http_io \<Rightarrow> part list \<Rightarrow> stored_artifact option \<Rightarrow> store \<Rightarrow> payload response \<times> store" where
  "import_parts cd io [] imported so = (case imported of
       None \<Rightarrow> (writeError 400 ''artifact_missing'', so)
     | Some a \<Rightarrow> (writeJSON 201 (ArtifactP a), so))"
| "import_parts cd io (BrokenPart # ps) imported so = (writeError 400 ''invalid_multipart'', so)"
| "import_parts cd io (Part form file pieces fault now # ps) imported so =
     (if form \<noteq> ''artifact'' \<or> file = [] then (writeError 400 ''unexpected_form_field'', so)
      else if imported \<noteq> None then (writeError 400 ''multiple_artifacts'', so)
      else (case Import cd (hi_grow io) fault now pieces so of
          (Inl e, so') \<Rightarrow> (import_failure (hi_text io) e, so')
        | (Inr a, so') \<Rightarrow> import_parts cd io ps (Some a) so'))"

definition importArtifact :: "codec \<Rightarrow> http_io \<Rightarrow> store \<Rightarrow> payload response \<times> store" where
  "importArtifact cd io so = (case hi_parts io of
       None \<Rightarrow> (writeError 400 ''invalid_multipart'', so)
     | Some ps \<Rightarrow> import_parts cd io ps None so)"

subsection \<open>Jobs\<close>

fun create_failure :: "submit_error \<Rightarrow> payload response" where
  "create_failure (NoSpace e) = (if full e then writeError 507 ''storage_full'' else writeError 400 ''job_rejected'')"
| "create_failure (Expired _) = writeError 410 ''submission_expired''"
| "create_failure (RequestConflict _) = writeError 409 ''request_conflict''"
| "create_failure _ = writeError 400 ''job_rejected''"

definition createJob :: "config \<Rightarrow> http_io \<Rightarrow> http_request \<Rightarrow> manager \<Rightarrow> payload response \<times> manager" where
  "createJob cfg io r m = (case decodeJSON (hi_parse io) (decode_request (hi_plan_of io)) r of
       Inl _ \<Rightarrow> (writeError 400 ''invalid_request'', m)
     | Inr q \<Rightarrow> (case CreateSubmissionContext cfg (hi_submit io) q m of
         (Inl e, m') \<Rightarrow> (create_failure e, m')
       | (Inr (j, replay), m') \<Rightarrow> (add_header ''Location'' (''/api/v1/jobs/'' @ jb_id j)
             (writeJSON (if replay then 200 else 201) (JobP j)), m')))"

definition getSubmission :: "config \<Rightarrow> http_request \<Rightarrow> manager \<Rightarrow> payload response" where
  "getSubmission cfg r m = (let q = path_value r in case Submission cfg m q of
       ExpiredSubmission _ \<Rightarrow> writeError 410 ''submission_expired''
     | Accepted j \<Rightarrow> writeJSON 200 (SubmissionP q j)
     | _ \<Rightarrow> writeError 404 ''submission_not_found'')"

definition getJob :: "config \<Rightarrow> http_request \<Rightarrow> manager \<Rightarrow> payload response" where
  "getJob cfg r m = (case Get cfg m (path_value r) of
       None \<Rightarrow> writeError 404 ''job_not_found'' | Some j \<Rightarrow> writeJSON 200 (JobP j))"

definition cancelJob :: "config \<Rightarrow> http_io \<Rightarrow> http_request \<Rightarrow> manager \<Rightarrow> payload response \<times> manager" where
  "cancelJob cfg io r m = (case Cancel cfg (hi_cancel io) (hi_cleanup io) (path_value r) m of
       (NoSuchJob, m') \<Rightarrow> (writeError 404 ''job_not_found'', m')
     | (Current j, m') \<Rightarrow> (writeJSON 200 (JobP j), m'))"

text \<open>\<open>streamEvents\<close> up to its first wait: the subscription and the events so far.  What follows is a
  sequence of turns of its select; each write succeeds or not.\<close>

definition stream_headers :: "payload response \<Rightarrow> payload response" where
  "stream_headers rs = rs\<lparr>rs_headers := [(''X-Accel-Buffering'', ''no''), (''Cache-Control'', ''no-cache''),
     (''Content-Type'', ''text/event-stream'')]\<rparr>"

definition streamEvents :: "http_io \<Rightarrow> http_request \<Rightarrow> int \<Rightarrow> manager \<Rightarrow> payload response \<times> manager" where
  "streamEvents io r after m = (case Subscribe m (path_value r) after of
       (None, m') \<Rightarrow> (writeError 404 ''job_not_found'', m')
     | (Some (history, h), m') \<Rightarrow>
         if \<not> hi_flusher io then (writeError 500 ''streaming_unavailable'', Unsubscribe (path_value r) h m')
         else (stream_headers (writeJSON 200 (StreamP (map LogEvent (take (hi_writes io) history)))),
           if hi_writes io < length history then Unsubscribe (path_value r) h m' else m'))"

datatype turn = ClientGone | FromChannel "event option" bool \<comment> \<open>\<open>None\<close>: closed\<close> | Tick

fun stream_turns :: "turn list \<Rightarrow> sse list \<times> bool" where
  "stream_turns [] = ([], False)"
| "stream_turns (ClientGone # ts) = ([], True)"
| "stream_turns (FromChannel None _ # ts) = ([DoneEvent], True)"
| "stream_turns (FromChannel (Some e) ok # ts) = (if \<not> ok then ([], True)
     else (let (out, ended) = stream_turns ts in (LogEvent e # out, ended)))"
| "stream_turns (Tick # ts) = (let (out, ended) = stream_turns ts in (Keepalive # out, ended))"

definition jobEvents :: "http_io \<Rightarrow> http_request \<Rightarrow> manager \<Rightarrow> payload response \<times> manager" where
  "jobEvents io r m = (case parseAfter (hr_after r) of
       None \<Rightarrow> (writeError 400 ''invalid_after'', m)
     | Some after \<Rightarrow>
         if bytes_contain (hr_accept r) ''text/event-stream'' then streamEvents io r after m
         else (case parse_limit (hr_limit r) of
             None \<Rightarrow> (writeError 400 ''invalid_limit'', m)
           | Some limit \<Rightarrow> (case EventsLimit m (path_value r) after limit of
               None \<Rightarrow> (writeError 404 ''job_not_found'', m)
             | Some es \<Rightarrow> (writeJSON 200 (EventsP es), m))))"

definition transcript_headers :: "serial_capture \<Rightarrow> payload response \<Rightarrow> payload response" where
  \<open>transcript_headers c rs = rs\<lparr>rs_headers :=
     [(''X-MNC-Serial-Truncated'', if sc_truncated c then ''true'' else ''false''),
      (''X-MNC-Serial-Capture-State'', sc_state c), (''Cache-Control'', ''no-store''),
      (''Content-Disposition'', ''attachment; filename="serial-console.bin"''),
      (''Content-Type'', ''application/octet-stream'')]\<rparr>\<close>

definition jobSerialTranscript :: "http_io \<Rightarrow> http_request \<Rightarrow> manager \<Rightarrow> payload response" where
  "jobSerialTranscript io r m = (case SerialTranscript m (path_value r) of
       Inl _ \<Rightarrow> writeError 404 ''serial_transcript_not_found''
     | Inr c \<Rightarrow> if \<not> hi_transcript_open io then writeError 500 ''serial_transcript_failed''
         else transcript_headers c (writeJSON 200 (TranscriptP c)))"

subsection \<open>Storage\<close>

definition storageStatus :: "config \<Rightarrow> http_io \<Rightarrow> manager \<Rightarrow> payload response" where
  "storageStatus cfg io m = (case StorageStatus cfg (ci_stat (hi_cleanup io)) m of
       None \<Rightarrow> writeError 500 ''storage_status_failed'' | Some st \<Rightarrow> writeJSON 200 (StorageP st))"

definition apply_fields :: "bool fields" where
  "apply_fields = [(''apply'', decode_bool)]"

definition cleanupStorage :: "config \<Rightarrow> http_io \<Rightarrow> http_request \<Rightarrow> manager \<Rightarrow> payload response \<times> manager" where
  "cleanupStorage cfg io r m = (case decodeJSON (hi_parse io) (\<lambda>v. decode_struct apply_fields v False) r of
       Inl _ \<Rightarrow> (writeError 400 ''invalid_request'', m)
     | Inr apply \<Rightarrow> (case Cleanup cfg (hi_cleanup io) apply m of
         None \<Rightarrow> (writeError 500 ''storage_cleanup_failed'', m)
       | Some (Some _, _, m') \<Rightarrow> (writeError 500 ''storage_cleanup_failed'', m')
       | Some (None, c, m') \<Rightarrow> (writeJSON 200 (CleanupP c), m')))"

subsection \<open>Serial sessions\<close>

definition decode_access :: "json \<Rightarrow> access \<Rightarrow> access option" where
  "decode_access v old = (case v of
       JNull \<Rightarrow> Some old
     | JStr t \<Rightarrow> Some (if t = [] then NoAccess else if t = ''observer'' then Observer
         else if t = ''controller'' then Controller else OtherAccess)
     | _ \<Rightarrow> None)"

definition session_fields :: "attach_request fields" where
  "session_fields =
     [(''portId'', \<lambda>v r. map_option (\<lambda>s. r\<lparr>ar_port := s\<rparr>) (decode_string v (ar_port r))),
      (''baudRate'', \<lambda>v r. map_option (\<lambda>n. r\<lparr>ar_baud := n\<rparr>) (decode_int v (ar_baud r))),
      (''access'', \<lambda>v r. map_option (\<lambda>a. r\<lparr>ar_access := a\<rparr>) (decode_access v (ar_access r)))]"

text \<open>The body is decoded here; everything else \<open>createSerialSession\<close> uses is an input.\<close>

definition session_body :: "http_io \<Rightarrow> http_request \<Rightarrow> decode_failure + attach_request" where
  "session_body io r = decodeJSON (hi_parse io) (\<lambda>v. decode_struct session_fields v
     \<lparr>ar_port = [], ar_baud = 0, ar_access = NoAccess, ar_replay = False\<rparr>) r"

definition map_payload :: "('a \<Rightarrow> 'b) \<Rightarrow> 'a response \<Rightarrow> 'b response" where
  "map_payload f rs = \<lparr>rs_status = rs_status rs, rs_headers = rs_headers rs, rs_body = map_sum id f (rs_body rs)\<rparr>"

definition create_session :: "http_io \<Rightarrow> http_request \<Rightarrow> sessions \<Rightarrow> payload response \<times> sessions" where
  "create_session io r sx = (let (rs, sx') = createSerialSession ((hi_create io)\<lparr>cs_body := session_body io r\<rparr>) sx
     in (map_payload SessionP rs, sx'))"

definition delete_session :: "http_request \<Rightarrow> sessions \<Rightarrow> payload response \<times> sessions" where
  "delete_session r sx = (let (rs, sx') = deleteSerialSession (path_value r) sx in (map_payload (\<lambda>_. EmptyP) rs, sx'))"

text \<open>The response of a stream that was accepted is written by the web socket library.\<close>

definition switching :: "payload response" where
  "switching = \<lparr>rs_status = 101, rs_headers = [], rs_body = Inr EmptyP\<rparr>"

definition open_stream :: "http_io \<Rightarrow> http_request \<Rightarrow> sessions \<Rightarrow> payload response \<times> sessions" where
  "open_stream io r sx = (let (rs, sx') = stream_open (path_value r) (hi_now io) (hi_socket_accepted io) sx
     in (case rs of None \<Rightarrow> switching | Some rs \<Rightarrow> map_payload (\<lambda>_. EmptyP) rs, sx'))"

subsection \<open>The web pages\<close>

text \<open>\<open>Handler\<close> of \<open>internal/webui/webui.go\<close>; the status of a path below the embedded files is an input.\<close>

definition page_headers :: "payload response \<Rightarrow> payload response" where
  "page_headers rs = add_header ''Content-Security-Policy''
       (''default-src 'self'; connect-src 'self'; img-src 'self' data:; style-src 'self' 'unsafe-inline'; ''
        @ ''script-src 'self'; base-uri 'none'; frame-ancestors 'none'; form-action 'self'' @ [CHR 0x27])
     (add_header ''X-Frame-Options'' ''DENY'' (add_header ''Cache-Control'' ''no-cache'' rs))"

definition plain_response :: "nat \<Rightarrow> payload response" where
  "plain_response code = \<lparr>rs_status = code, rs_headers = [], rs_body = Inr (if code = 200 then PageP else EmptyP)\<rparr>"

definition web_page :: "http_io \<Rightarrow> http_request \<Rightarrow> payload response" where
  "web_page io r = (if hr_method r \<notin> {''GET'', ''HEAD''} then plain_response 405
     else page_headers (if hr_path r = [] then add_header ''Content-Type'' ''text/html; charset=utf-8'' (plain_response 200)
       else if bytes_contain (join_with slash (hr_path r)) ''..'' then plain_response 404
       else plain_response (hi_file io (hr_path r))))"

subsection \<open>A request\<close>

definition on_mgr :: "payload response \<times> manager \<Rightarrow> service \<Rightarrow> payload response \<times> service" where
  "on_mgr x s = (fst x, s\<lparr>sv_mgr := snd x\<rparr>)"

definition on_sessions :: "payload response \<times> sessions \<Rightarrow> service \<Rightarrow> payload response \<times> service" where
  "on_sessions x s = (fst x, s\<lparr>sv_sessions := snd x\<rparr>)"

definition on_store :: "payload response \<times> store \<Rightarrow> service \<Rightarrow> payload response \<times> service" where
  "on_store x s = (fst x, s\<lparr>sv_mgr := (sv_mgr s)\<lparr>mg_store := snd x\<rparr>\<rparr>)"

fun handle :: "config \<Rightarrow> api_config \<Rightarrow> http_io \<Rightarrow> http_request \<Rightarrow> endpoint \<Rightarrow> service \<Rightarrow> payload response \<times> service" where
  "handle cfg ac io r Health s = (health ac io, s)"
| "handle cfg ac io r CapabilitiesE s = (capabilities cfg ac io r s, s)"
| "handle cfg ac io r StorageE s = (storageStatus cfg io (sv_mgr s), s)"
| "handle cfg ac io r CleanupE s = on_mgr (cleanupStorage cfg io r (sv_mgr s)) s"
| "handle cfg ac io r ListArtifacts s = (listArtifacts cfg io s, s)"
| "handle cfg ac io r ImportArtifact s = on_store (importArtifact (cf_codec cfg) io (mg_store (sv_mgr s))) s"
| "handle cfg ac io r GetArtifact s = (getArtifact cfg r s, s)"
| "handle cfg ac io r XilinxTargets s = (xilinxTargets ac io r s, s)"
| "handle cfg ac io r SerialPorts s = (serialPorts io s, s)"
| "handle cfg ac io r CreateSession s = on_sessions (create_session io r (sv_sessions s)) s"
| "handle cfg ac io r DeleteSession s = on_sessions (delete_session r (sv_sessions s)) s"
| "handle cfg ac io r StreamSession s = on_sessions (open_stream io r (sv_sessions s)) s"
| "handle cfg ac io r GetSubmission s = (getSubmission cfg r (sv_mgr s), s)"
| "handle cfg ac io r ListJobs s = (writeJSON 200 (JobsP (List_jobs cfg (sv_mgr s))), s)"
| "handle cfg ac io r CreateJob s = on_mgr (createJob cfg io r (sv_mgr s)) s"
| "handle cfg ac io r GetJob s = (getJob cfg r (sv_mgr s), s)"
| "handle cfg ac io r CancelJob s = on_mgr (cancelJob cfg io r (sv_mgr s)) s"
| "handle cfg ac io r JobEvents s = on_mgr (jobEvents io r (sv_mgr s)) s"
| "handle cfg ac io r JobTranscript s = (jobSerialTranscript io r (sv_mgr s), s)"
| "handle cfg ac io r WebUI s = (web_page io r, s)"

definition serve :: "config \<Rightarrow> api_config \<Rightarrow> http_io \<Rightarrow> http_request \<Rightarrow> service \<Rightarrow> payload response \<times> service" where
  "serve cfg ac io r s = (let (protected, e) = route r;
       (rs, s') = (case (if protected then authorize (ac_token ac) r else None) of
           Some refused \<Rightarrow> (refused, s)
         | None \<Rightarrow> handle cfg ac io r e s)
     in (securityHeaders rs, s'))"

subsection \<open>What a request may do\<close>

text \<open>The handlers that only read leave the service as it is.\<close>

definition reading :: "endpoint set" where
  "reading = {Health, CapabilitiesE, StorageE, ListArtifacts, GetArtifact, XilinxTargets, SerialPorts, GetSubmission,
     ListJobs, GetJob, JobTranscript, WebUI}"

lemma reading_changes_nothing: "e \<in> reading \<Longrightarrow> snd (handle cfg ac io r e s) = s"
  by (auto simp: reading_def)

lemma serve_cases:
  assumes "route r = (protected, e)"
  shows "serve cfg ac io r s = (case (if protected then authorize (ac_token ac) r else None) of
      Some refused \<Rightarrow> (securityHeaders refused, s)
    | None \<Rightarrow> (securityHeaders (fst (handle cfg ac io r e s)), snd (handle cfg ac io r e s)))"
  using assms by (simp add: serve_def split: option.split prod.split)

lemma serve_authorized:
  assumes "route r = (protected, e)" "protected \<Longrightarrow> authorize (ac_token ac) r = (None :: payload response option)"
  shows "serve cfg ac io r s = (securityHeaders (fst (handle cfg ac io r e s)), snd (handle cfg ac io r e s))"
  using assms by (simp add: serve_cases)

lemma security_headers [simp]: "rs_status (securityHeaders rs) = rs_status rs" "rs_body (securityHeaders rs) = rs_body rs"
  by (simp_all add: securityHeaders_def add_header_def)

lemma safe_headers: "set [(''X-Content-Type-Options'', ''nosniff''), (''Referrer-Policy'', ''no-referrer'')]
    \<subseteq> set (rs_headers (fst (serve cfg ac io r s)))"
  by (simp add: serve_def securityHeaders_def add_header_def split: prod.split)

text \<open>An open stream that is not authenticated yet holds nothing: only the list of streams grows.\<close>

lemma open_stream_effect:
  "snd (open_stream io r sx) = sx
    \<or> pending (path_value r) (hi_now io) sx \<and> snd (open_stream io r sx) = sx\<lparr>sx_streams := sx_streams sx @ [Authenticating (path_value r)]\<rparr>"
  by (auto simp: open_stream_def stream_open_def)

lemma open_stream_body: "rs_body (fst (open_stream io r sx)) \<in> {Inl ''serial_session_not_found'', Inr EmptyP}"
  by (auto simp: open_stream_def stream_open_def switching_def map_payload_def writeError_def)

lemma web_page_body: "rs_body (web_page io r) \<in> {Inr PageP, Inr EmptyP}"
  by (simp add: web_page_def page_headers_def plain_response_def add_header_def)


text \<open>Four uploads refused before any artifact is read; a second file is refused after the first one
  has been stored.\<close>

lemma import_rejects:
  "importArtifact cd (io\<lparr>hi_parts := None\<rparr>) so = (writeError 400 ''invalid_multipart'', so)"
  "importArtifact cd (io\<lparr>hi_parts := Some []\<rparr>) so = (writeError 400 ''artifact_missing'', so)"
  "importArtifact cd (io\<lparr>hi_parts := Some (BrokenPart # ps)\<rparr>) so = (writeError 400 ''invalid_multipart'', so)"
  "form \<noteq> ''artifact'' \<or> file = [] \<Longrightarrow>
     importArtifact cd (io\<lparr>hi_parts := Some (Part form file pieces fault now # ps)\<rparr>) so = (writeError 400 ''unexpected_form_field'', so)"
  by (auto simp: importArtifact_def)

lemma second_file_refused_after_import:
  assumes "Import cd (hi_grow io) fault now pieces so = (Inr a, so')" "file \<noteq> []" "file' \<noteq> []"
    and "hi_parts io = Some [Part ''artifact'' file pieces fault now, Part ''artifact'' file' pieces' fault' now']"
  shows "importArtifact cd io so = (writeError 400 ''multiple_artifacts'', so')"
  using assms by (simp add: importArtifact_def)

text \<open>The answer of \<open>createJob\<close> tells what happened: 200, 409 and 410 leave the manager as it was, 200
  answers with the job of the request id; 507 is the answer to a full budget only.\<close>

lemma create_failure_status: "rs_status (create_failure e) \<in> {400, 409, 410, 507}"
  "rs_status (create_failure e) = 409 \<longleftrightarrow> (\<exists>q. e = RequestConflict q)"
  "rs_status (create_failure e) = 410 \<longleftrightarrow> (\<exists>q. e = Expired q)"
  "rs_status (create_failure e) = 507 \<longleftrightarrow> (\<exists>x. e = NoSpace x \<and> full x)"
  by (cases e; simp add: writeError_def)+

lemma submission_error_keeps_manager:
  "CreateSubmissionContext cfg su q m = (Inl e, m') \<Longrightarrow> e = RequestConflict x \<or> e = Expired x \<Longrightarrow> m' = m"
  by (auto simp: CreateSubmissionContext_def split: verdict.splits prod.splits option.splits sum.splits)

lemma submission_replay_keeps_manager:
  "CreateSubmissionContext cfg su q m = (Inr (j, True), m') \<Longrightarrow> m' = m"
  by (auto simp: CreateSubmissionContext_def split: verdict.splits prod.splits option.splits sum.splits)

lemma createJob_answers:
  assumes "createJob cfg io r m = (rs, m')"
  shows "rs_status rs \<in> {200, 201, 400, 409, 410, 507} \<and> (rs_status rs \<in> {200, 409, 410} \<longrightarrow> m' = m)"
proof (cases "decodeJSON (hi_parse io) (decode_request (hi_plan_of io)) r")
  case (Inl e)
  with assms show ?thesis by (auto simp: createJob_def writeError_def)
next
  case (Inr q)
  show ?thesis
  proof (cases "CreateSubmissionContext cfg (hi_submit io) q m")
    case (Pair result m1)
    show ?thesis
    proof (cases result)
      case (Inl e)
      with assms Inr Pair have "rs = create_failure e" "m' = m1" by (simp_all add: createJob_def)
      with submission_error_keeps_manager [OF Pair [unfolded Inl]] create_failure_status [of e] show ?thesis
        by fastforce
    next
      case r: (Inr x)
      with assms Inr Pair submission_replay_keeps_manager [of cfg "hi_submit io" q m "fst x" m1] show ?thesis
        by (cases x) (auto simp: createJob_def add_header_def writeJSON_def split: if_splits)
    qed
  qed
qed

text \<open>The stream of a job ends by the client, by a failed write or with the event that says so, which is
  the last one.\<close>

lemma done_event_is_last: "DoneEvent \<in> set (fst (stream_turns ts)) \<Longrightarrow>
    snd (stream_turns ts) \<and> last (fst (stream_turns ts)) = DoneEvent \<and> DoneEvent \<notin> set (butlast (fst (stream_turns ts)))"
  by (induction ts rule: stream_turns.induct) (auto simp: Let_def split: prod.splits if_splits)

subsection \<open>A sample request\<close>

definition demo_api :: api_config where
  "demo_api = \<lparr>ac_version = ''1'', ac_token = ''t'', ac_tftp = '':69'', ac_max_body = 0, ac_max_console = 0, ac_xsdb_path = []\<rparr>"

definition demo_service :: service where
  "demo_service = \<lparr>sv_mgr = demo_start, sv_sessions = newSerialSessions demo_idle\<rparr>"

definition demo_http_io :: http_io where
  "demo_http_io = \<lparr>hi_now = 7, hi_host = sample_host, hi_interfaces = None, hi_script_written = True,
     hi_command_failed = False, hi_output = [], hi_discoveries = (\<lambda>_. None), hi_list_fault = False, hi_parts = None,
     hi_grow = (\<lambda>_ so. (None, so)), hi_text = (\<lambda>_. []), hi_submit = demo_submit ''j1'', hi_cancel = sample_io,
     hi_cleanup = sample_cleanup_io, hi_flusher = True, hi_writes = 100,
     hi_create = \<lparr>cs_body = Inl BodyMalformed, cs_canceled = False, cs_found = None, cs_can_open = False,
       cs_key = None, cs_token = None, cs_now = 7\<rparr>,
     hi_transcript_open = True, hi_socket_accepted = True, hi_file = (\<lambda>_. 404), hi_parse = (\<lambda>_. None),
     hi_plan_of = (\<lambda>_ _. None)\<rparr>"

definition demo_http_request :: "string \<Rightarrow> http_request" where
  "demo_http_request authorization = \<lparr>hr_method = ''POST'', hr_path = [''api'', ''v1'', ''jobs''], hr_remote = ''10.0.0.2:5'',
     hr_host = ''station:80'', hr_authorization = authorization, hr_accept = [], hr_after = [], hr_limit = None,
     hr_url = [], hr_body = [], hr_body_fault = False\<rparr>"


end
