(* ===== verification/Daemon.thy ===== *)
theory Daemon
  imports HttpApi Runner JobRecovery
begin

text \<open>
  The daemon (\<open>internal/daemon/token.go\<close>, \<open>internal/daemon/daemon.go\<close>, \<open>internal/statelock\<close>,
  \<open>cmd/mpsd/main.go\<close>): the API token and its file, the start of the station from its configuration and
  the disk, in the order of \<open>Run\<close>, with everything the station is then made of, and the token commands of
  the command line.  Opening sockets and files, the random bytes and the environment are inputs.  The
  build is the Unix one, so an own hardware server is never started.
\<close>

subsection \<open>The token files\<close>

datatype file_kind = MissingFile | RegularFile | OtherFile | BadPath

record token_files =
  tf_lstat :: "string \<Rightarrow> file_kind"
  tf_read :: "string \<Rightarrow> string option"

definition put_file :: "string \<Rightarrow> string \<Rightarrow> token_files \<Rightarrow> token_files" where
  "put_file path content tf = tf\<lparr>tf_lstat := (tf_lstat tf)(path := RegularFile), tf_read := (tf_read tf)(path := Some content)\<rparr>"

definition delete_file :: "string \<Rightarrow> token_files \<Rightarrow> token_files" where
  "delete_file path tf = tf\<lparr>tf_lstat := (tf_lstat tf)(path := MissingFile), tf_read := (tf_read tf)(path := None)\<rparr>"

datatype token_error = BothTokens | TokenUnreadable | TokenFileEmpty | TokenNotALine | TokenTooShort
  | TokenNotRegular | TokenNotInspected | TokenNoDirectory | TokenNoRandom | TokenNotCreated | TokenNotWritten | TokenNotClosed

definition check_token :: "string \<Rightarrow> token_error + string" where
  "check_token token = (if contains_any line_break_chars token then Inl TokenNotALine
     else if token \<noteq> [] \<and> length token < 16 then Inl TokenTooShort else Inr token)"

definition LoadAPIToken :: "token_files \<Rightarrow> string \<Rightarrow> string \<Rightarrow> token_error + string" where
  "LoadAPIToken tf env path = (if env \<noteq> [] \<and> path \<noteq> [] then Inl BothTokens
     else if path = [] then check_token env
     else (case tf_read tf path of
         None \<Rightarrow> Inl TokenUnreadable
       | Some data \<Rightarrow> if TrimSpace data = [] then Inl TokenFileEmpty else check_token (TrimSpace data)))"

text \<open>What the system does while a file is created: the random bytes, the directory, the opening (another
  process may be first, then the files are as it left them), the writing and the closing.\<close>

datatype open_result = Opened | Raced token_files | NotOpened

record token_io =
  ti_random :: "(nat \<Rightarrow> char) option"
  ti_directory :: bool
  ti_opening :: open_result
  ti_chmod :: bool
  ti_written :: bool
  ti_synced :: bool
  ti_closed :: bool

definition GenerateAPIToken :: "token_io \<Rightarrow> string option" where
  "GenerateAPIToken io = map_option (\<lambda>f. hex_encode (map f [0..<24])) (ti_random io)"

definition LoadOrCreateAPIToken :: "token_io \<Rightarrow> string \<Rightarrow> token_files \<Rightarrow> (token_error + string) \<times> token_files" where
  "LoadOrCreateAPIToken io path tf = (case tf_lstat tf path of
       OtherFile \<Rightarrow> (Inl TokenNotRegular, tf)
     | RegularFile \<Rightarrow> (LoadAPIToken tf [] path, tf)
     | BadPath \<Rightarrow> (Inl TokenNotInspected, tf)
     | MissingFile \<Rightarrow>
         if \<not> ti_directory io then (Inl TokenNoDirectory, tf)
         else (case GenerateAPIToken io of
             None \<Rightarrow> (Inl TokenNoRandom, tf)
           | Some token \<Rightarrow> (case ti_opening io of
               Raced tf' \<Rightarrow> (LoadAPIToken tf' [] path, tf')
             | NotOpened \<Rightarrow> (Inl TokenNotCreated, tf)
             | Opened \<Rightarrow>
                 if \<not> ti_written io then (Inl TokenNotWritten, delete_file path tf)
                 else if \<not> ti_closed io then (Inl TokenNotClosed, delete_file path tf)
                 else (Inr token, put_file path (token @ [newline]) tf))))"

text \<open>A rotation truncates the file before it writes; when it fails from there on, what is left is an
  empty file or the new token.\<close>

definition RotateAPIToken :: "token_io \<Rightarrow> string \<Rightarrow> token_files \<Rightarrow> (token_error + string) \<times> token_files" where
  "RotateAPIToken io path tf = (case tf_lstat tf path of
       MissingFile \<Rightarrow> (Inl TokenNotInspected, tf)
     | BadPath \<Rightarrow> (Inl TokenNotInspected, tf)
     | OtherFile \<Rightarrow> (Inl TokenNotRegular, tf)
     | RegularFile \<Rightarrow> (case GenerateAPIToken io of
         None \<Rightarrow> (Inl TokenNoRandom, tf)
       | Some token \<Rightarrow>
           if ti_opening io \<noteq> Opened then (Inl TokenNotCreated, tf)
           else if \<not> ti_chmod io then (Inl TokenNotCreated, put_file path [] tf)
           else if \<not> ti_written io then (Inl TokenNotWritten, put_file path [] tf)
           else (let tf' = put_file path (token @ [newline]) tf in
             if \<not> ti_synced io then (Inl TokenNotWritten, tf')
             else if \<not> ti_closed io then (Inl TokenNotClosed, tf')
             else (Inr token, tf'))))"

subsection \<open>Who may be asked for a token\<close>

text \<open>\<open>strings.EqualFold(host, "localhost")\<close>: case is ignored, and the long s is an s.\<close>

fun fold_long_s :: "string \<Rightarrow> string" where
  "fold_long_s (a # b # cs) = (if a = CHR 0xC5 \<and> b = CHR 0xBF then CHR ''s'' # fold_long_s cs else a # fold_long_s (b # cs))"
| "fold_long_s cs = cs"

definition localhost :: "string \<Rightarrow> bool" where
  "localhost h = equal_fold (fold_long_s h) ''localhost''"

definition IsLoopbackListen :: "string \<Rightarrow> bool" where
  "IsLoopbackListen address = (case SplitHostPort address of
       None \<Rightarrow> False
     | Some (h, _) \<Rightarrow> localhost h \<or> (case ParseIP h of None \<Rightarrow> False | Some a \<Rightarrow> IsLoopback a))"

subsection \<open>Starting the station\<close>

record daemon_config =
  dc_version :: string
  dc_http :: string
  dc_tftp :: string
  dc_data :: string
  dc_xsdb :: string
  dc_token_file :: string
  dc_token :: string
  dc_timeout :: int
  dc_compressed :: int
  dc_uncompressed :: int
  dc_baud :: int
  dc_console :: int

definition ResolveAPIToken :: "token_io \<Rightarrow> daemon_config \<Rightarrow> token_files \<Rightarrow> (token_error + string \<times> string) \<times> token_files" where
  "ResolveAPIToken io dc tf = (case LoadAPIToken tf (dc_token dc) (dc_token_file dc) of
       Inl e \<Rightarrow> (Inl e, tf)
     | Inr token \<Rightarrow>
         if token \<noteq> [] then (Inr (token, dc_token_file dc), tf)
         else if IsLoopbackListen (dc_http dc) then (Inr ([], []), tf)
         else (let path = join_elems [dc_data dc, ''api-token''] in case LoadOrCreateAPIToken io path tf of
             (Inl e, tf') \<Rightarrow> (Inl e, tf')
           | (Inr token, tf') \<Rightarrow> (Inr (token, path), tf')))"

text \<open>\<open>statelock.Acquire\<close>: the lock file is missing or regular, it opens, and no other process has it.\<close>

datatype lock_error = NoStateDirectory | LockNotRegular | LockNotOpened | StateInUse

record lock_io =
  lk_directory :: bool
  lk_kind :: file_kind
  lk_opened :: bool
  lk_free :: bool

definition Acquire :: "lock_io \<Rightarrow> lock_error option" where
  "Acquire lk = (if \<not> lk_directory lk then Some NoStateDirectory
     else if lk_kind lk = OtherFile then Some LockNotRegular
     else if \<not> lk_opened lk then Some LockNotOpened
     else if \<not> lk_free lk then Some StateInUse else None)"

definition DefaultLimits :: limits where
  "DefaultLimits = \<lparr>lm_compressed = 2 * 2 ^ 30, lm_uncompressed = 8 * 2 ^ 30, lm_file = 6 * 2 ^ 30, lm_files = 256\<rparr>"

definition DefaultLimit :: int where "DefaultLimit = 10 * 2 ^ 30"

text \<open>\<open>OpenStore\<close>: the store is what its directory holds; \<open>absolute\<close> is \<open>filepath.Abs\<close>.\<close>

definition OpenStore :: "(string \<Rightarrow> string option) \<Rightarrow> bool \<Rightarrow> string \<Rightarrow> limits \<Rightarrow> store \<Rightarrow> store option" where
  "OpenStore absolute made path lm disk = (if \<not> validateLimits lm then None
     else (case absolute path of None \<Rightarrow> None | Some base \<Rightarrow>
       if \<not> made then None else Some (disk\<lparr>so_path := join_elems [base, ''artifacts''], so_limits := lm\<rparr>)))"

datatype daemon_error = EmptyAddress | BadTimeout | BadConsoleBaud | BadConsoleLimit | Locked lock_error
  | TokenFailure token_error | NoStore | NotCleaned | NoConsoleService | NoRunner | NotRecovered load_failure
  | NoJobStore | NoApi | NoListener | ShutdownFailed | ServeFailed

record daemon_io =
  di_lock :: lock_io
  di_token :: token_io
  di_abs :: "string \<Rightarrow> string option"
  di_store_made :: bool
  di_cleaned :: bool
  di_recover :: recover_io
  di_listening :: bool

record station =
  st_api :: api_config
  st_config :: config
  st_service :: service
  st_runner :: xilinx_config
  st_token_file :: string

definition check_daemon :: "daemon_config \<Rightarrow> daemon_error option" where
  "check_daemon dc = first_some
     [if dc_http dc = [] \<or> dc_tftp dc = [] \<or> dc_data dc = [] then Some EmptyAddress else None,
      if dc_timeout dc \<le> 0 then Some BadTimeout else None,
      if \<not> ValidateBaudRate (dc_baud dc) then Some BadConsoleBaud else None,
      if dc_console dc \<le> 0 then Some BadConsoleLimit else None]"

definition station_limits :: "daemon_config \<Rightarrow> limits" where
  "station_limits dc = DefaultLimits\<lparr>lm_compressed := dc_compressed dc, lm_uncompressed := dc_uncompressed dc\<rparr>"

text \<open>The configuration of the job manager; the codec, the clock text and the runner's check are the ones
  of \<open>base\<close>.  No deployment task is registered.\<close>

definition station_config :: "daemon_config \<Rightarrow> string \<Rightarrow> config \<Rightarrow> config" where
  "station_config dc jobs_root base = base\<lparr>cf_root := jobs_root, cf_registry := [],
     cf_console := True, cf_console_limit := dc_console dc\<rparr>"

definition station_runner :: "daemon_config \<Rightarrow> xilinx_config option" where
  "station_runner dc = NewXilinx \<lparr>xc_executor = True, xc_listen = dc_tftp dc, xc_retries = 0, xc_timeout = 0,
     xc_max_block = 0, xc_job_timeout = dc_timeout dc, xc_serial = True\<rparr>"

definition station_api :: "daemon_config \<Rightarrow> string \<Rightarrow> api_config" where
  "station_api dc token = \<lparr>ac_version = dc_version dc, ac_token = token, ac_tftp = dc_tftp dc, ac_max_body = 0,
     ac_max_console = dc_console dc, ac_xsdb_path = dc_xsdb dc\<rparr>"

text \<open>\<open>Run\<close> up to its last select, from the checked configuration with the lock held.  The manager on the
  disk is \<open>disk\<close>, with the store's directory as its store.\<close>

definition start_services :: "daemon_io \<Rightarrow> config \<Rightarrow> daemon_config \<Rightarrow> string \<Rightarrow> string \<Rightarrow> manager \<Rightarrow> daemon_error + station" where
  "start_services io base dc token token_file disk =
     (case OpenStore (di_abs io) (di_store_made io) (join_elems [dc_data dc, ''store'']) (station_limits dc) (mg_store disk) of
        None \<Rightarrow> Inl NoStore
      | Some so \<Rightarrow>
          if \<not> di_cleaned io then Inl NotCleaned
          else (case New_console (dc_baud dc) 0 of
              None \<Rightarrow> Inl NoConsoleService
            | Some console \<Rightarrow> (case station_runner dc of
                None \<Rightarrow> Inl NoRunner
              | Some runner \<Rightarrow>
                (case di_abs io (join_elems [dc_data dc, ''jobs'']) of None \<Rightarrow> Inl NoJobStore
                 | Some jobs_root \<Rightarrow>
                  (let cfg = station_config dc jobs_root base in
                   case OpenManager cfg (di_recover io) (Some DefaultLimit) (disk\<lparr>mg_store := CleanStaging so\<rparr>) of
                     (Some e, _) \<Rightarrow> Inl (NotRecovered e)
                   | (None, m) \<Rightarrow> (case new_server True (so_limits (mg_store m)) (station_api dc token) of
                       None \<Rightarrow> Inl NoApi
                     | Some ac \<Rightarrow>
                         if \<not> di_listening io then Inl NoListener
                         else Inr \<lparr>st_api = ac, st_config = cfg,
                           st_service = \<lparr>sv_mgr = m, sv_sessions = newSerialSessions console\<rparr>,
                           st_runner = runner, st_token_file = token_file\<rparr>))))))"

definition Run_daemon :: "daemon_io \<Rightarrow> config \<Rightarrow> daemon_config \<Rightarrow> token_files \<Rightarrow> manager \<Rightarrow>
    (daemon_error + station) \<times> token_files" where
  "Run_daemon io base dc tf disk = (case check_daemon dc of
       Some e \<Rightarrow> (Inl e, tf)
     | None \<Rightarrow> (case Acquire (di_lock io) of
         Some e \<Rightarrow> (Inl (Locked e), tf)
       | None \<Rightarrow> (case ResolveAPIToken (di_token io) dc tf of
           (Inl e, tf') \<Rightarrow> (Inl (TokenFailure e), tf')
         | (Inr (token, token_file), tf') \<Rightarrow> (start_services io base dc token token_file disk, tf'))))"

text \<open>The last select: a shutdown, or the end of the HTTP server.\<close>

datatype daemon_end = Shutdown bool \<comment> \<open>in time\<close> | ServerEnded bool \<comment> \<open>\<open>ErrServerClosed\<close>\<close>

fun daemon_result :: "daemon_end \<Rightarrow> daemon_error option" where
  "daemon_result (Shutdown in_time) = (if in_time then None else Some ShutdownFailed)"
| "daemon_result (ServerEnded stopped) = (if stopped then None else Some ServeFailed)"

text \<open>The address a browser is sent to.\<close>

definition JoinHostPort :: "string \<Rightarrow> string \<Rightarrow> string" where
  "JoinHostPort h p = (if CHR '':'' \<in> set h then ''['' @ h @ '']:'' @ p else h @ '':'' @ p)"

definition listenerURL :: "string \<Rightarrow> string" where
  "listenerURL address = (case SplitHostPort address of
       None \<Rightarrow> ''http://'' @ address @ ''/''
     | Some (h, p) \<Rightarrow> ''http://'' @ JoinHostPort (if h \<in> {''0.0.0.0'', ''::''} then ''127.0.0.1'' else h) p @ ''/'')"


subsection \<open>The token is the one clients need\<close>

lemma generated_token:
  assumes "GenerateAPIToken io = Some token"
  shows "length token = 48" "\<And>c. c \<in> set token \<Longrightarrow> printable c"
proof -
  from assms obtain f where t: "token = hex_encode (map f [0..<24])" by (auto simp: GenerateAPIToken_def)
  have "length (hex_encode s) = 2 * length s" for s
    by (induction s) (simp_all add: hex_encode_def)
  with t show "length token = 48" by simp
  show "printable c" if "c \<in> set token" for c using that t hex_encode_printable by simp
qed

lemma newline_code: "char_of (10 :: nat) = newline" by code_simp

lemma newline_space: "[newline] \<in> set space_strings"
  "r \<in> set space_strings \<Longrightarrow> last r = newline \<Longrightarrow> r = [newline]"
proof -
  show "[newline] \<in> set space_strings" by (simp add: space_strings_def space_runes_def newline_code)
  have "r \<in> set space_strings \<Longrightarrow> of_char (last r) = (10 :: nat) \<Longrightarrow> r = [newline]"
    by (auto simp: space_strings_def space_runes_def upt_rec newline_code)
  then show "r \<in> set space_strings \<Longrightarrow> last r = newline \<Longrightarrow> r = [newline]" by simp
qed

lemma find_newline: "find (\<lambda>r. prefix r (newline # x)) (map rev space_strings) = Some [newline]"
proof (cases "find (\<lambda>r. prefix r (newline # x)) (map rev space_strings)")
  case None
  then show ?thesis using newline_space(1) by (force simp: find_None_iff)
next
  case (Some r)
  then have "r \<in> set (map rev space_strings)" "prefix r (newline # x)"
    by (auto simp: find_Some_iff)
  then obtain q where q: "q \<in> set space_strings" "r = rev q" "prefix (rev q) (newline # x)" by auto
  then have "last q = newline" using space_edges [OF q(1)] by (cases "rev q") (auto simp: hd_rev [symmetric])
  with q Some show ?thesis using newline_space(2) by auto
qed

lemma trailing_newline:
  assumes "s \<noteq> []" "printable (hd s)" "printable (last s)"
  shows "TrimSpace (s @ [newline]) = s"
proof -
  have "\<not> prefix r (s @ [newline])" if r: "r \<in> set space_strings" for r
    using space_edges [OF r] assms(1,2) by (cases r; cases s) (auto simp: prefix_def)
  then have left: "trim_left (s @ [newline]) = s @ [newline]"
    unfolding trim_left_def by (rule strip_left_none)
  note find_newline
  then have step: "strip_left (map rev space_strings) (Suc n) (newline # x) = strip_left (map rev space_strings) n x" for n x
    by (simp del: list.map)
  have "\<not> prefix r (rev s)" if "r \<in> set (map rev space_strings)" for r
  proof -
    from that obtain q where q: "q \<in> set space_strings" "r = rev q" unfolding set_map by blast
    then have "r \<noteq> []" "\<not> printable (hd r)" using space_edges [OF q(1)] by (simp_all add: hd_rev)
    moreover have "printable (hd (rev s))" using assms by (simp add: hd_rev)
    ultimately show ?thesis using assms(1) by (cases r; cases "rev s") (auto simp: prefix_def)
  qed
  then have "strip_left (map rev space_strings) n (rev s) = rev s" for n
    by (rule strip_left_none)
  then have "trim_right (s @ [newline]) = s" by (simp add: trim_right_def step del: strip_left.simps)
  with left show ?thesis by (simp add: TrimSpace_def)
qed

lemma check_token_accepts: "check_token t = Inr token \<longleftrightarrow>
    token = t \<and> \<not> contains_any line_break_chars t \<and> (t = [] \<or> 16 \<le> length t)"
  by (auto simp: check_token_def)

lemma generated_token_accepted:
  assumes "GenerateAPIToken io = Some token"
  shows "TrimSpace (token @ [newline]) = token" "check_token token = Inr token" "token \<noteq> []"
proof -
  note g = generated_token [OF assms]
  then show n: "token \<noteq> []" by auto
  with g(2) show "TrimSpace (token @ [newline]) = token" by (intro trailing_newline) auto
  have "c \<notin> set token" if "c \<in> set line_break_chars" for c
    using that g(2) [of c] by (auto simp: line_break_chars_def printable_def)
  then show "check_token token = Inr token"
    using g(1) by (auto simp: check_token_accepts contains_any_def list_ex_iff)
qed

lemma LoadAPIToken_good:
  assumes "LoadAPIToken tf env path = Inr token"
  shows "\<not> contains_any line_break_chars token" "token = [] \<or> 16 \<le> length token" "path \<noteq> [] \<Longrightarrow> token \<noteq> []"
  using assms by (auto simp: LoadAPIToken_def check_token_accepts split: if_splits option.splits)

text \<open>A managed token is created once: every later start finds the same one, and a rotation that
  reports a token left exactly that token.\<close>

lemma created_token_is_found_again:
  assumes "LoadOrCreateAPIToken io path tf = (Inr token, tf')" "path \<noteq> []"
  shows "LoadAPIToken tf' [] path = Inr token"
    "tf_lstat tf' path = RegularFile \<Longrightarrow> LoadOrCreateAPIToken io' path tf' = (Inr token, tf')"
proof -
  show "LoadAPIToken tf' [] path = Inr token"
    using assms generated_token_accepted
    by (auto simp: LoadOrCreateAPIToken_def LoadAPIToken_def put_file_def
        split: file_kind.splits if_splits option.splits open_result.splits)
  then show "LoadOrCreateAPIToken io' path tf' = (Inr token, tf')" if "tf_lstat tf' path = RegularFile"
    using that by (simp add: LoadOrCreateAPIToken_def)
qed

lemma rotated_token_is_loaded:
  assumes "RotateAPIToken io path tf = (Inr token, tf')" "path \<noteq> []"
  shows "LoadAPIToken tf' [] path = Inr token"
  using assms generated_token_accepted
  by (auto simp: RotateAPIToken_def LoadAPIToken_def put_file_def Let_def
      split: file_kind.splits if_splits option.splits)

text \<open>A rotation that fails after the file was truncated leaves a station that cannot start.\<close>

lemma interrupted_rotation:
  assumes "tf_lstat tf path = RegularFile" "ti_random io = Some f" "ti_opening io = Opened" "ti_chmod io"
    "\<not> ti_written io" "path \<noteq> []"
  shows "snd (RotateAPIToken io path tf) = put_file path [] tf"
    "LoadAPIToken (snd (RotateAPIToken io path tf)) [] path = Inl TokenFileEmpty"
proof -
  show left: "snd (RotateAPIToken io path tf) = put_file path [] tf"
    using assms by (simp add: RotateAPIToken_def GenerateAPIToken_def)
  have "TrimSpace [] = []" by (rule TrimSpace_id) simp
  then show "LoadAPIToken (snd (RotateAPIToken io path tf)) [] path = Inl TokenFileEmpty"
    unfolding left by (simp add: LoadAPIToken_def put_file_def assms(6))
qed

lemma joined_not_empty:
  assumes "\<exists>e \<in> set es. e \<noteq> []"
  shows "join_elems es \<noteq> []"
proof -
  let ?step = "\<lambda>c st. if c = [] \<or> c = ''.'' then st
       else if c = ''..'' \<and> st \<noteq> [] \<and> hd st \<noteq> ''..'' then tl st else c # st"
  have one: "\<forall>c \<in> set (?step c st). c \<noteq> []" if "\<forall>c \<in> set st. c \<noteq> []" for c and st :: "string list"
    using that by (cases st) simp_all
  have kept: "\<forall>c \<in> set (fold ?step cs st). c \<noteq> []" if "\<forall>c \<in> set st. c \<noteq> []" for cs and st :: "string list"
    using that
  proof (induction cs arbitrary: st)
    case (Cons c cs)
    show ?case unfolding fold_simps by (rule Cons.IH [OF one [OF Cons.prems]])
  qed simp
  have "join_with slash xs \<noteq> []" if "xs \<noteq> []" "\<forall>c \<in> set xs. c \<noteq> []" for xs :: "string list"
    using that by (cases xs; cases "tl xs") auto
  with kept [of "[]"] have "clean_relative p \<noteq> []" for p
    unfolding clean_relative_def Let_def by simp
  then have "clean_path p \<noteq> []" for p by (simp add: clean_path_def clean_rooted_def)
  moreover have "dropWhile (\<lambda>e. e = []) es \<noteq> []" using assms by (auto simp: dropWhile_eq_Nil_conv)
  ultimately show ?thesis by (simp add: join_elems_def split: list.split)
qed

lemma ResolveAPIToken_good:
  assumes "ResolveAPIToken io dc tf = (Inr (token, path), tf')" "\<not> IsLoopbackListen (dc_http dc)"
  shows "16 \<le> length token \<and> \<not> contains_any line_break_chars token"
proof (cases "LoadAPIToken tf (dc_token dc) (dc_token_file dc)")
  case (Inl e)
  with assms show ?thesis by (simp add: ResolveAPIToken_def)
next
  case (Inr t)
  show ?thesis
  proof (cases "t = []")
    case False
    with assms Inr LoadAPIToken_good [OF Inr] show ?thesis by (auto simp: ResolveAPIToken_def)
  next
    case True
    with assms Inr have "LoadOrCreateAPIToken io (join_elems [dc_data dc, ''api-token'']) tf = (Inr token, tf')"
      by (auto simp: ResolveAPIToken_def Let_def split: prod.splits sum.splits)
    moreover have path: "join_elems [dc_data dc, ''api-token''] \<noteq> []" by (rule joined_not_empty) simp
    ultimately have l: "LoadAPIToken tf' [] (join_elems [dc_data dc, ''api-token'']) = Inr token"
      by (rule created_token_is_found_again(1))
    show ?thesis using LoadAPIToken_good [OF l] path by auto
  qed
qed

text \<open>What \<open>Run\<close> builds, when it gets to serve.\<close>

lemma start_services_station:
  assumes "start_services io base dc token token_file disk = Inr st"
  shows "ac_token (st_api st) = token"
    "\<exists>so. OpenManager (st_config st) (di_recover io) (Some DefaultLimit) (disk\<lparr>mg_store := CleanStaging so\<rparr>)
      = (None, sv_mgr (st_service st))"
    "\<exists>console. New_console (dc_baud dc) 0 = Some console \<and> sv_sessions (st_service st) = newSerialSessions console"
  using assms
  by (auto simp: start_services_def Let_def new_server_def station_api_def split: option.splits if_splits prod.splits)


definition demo_daemon :: daemon_config where
  "demo_daemon = \<lparr>dc_version = ''1'', dc_http = ''0.0.0.0:8042'', dc_tftp = '':69'', dc_data = ''/d'', dc_xsdb = [],
     dc_token_file = [], dc_token = [], dc_timeout = 600, dc_compressed = 1024, dc_uncompressed = 4096,
     dc_baud = 115200, dc_console = 1024\<rparr>"

definition no_files :: token_files where
  "no_files = \<lparr>tf_lstat = (\<lambda>_. MissingFile), tf_read = (\<lambda>_. None)\<rparr>"

definition demo_daemon_io :: daemon_io where
  "demo_daemon_io = \<lparr>di_lock = \<lparr>lk_directory = True, lk_kind = MissingFile, lk_opened = True, lk_free = True\<rparr>,
     di_token = \<lparr>ti_random = Some (\<lambda>_. CHR ''a''), ti_directory = True, ti_opening = Opened, ti_chmod = True,
       ti_written = True, ti_synced = True, ti_closed = True\<rparr>,
     di_abs = Some, di_store_made = True, di_cleaned = True,
     di_recover = \<lparr>rv_io = (\<lambda>_. sample_io), rv_readable = (\<lambda>_. True), rv_remove = (\<lambda>_. None), rv_cleanup = sample_cleanup_io\<rparr>,
     di_listening = True\<rparr>"

lemma demo_daemon_exposed: "\<not> IsLoopbackListen (dc_http demo_daemon)"
  by code_simp

text \<open>The disk of a station that starts for the first time.\<close>

definition demo_disk :: manager where
  "demo_disk = sample_manager []"

lemma demo_recovered: "\<exists>m. OpenManager (station_config demo_daemon ''/d/jobs'' demo_config) (di_recover demo_daemon_io) (Some DefaultLimit)
    (demo_disk\<lparr>mg_store := CleanStaging ((mg_store demo_disk)\<lparr>so_path := ''/d/store/artifacts'', so_limits := station_limits demo_daemon\<rparr>)\<rparr>) = (None, m)"
proof -
  have "case OpenManager (station_config demo_daemon ''/d/jobs'' demo_config) (di_recover demo_daemon_io) (Some DefaultLimit)
    (demo_disk\<lparr>mg_store := CleanStaging ((mg_store demo_disk)\<lparr>so_path := ''/d/store/artifacts'', so_limits := station_limits demo_daemon\<rparr>)\<rparr>)
    of (None, m) \<Rightarrow> True | _ \<Rightarrow> False"
    by code_simp
  then show ?thesis by (auto split: prod.splits option.splits)
qed

lemma demo_checked: "check_daemon demo_daemon = None" "Acquire (di_lock demo_daemon_io) = None"
  by (simp_all add: check_daemon_def demo_daemon_def ValidateBaudRate_def first_some_def Acquire_def demo_daemon_io_def)

lemma demo_token_path: "join_elems [dc_data demo_daemon, ''api-token''] = ''/d/api-token''"
  by code_simp

lemma demo_token: "\<exists>t tf'. GenerateAPIToken (di_token demo_daemon_io) = Some t
    \<and> ResolveAPIToken (di_token demo_daemon_io) demo_daemon no_files = (Inr (t, ''/d/api-token''), tf')"
proof -
  have files: "dc_token demo_daemon = []" "dc_token_file demo_daemon = []" "tf_lstat no_files = (\<lambda>_. MissingFile)"
    "ti_directory (di_token demo_daemon_io)" "ti_opening (di_token demo_daemon_io) = Opened" "ti_written (di_token demo_daemon_io)"
    "ti_closed (di_token demo_daemon_io)" "ti_random (di_token demo_daemon_io) = Some (\<lambda>_. CHR ''a'')"
    by (simp_all add: demo_daemon_def no_files_def demo_daemon_io_def)
  then obtain t where t: "GenerateAPIToken (di_token demo_daemon_io) = Some t" by (simp add: GenerateAPIToken_def)
  have "LoadAPIToken no_files [] [] = Inr []" by (simp add: LoadAPIToken_def check_token_def contains_any_def)
  then have "ResolveAPIToken (di_token demo_daemon_io) demo_daemon no_files
      = (Inr (t, ''/d/api-token''), put_file ''/d/api-token'' (t @ [newline]) no_files)"
    by (simp add: ResolveAPIToken_def files demo_daemon_exposed demo_token_path LoadOrCreateAPIToken_def t Let_def)
  with t show ?thesis by blast
qed

lemma demo_paths: "join_elems [dc_data demo_daemon, ''store''] = ''/d/store''"
    "join_elems [''/d/store'', ''artifacts''] = ''/d/store/artifacts''"
    "join_elems [dc_data demo_daemon, ''jobs''] = ''/d/jobs''"
  by code_simp+

lemma demo_limits: "validateLimits (station_limits demo_daemon)"
  by (simp add: validateLimits_def station_limits_def DefaultLimits_def demo_daemon_def)

lemma demo_console: "\<exists>c. New_console (dc_baud demo_daemon) 0 = Some c"
  by (simp add: New_console_def demo_daemon_def ValidateBaudRate_def DefaultReplayBytes_def)

lemma demo_runner: "\<exists>r. station_runner demo_daemon = Some r"
  by (simp add: station_runner_def NewXilinx_def demo_daemon_def)

lemma demo_daemon_runs:
  "\<exists>st tf'. Run_daemon demo_daemon_io demo_config demo_daemon no_files demo_disk = (Inr st, tf')
    \<and> length (ac_token (st_api st)) = 48"
proof -
  obtain t tf' where t: "GenerateAPIToken (di_token demo_daemon_io) = Some t"
      "ResolveAPIToken (di_token demo_daemon_io) demo_daemon no_files = (Inr (t, ''/d/api-token''), tf')"
    using demo_token by blast
  obtain m where m: "OpenManager (station_config demo_daemon ''/d/jobs'' demo_config) (di_recover demo_daemon_io) (Some DefaultLimit)
    (demo_disk\<lparr>mg_store := CleanStaging ((mg_store demo_disk)\<lparr>so_path := ''/d/store/artifacts'', so_limits := station_limits demo_daemon\<rparr>)\<rparr>)
      = (None, m)" using demo_recovered by blast
  obtain c where c: "New_console (dc_baud demo_daemon) 0 = Some c" using demo_console by blast
  obtain r where r: "station_runner demo_daemon = Some r" using demo_runner by blast
  have io: "di_abs demo_daemon_io = Some" "di_store_made demo_daemon_io" "di_cleaned demo_daemon_io" "di_listening demo_daemon_io"
    by (simp_all add: demo_daemon_io_def)
  have "\<exists>st. start_services demo_daemon_io demo_config demo_daemon t ''/d/api-token'' demo_disk = Inr st"
    by (simp add: start_services_def OpenStore_def demo_limits demo_paths io m c r new_server_def)
  then obtain st where st: "start_services demo_daemon_io demo_config demo_daemon t ''/d/api-token'' demo_disk = Inr st" by blast
  then have "Run_daemon demo_daemon_io demo_config demo_daemon no_files demo_disk = (Inr st, tf')"
    by (simp only: Run_daemon_def demo_checked t(2) option.case prod.case sum.case)
  with start_services_station(1) [OF st] generated_token(1) [OF t(1)] show ?thesis by blast
qed


end
