(* ===== verification/Client.thy ===== *)
theory Client
  imports HttpApi
begin

text \<open>
  The HTTP client of a station (\<open>internal/stationclient/client.go\<close>, \<open>internal/stationclient/readiness.go\<close>,
  \<open>internal/stationclient/file.go\<close>): its configuration, the checks and the request of every operation, the
  reading of responses, redaction, the reading of a transcript in pages and the start of an absent local
  service.  A URL arrives parsed (\<open>net/url\<close>); what the network and the station answer is an input.
  Content ranges are numbers, not header text.  \<open>parse\<close> lexes JSON, as in \<open>Manifest\<close>.
\<close>

subsection \<open>The client\<close>

record origin =
  og_scheme :: string
  og_host :: string
  og_user :: bool
  og_path :: string
  og_query :: string
  og_fragment :: string

record client =
  ct_origin :: origin
  ct_token :: string
  ct_max :: int

datatype client_error =
    BadOrigin
  | BadClientToken
  | NotLoopback
  | InvalidIdentifier
  | NotRetained
  | BadEventRange
  | BadTranscriptRange
  | RequestFailed string
  | ApiError nat string string
  | ResponseUnreadable
  | ResponseTooLarge
  | ResponseMalformed
  | Incompatible
  | ReaderRequired
  | BadContentRange
  | TranscriptTooLong

definition DefaultResponseBytes :: int where "DefaultResponseBytes = 8 * 2 ^ 20"
definition MaxTranscriptBytes :: int where "MaxTranscriptBytes = 2 ^ 20"

definition IsLoopbackURL :: "origin \<Rightarrow> bool" where
  "IsLoopbackURL u = (case ParseIP (og_host u) of None \<Rightarrow> False | Some a \<Rightarrow> IsLoopback a)"

text \<open>\<open>New\<close>; the URL is \<open>None\<close> when it does not parse.\<close>

definition new_client :: "origin option \<Rightarrow> string \<Rightarrow> bool \<Rightarrow> int \<Rightarrow> client_error + client" where
  "new_client url token local_only limit = (case url of
       None \<Rightarrow> Inl BadOrigin
     | Some u \<Rightarrow>
         if og_scheme u \<notin> {''http'', ''https''} \<or> og_host u = [] \<or> og_user u \<or> og_query u \<noteq> [] \<or> og_fragment u \<noteq> []
           \<or> og_path u \<notin> {'''', ''/''} then Inl BadOrigin
         else if contains_any [carriage_return, newline] token then Inl BadClientToken
         else if local_only \<and> \<not> IsLoopbackURL u then Inl NotLoopback
         else Inr \<lparr>ct_origin = u, ct_token = token, ct_max = (if limit \<le> 0 then DefaultResponseBytes else limit)\<rparr>)"

text \<open>Sixteen random bytes.\<close>

definition NewRequestID :: "(nat \<Rightarrow> char) option \<Rightarrow> string option" where
  "NewRequestID random = map_option (\<lambda>f. hex_encode (map f [0..<16])) random"

definition validID :: "string \<Rightarrow> nat \<Rightarrow> bool" where
  "validID key n \<longleftrightarrow> length key = n \<and> list_all is_lower_hex key"

subsection \<open>Redaction\<close>

text \<open>\<open>strings.ReplaceAll\<close> for a token that is not empty.\<close>

function replace_all :: "string \<Rightarrow> string \<Rightarrow> string \<Rightarrow> string" where
  "replace_all old new s = (if s = [] then []
     else if old \<noteq> [] \<and> prefix old s then new @ replace_all old new (drop (length old) s)
     else hd s # replace_all old new (tl s))"
  by pat_completeness auto
termination by (relation "measure (\<lambda>(old, new, s). length s)") auto

declare replace_all.simps [simp del]

text \<open>\<open>strings.Map\<close> with the printable runes: control characters are dropped, an invalid byte becomes the
  replacement character.\<close>

fun keep_printable :: "string \<Rightarrow> string" where
  "keep_printable [] = []"
| "keep_printable (c # cs) =
     (let k = rune_len (codes (c # cs)); n = (of_char c :: nat) in
      if k = 0 then [CHR 0xEF, CHR 0xBF, CHR 0xBD] @ keep_printable cs
      else if k = 1 then (if 32 \<le> n \<and> n < 127 then c # keep_printable cs else keep_printable cs)
      else if k = 2 \<and> n = 194 \<and> (of_char (hd cs) :: nat) \<le> 159 then keep_printable (drop 1 cs)
      else take k (c # cs) @ keep_printable (drop (k - 1) cs))"

declare keep_printable.simps [simp del]

definition redact :: "client \<Rightarrow> string \<Rightarrow> string" where
  "redact c s = keep_printable (if ct_token c = [] then s else replace_all (ct_token c) ''[redacted]'' s)"

subsection \<open>Requests\<close>

record api_request =
  cq_method :: string
  cq_path :: "string list"
  cq_query :: "(string \<times> string) list"
  cq_authorization :: "string option"
  cq_body :: "request option"
  cq_apply :: "bool option"
  cq_range :: "(int \<times> int) option"

definition api_path :: "string list \<Rightarrow> string list" where
  "api_path names = [''api'', ''v1''] @ names"

definition api_request_of :: "client \<Rightarrow> string \<Rightarrow> string list \<Rightarrow> (string \<times> string) list \<Rightarrow> api_request" where
  "api_request_of c verb names query = \<lparr>cq_method = verb, cq_path = api_path names, cq_query = query,
     cq_authorization = (if ct_token c = [] then None else Some (''Bearer '' @ ct_token c)),
     cq_body = None, cq_apply = None, cq_range = None\<rparr>"

definition capabilities_request :: "client \<Rightarrow> api_request" where
  "capabilities_request c = api_request_of c ''GET'' [''capabilities''] []"

definition list_artifacts_request :: "client \<Rightarrow> api_request" where
  "list_artifacts_request c = api_request_of c ''GET'' [''artifacts''] []"

definition get_artifact_request :: "client \<Rightarrow> string \<Rightarrow> client_error + api_request" where
  "get_artifact_request c key = (if \<not> validID key 64 then Inl InvalidIdentifier
     else Inr (api_request_of c ''GET'' [''artifacts'', key] []))"

definition targets_request :: "client \<Rightarrow> string \<Rightarrow> api_request" where
  "targets_request c url = api_request_of c ''GET'' [''xilinx'', ''targets''] [(''hwServerUrl'', url)]"

definition storage_request :: "client \<Rightarrow> api_request" where
  "storage_request c = api_request_of c ''GET'' [''storage''] []"

definition cleanup_request :: "client \<Rightarrow> bool \<Rightarrow> api_request" where
  "cleanup_request c apply = (api_request_of c ''POST'' [''storage'', ''cleanup''] [])\<lparr>cq_apply := Some apply\<rparr>"

definition list_jobs_request :: "client \<Rightarrow> api_request" where
  "list_jobs_request c = api_request_of c ''GET'' [''jobs''] []"

definition get_job_request :: "client \<Rightarrow> string \<Rightarrow> client_error + api_request" where
  "get_job_request c key = (if \<not> validID key 32 then Inl InvalidIdentifier
     else Inr (api_request_of c ''GET'' [''jobs'', key] []))"

definition submit_request :: "client \<Rightarrow> request \<Rightarrow> client_error + api_request" where
  "submit_request c q = (if \<not> validID (rq_id q) 32 then Inl NotRetained
     else Inr ((api_request_of c ''POST'' [''jobs''] [])\<lparr>cq_body := Some q\<rparr>))"

definition submission_request :: "client \<Rightarrow> string \<Rightarrow> client_error + api_request" where
  "submission_request c key = (if \<not> validID key 32 then Inl InvalidIdentifier
     else Inr (api_request_of c ''GET'' [''submissions'', key] []))"

definition events_request :: "client \<Rightarrow> string \<Rightarrow> int \<Rightarrow> int \<Rightarrow> client_error + api_request" where
  "events_request c key after limit = (if \<not> validID key 32 then Inl InvalidIdentifier
     else if after < 0 \<or> limit < 1 \<or> limit > 1000 then Inl BadEventRange
     else Inr (api_request_of c ''GET'' [''jobs'', key, ''events''] [(''after'', itoa after), (''limit'', itoa limit)]))"

definition cancel_request :: "client \<Rightarrow> string \<Rightarrow> client_error + api_request" where
  "cancel_request c key = (if \<not> validID key 32 then Inl InvalidIdentifier
     else Inr (api_request_of c ''POST'' [''jobs'', key, ''cancel''] []))"

definition serial_ports_request :: "client \<Rightarrow> api_request" where
  "serial_ports_request c = api_request_of c ''GET'' [''serial'', ''ports''] []"

definition import_request :: "client \<Rightarrow> bool \<Rightarrow> client_error + api_request" where
  "import_request c reader = (if \<not> reader then Inl ReaderRequired
     else Inr (api_request_of c ''POST'' [''artifacts''] []))"

definition maxInt64 :: int where "maxInt64 = 2 ^ 63 - 1"

definition transcript_request :: "client \<Rightarrow> string \<Rightarrow> int \<Rightarrow> int \<Rightarrow> client_error + api_request" where
  "transcript_request c key offset limit = (if \<not> validID key 32 then Inl InvalidIdentifier
     else if offset < 0 \<or> limit < 1 \<or> limit > MaxTranscriptBytes \<or> offset > maxInt64 - limit then Inl BadTranscriptRange
     else Inr ((api_request_of c ''GET'' [''jobs'', key, ''serial-transcript''] [])\<lparr>cq_range := Some (offset, offset + limit - 1)\<rparr>))"

subsection \<open>Responses\<close>

datatype content_range = NoRange | Unsatisfied int | Span int int int

record reply =
  rp_status :: nat
  rp_body :: string
  rp_fault :: bool \<comment> \<open>reading the part that is read fails\<close>
  rp_range :: content_range
  rp_state :: string
  rp_truncated :: string

text \<open>What the library decodes of an error body, and its texts for status codes.\<close>

record library =
  lb_error :: "string \<Rightarrow> string \<times> string"
  lb_status :: "nat \<Rightarrow> string"

definition responseError :: "library \<Rightarrow> client \<Rightarrow> reply \<Rightarrow> client_error" where
  "responseError lb c rp = (let (code, message) = lb_error lb (take 4096 (rp_body rp)) in
     ApiError (rp_status rp) (redact c code) (redact c (if message = [] then lb_status lb (rp_status rp) else message)))"

text \<open>\<open>json\<close> after the request: an answer of the network is a reply or the text of an error.\<close>

definition json_response :: "library \<Rightarrow> (string \<Rightarrow> 'a option) \<Rightarrow> client \<Rightarrow> string + reply \<Rightarrow> client_error + 'a" where
  "json_response lb decode c answer = (case answer of
       Inl text \<Rightarrow> Inl (RequestFailed (redact c text))
     | Inr rp \<Rightarrow>
         if rp_status rp < 200 \<or> 300 \<le> rp_status rp then Inl (responseError lb c rp)
         else if rp_fault rp then Inl ResponseUnreadable
         else if int (length (rp_body rp)) > ct_max c then Inl ResponseTooLarge
         else (case decode (rp_body rp) of None \<Rightarrow> Inl ResponseMalformed | Some v \<Rightarrow> Inr v))"

text \<open>\<open>Capabilities\<close>: the API version and the schema name tell a station from something else.\<close>

definition capabilities_result :: "client_error + string \<times> string \<times> 'a \<Rightarrow> client_error + 'a" where
  "capabilities_result r = (case r of
       Inl e \<Rightarrow> Inl e
     | Inr (version, schema, v) \<Rightarrow> if version \<noteq> ''v1'' \<or> schema \<noteq> SchemaName then Inl Incompatible else Inr v)"

text \<open>An older station does not send \<open>artifactAvailable\<close>; it then counts as available.\<close>

definition availability :: "bool option \<Rightarrow> job \<Rightarrow> job" where
  "availability sent j = j\<lparr>jb_available := (case sent of None \<Rightarrow> True | Some b \<Rightarrow> b)\<rparr>"

subsection \<open>A page of a transcript\<close>

record transcript =
  tr_data :: string
  tr_offset :: int
  tr_next :: int
  tr_state :: string
  tr_truncated :: bool

fun past_end :: "content_range \<Rightarrow> int \<Rightarrow> bool" where
  "past_end (Unsatisfied n) offset = (offset \<ge> n)"
| "past_end _ offset = False"

definition transcript_page :: "library \<Rightarrow> client \<Rightarrow> int \<Rightarrow> int \<Rightarrow> string + reply \<Rightarrow> client_error + transcript" where
  "transcript_page lb c offset limit answer = (case answer of
       Inl text \<Rightarrow> Inl (RequestFailed (redact c text))
     | Inr rp \<Rightarrow>
         (let out = \<lparr>tr_data = [], tr_offset = offset, tr_next = offset, tr_state = rp_state rp,
                tr_truncated = (rp_truncated rp = ''true'')\<rparr>;
              page = (if rp_fault rp then Inl ResponseUnreadable
                else if int (length (rp_body rp)) > limit then Inl TranscriptTooLong
                else Inr (out\<lparr>tr_data := rp_body rp, tr_next := offset + int (length (rp_body rp))\<rparr>)) in
          if rp_status rp = 416 \<and> past_end (rp_range rp) offset then Inr out
          else if rp_status rp \<noteq> 206 \<and> \<not> (rp_status rp = 200 \<and> offset = 0) then Inl (responseError lb c rp)
          else if rp_status rp = 206 then (case rp_range rp of
              Span first final n \<Rightarrow>
                if first \<noteq> offset \<or> final < first \<or> final - first \<ge> limit \<or> n \<le> final then Inl BadContentRange else page
            | _ \<Rightarrow> Inl BadContentRange)
          else page))"

text \<open>\<open>http.ServeContent\<close> for one range of a file (\<open>net/http\<close>): an empty file is sent whole, a range that
  starts behind the end is not satisfiable, any other one is cut at the end.\<close>

definition serve_content :: "string \<Rightarrow> int \<times> int \<Rightarrow> reply" where
  "serve_content file r = (let n = int (length file); (first, final) = r; stop = min final (n - 1) in
     (if n = 0 then \<lparr>rp_status = 200, rp_body = [], rp_fault = False, rp_range = NoRange, rp_state = [], rp_truncated = []\<rparr>
      else if first \<ge> n then \<lparr>rp_status = 416, rp_body = ''invalid range: failed to overlap'', rp_fault = False,
          rp_range = Unsatisfied n, rp_state = [], rp_truncated = []\<rparr>
      else \<lparr>rp_status = 206, rp_body = take (nat (stop - first + 1)) (drop (nat first) file), rp_fault = False,
          rp_range = Span first stop n, rp_state = [], rp_truncated = []\<rparr>))"

text \<open>The answer to a transcript request: the handler's headers on the content of the file.\<close>

definition transcript_answer :: "serial_capture \<Rightarrow> string \<Rightarrow> int \<times> int \<Rightarrow> reply" where
  "transcript_answer cap file r = (serve_content file r)\<lparr>rp_state := sc_state cap,
     rp_truncated := (if sc_truncated cap then ''true'' else ''false'')\<rparr>"

subsection \<open>Starting an absent local service\<close>

definition DefaultURL :: string where "DefaultURL = ''http://127.0.0.1:8042''"

text \<open>The outcome of asking for the capabilities.\<close>

datatype probe = Ready | ConnectionRefused | DeadlineExceeded | OtherFailure

datatype readiness = IsReady | NotReady probe | StartFailed | NeverReady

text \<open>The polling: each turn is a probe and whether the deadline passes in the wait after it.  Without
  further turns the deadline has passed.\<close>

fun poll :: "(probe \<times> bool) list \<Rightarrow> readiness" where
  "poll [] = NeverReady"
| "poll ((p, late) # ps) = (if p = Ready then IsReady
     else if p \<noteq> ConnectionRefused \<and> p \<noteq> DeadlineExceeded then NotReady p
     else if late then NeverReady else poll ps)"

text \<open>\<open>start\<close>: no function given, or whether it succeeds.  The result tells also if the service was started.\<close>

definition trim_slashes :: "string \<Rightarrow> string" where
  "trim_slashes s = rev (dropWhile (\<lambda>c. c = slash) (rev s))"

definition EnsureReady :: "string \<Rightarrow> bool option \<Rightarrow> probe \<Rightarrow> (probe \<times> bool) list \<Rightarrow> readiness \<times> bool" where
  "EnsureReady url start first ps = (if first = Ready then (IsReady, False)
     else if first \<noteq> ConnectionRefused \<or> trim_slashes url \<noteq> DefaultURL then (NotReady first, False)
     else (case start of
         None \<Rightarrow> (NotReady first, False)
       | Some False \<Rightarrow> (StartFailed, True)
       | Some True \<Rightarrow> (poll ps, True)))"

text \<open>\<open>OpenArtifactFile\<close>: the path and then the opened handle must be a regular file.\<close>

definition OpenArtifactFile :: "bool option \<Rightarrow> bool \<Rightarrow> bool option \<Rightarrow> bool" where
  "OpenArtifactFile path_regular can_open handle_regular \<longleftrightarrow>
     path_regular = Some True \<and> can_open \<and> handle_regular = Some True"

subsection \<open>The requests reach their handlers\<close>

text \<open>The request as the station receives it; what is not in it is of the connection.\<close>

definition received :: "string \<Rightarrow> string \<Rightarrow> (request \<Rightarrow> string) \<Rightarrow> api_request \<Rightarrow> http_request" where
  "received remote host encode q = \<lparr>hr_method = cq_method q, hr_path = cq_path q, hr_remote = remote, hr_host = host,
     hr_authorization = (case cq_authorization q of None \<Rightarrow> [] | Some a \<Rightarrow> a), hr_accept = ''application/json'',
     hr_after = (case map_of (cq_query q) ''after'' of None \<Rightarrow> [] | Some v \<Rightarrow> v),
     hr_limit = map_option (\<lambda>v. [v]) (map_of (cq_query q) ''limit''),
     hr_url = (case map_of (cq_query q) ''hwServerUrl'' of None \<Rightarrow> [] | Some v \<Rightarrow> v),
     hr_body = (case cq_body q of None \<Rightarrow> [] | Some b \<Rightarrow> map (\<lambda>c. word_of_int (of_char c)) (encode b)), hr_body_fault = False\<rparr>"

lemma validID_names: "validID key n \<Longrightarrow> 0 < n \<Longrightarrow> key \<noteq> []"
  by (auto simp: validID_def)

lemma validID_not_word: "validID key n \<Longrightarrow> \<exists>x \<in> set w. \<not> is_lower_hex x \<Longrightarrow> key \<noteq> w"
  by (auto simp: validID_def list_all_iff)

definition find_route :: "string \<Rightarrow> string list \<Rightarrow> bool \<times> endpoint" where
  "find_route verb path = (case find (\<lambda>(m, ss, a, e). match_method m verb \<and> match_path ss path) routes of
       None \<Rightarrow> (False, WebUI) | Some (_, _, a, e) \<Rightarrow> (a, e))"

lemma route_received: "route (received rm h en q) = find_route (cq_method q) (cq_path q)"
  by (simp add: route_def find_route_def received_def)

lemma fixed_routes:
  "find_route ''GET'' (api_path [''capabilities'']) = (True, CapabilitiesE)"
  "find_route ''GET'' (api_path [''artifacts'']) = (True, ListArtifacts)"
  "find_route ''GET'' (api_path [''xilinx'', ''targets'']) = (True, XilinxTargets)"
  "find_route ''GET'' (api_path [''storage'']) = (True, StorageE)"
  "find_route ''POST'' (api_path [''storage'', ''cleanup'']) = (True, CleanupE)"
  "find_route ''GET'' (api_path [''jobs'']) = (True, ListJobs)"
  "find_route ''POST'' (api_path [''jobs'']) = (True, CreateJob)"
  "find_route ''GET'' (api_path [''serial'', ''ports'']) = (True, SerialPorts)"
  "find_route ''POST'' (api_path [''artifacts'']) = (True, ImportArtifact)"
  by code_simp+

lemma artifact_route: "key \<noteq> [] \<Longrightarrow> find_route ''GET'' (api_path [''artifacts'', key]) = (True, GetArtifact)"
  by (simp add: find_route_def routes_def api_path_def api_def match_method_def)

lemma job_route: "key \<noteq> [] \<Longrightarrow> find_route ''GET'' (api_path [''jobs'', key]) = (True, GetJob)"
  by (simp add: find_route_def routes_def api_path_def api_def match_method_def)

lemma submission_route: "key \<noteq> [] \<Longrightarrow> find_route ''GET'' (api_path [''submissions'', key]) = (True, GetSubmission)"
  by (simp add: find_route_def routes_def api_path_def api_def match_method_def)

lemma events_route: "key \<noteq> [] \<Longrightarrow> find_route ''GET'' (api_path [''jobs'', key, ''events'']) = (True, JobEvents)"
  by (simp add: find_route_def routes_def api_path_def api_def match_method_def)

lemma transcript_route: "key \<noteq> [] \<Longrightarrow> find_route ''GET'' (api_path [''jobs'', key, ''serial-transcript'']) = (True, JobTranscript)"
  by (simp add: find_route_def routes_def api_path_def api_def match_method_def)

lemma cancel_route: "key \<noteq> [] \<Longrightarrow> find_route ''POST'' (api_path [''jobs'', key, ''cancel'']) = (True, CancelJob)"
  by (simp add: find_route_def routes_def api_path_def api_def match_method_def)

lemmas all_routes = fixed_routes artifact_route job_route submission_route events_route transcript_route cancel_route

lemmas all_requests = capabilities_request_def list_artifacts_request_def get_artifact_request_def targets_request_def
  storage_request_def cleanup_request_def list_jobs_request_def get_job_request_def submit_request_def
  submission_request_def events_request_def cancel_request_def serial_ports_request_def import_request_def transcript_request_def

lemma api_request_parts [simp]: "cq_method (api_request_of c verb names query) = verb"
  "cq_path (api_request_of c verb names query) = api_path names" "cq_query (api_request_of c verb names query) = query"
  by (simp_all add: api_request_of_def)

lemma client_calls_are_routed:
  "route (received rm h en (capabilities_request c)) = (True, CapabilitiesE)"
  "route (received rm h en (list_artifacts_request c)) = (True, ListArtifacts)"
  "get_artifact_request c key = Inr q \<Longrightarrow> route (received rm h en q) = (True, GetArtifact)"
  "route (received rm h en (targets_request c url)) = (True, XilinxTargets)"
  "route (received rm h en (storage_request c)) = (True, StorageE)"
  "route (received rm h en (cleanup_request c apply)) = (True, CleanupE)"
  "route (received rm h en (list_jobs_request c)) = (True, ListJobs)"
  "get_job_request c key = Inr q \<Longrightarrow> route (received rm h en q) = (True, GetJob)"
  "submit_request c r = Inr q \<Longrightarrow> route (received rm h en q) = (True, CreateJob)"
  "submission_request c key = Inr q \<Longrightarrow> route (received rm h en q) = (True, GetSubmission)"
  "events_request c key after limit = Inr q \<Longrightarrow> route (received rm h en q) = (True, JobEvents)"
  "cancel_request c key = Inr q \<Longrightarrow> route (received rm h en q) = (True, CancelJob)"
  "route (received rm h en (serial_ports_request c)) = (True, SerialPorts)"
  "import_request c reader = Inr q \<Longrightarrow> route (received rm h en q) = (True, ImportArtifact)"
  "transcript_request c key offset limit = Inr q \<Longrightarrow> route (received rm h en q) = (True, JobTranscript)"
  by (auto simp: route_received all_requests all_routes dest: validID_names split: if_splits)

lemma itoa_not_empty: "int64_ok v \<Longrightarrow> itoa v \<noteq> []"
  using atoi_itoa [of v] by (auto simp: atoi_def signed_digits_def)

lemma client_calls_carry_the_id:
  "get_job_request c key = Inr q \<Longrightarrow> path_value (received rm h en q) = key"
  "submission_request c key = Inr q \<Longrightarrow> path_value (received rm h en q) = key"
  "cancel_request c key = Inr q \<Longrightarrow> path_value (received rm h en q) = key"
  "transcript_request c key offset limit = Inr q \<Longrightarrow> path_value (received rm h en q) = key"
  "events_request c key after limit = Inr q \<Longrightarrow> path_value (received rm h en q) = key"
  by (auto simp: path_value_def received_def api_path_def all_requests split: if_splits)

lemma client_pages_are_understood:
  assumes "events_request c key after limit = Inr q" "int64_ok after"
  shows "parseAfter (hr_after (received rm h en q)) = Some after"
    "parse_limit (hr_limit (received rm h en q)) = Some (nat limit)"
proof -
  from assms(1) have q: "cq_query q = [(''after'', itoa after), (''limit'', itoa limit)]" "0 \<le> after" "1 \<le> limit" "limit \<le> 1000"
    by (auto simp: events_request_def split: if_splits)
  moreover from q have "int64_ok limit" by (simp add: int64_ok_def)
  ultimately show "parseAfter (hr_after (received rm h en q)) = Some after"
      "parse_limit (hr_limit (received rm h en q)) = Some (nat limit)"
    using assms(2) itoa_not_empty [OF assms(2)] atoi_itoa
    by (simp_all add: received_def parseAfter_def parse_limit_def)
qed

text \<open>With the station's own token configured, no request of the client is refused.\<close>

lemma client_calls_are_authorized:
  assumes "cq_authorization q = cq_authorization (api_request_of c verb names query)" and "ct_token c = token"
  shows "authorize token (received rm h en q) = None"
  using assms by (simp add: authorize_iff received_def api_request_of_def)

lemma hex_char_lower:
  fixes n :: nat
  shows "\<not> n < 10 \<Longrightarrow> n < 16 \<Longrightarrow> char_of (87 + n) \<in> set ''abcdef''"
proof -
  assume "\<not> n < 10" "n < 16"
  then have "n \<in> {10, 11, 12, 13, 14, 15}" by auto
  moreover have "char_of (97 :: nat) = CHR ''a''" "char_of (98 :: nat) = CHR ''b''" "char_of (99 :: nat) = CHR ''c''"
    "char_of (100 :: nat) = CHR ''d''" "char_of (101 :: nat) = CHR ''e''" "char_of (102 :: nat) = CHR ''f''"
    by code_simp+
  ultimately show ?thesis by auto
qed

lemma new_request_id_is_accepted:
  assumes "NewRequestID random = Some key"
  shows "validID key 32" "requestIDPattern key"
proof -
  from assms obtain f where k: "key = hex_encode (map f [0..<16])" by (auto simp: NewRequestID_def)
  have "length (hex_encode s) = 2 * length s" for s by (induction s) (simp_all add: hex_encode_def)
  moreover have "is_lower_hex (hex_char n)" if "n < 16" for n
    using that hex_char_lower [of n] by (cases "n < 10") (auto simp: is_lower_hex_def is_digit_def hex_char_def)
  then have "list_all is_lower_hex (hex_encode s)" for s
    using nibble by (auto simp: hex_encode_def list_all_iff)
  ultimately show "validID key 32" by (simp add: validID_def k)
  then show "requestIDPattern key" by (simp add: validID_def requestIDPattern_def)
qed

subsection \<open>What redaction keeps\<close>

lemma keep_printable_id: "list_all (\<lambda>c. 32 \<le> (of_char c :: nat) \<and> (of_char c :: nat) < 127) s \<Longrightarrow> keep_printable s = s"
  by (induction s) (simp_all add: keep_printable.simps codes_def Let_def)

text \<open>The token is replaced before the control characters are dropped: a text that has one inside the token
  still shows the whole token.\<close>

lemma redaction_can_reassemble_the_token:
  "redact \<lparr>ct_origin = u, ct_token = ''secret'', ct_max = n\<rparr> (''sec'' @ [CHR 0x01] @ ''ret'') = ''secret''"
proof -
  have "replace_all ''secret'' ''[redacted]'' (''sec'' @ [CHR 0x01] @ ''ret'') = ''sec'' @ [CHR 0x01] @ ''ret''"
    by (simp add: replace_all.simps)
  moreover have "keep_printable (''sec'' @ [CHR 0x01] @ ''ret'') = ''secret''"
    by (simp add: keep_printable.simps codes_def Let_def)
  ultimately show ?thesis by (simp add: redact_def)
qed

subsection \<open>Reading a transcript in pages\<close>

lemma transcript_read:
  assumes "0 \<le> offset" "offset \<le> int (length file)" "1 \<le> limit"
  shows "transcript_page lb c offset limit (Inr (transcript_answer cap file (offset, offset + limit - 1)))
    = Inr \<lparr>tr_data = take (nat limit) (drop (nat offset) file), tr_offset = offset,
        tr_next = offset + int (length (take (nat limit) (drop (nat offset) file))),
        tr_state = sc_state cap, tr_truncated = sc_truncated cap\<rparr>"
proof -
  consider "file = []" | "file \<noteq> []" "offset = int (length file)" | "file \<noteq> []" "offset < int (length file)"
    using assms(2) by linarith
  then show ?thesis
  proof cases
    case 1
    with assms show ?thesis by (simp add: transcript_page_def transcript_answer_def serve_content_def Let_def)
  next
    case 2
    then show ?thesis by (simp add: transcript_page_def transcript_answer_def serve_content_def Let_def)
  next
    case 3
    define stop where "stop = min (offset + limit - 1) (int (length file) - 1)"
    have stop: "offset \<le> stop" "stop - offset < limit" "stop < int (length file)"
      unfolding stop_def using 3 assms(3) by auto
    have body: "take (nat (stop - offset + 1)) (drop (nat offset) file) = take (nat limit) (drop (nat offset) file)"
    proof (cases "offset + limit - 1 \<le> int (length file) - 1")
      case True
      then have "stop - offset + 1 = limit" by (simp add: stop_def)
      then show ?thesis by simp
    next
      case False
      then have "length (drop (nat offset) file) \<le> nat (stop - offset + 1)" "length (drop (nat offset) file) \<le> nat limit"
        using assms(1) by (auto simp: stop_def)
      then show ?thesis by simp
    qed
    have "serve_content file (offset, offset + limit - 1) = \<lparr>rp_status = 206,
        rp_body = take (nat limit) (drop (nat offset) file), rp_fault = False,
        rp_range = Span offset stop (int (length file)), rp_state = [], rp_truncated = []\<rparr>"
      using 3 by (simp add: serve_content_def Let_def stop_def [symmetric] body)
    then show ?thesis
      using stop assms by (auto simp: transcript_page_def transcript_answer_def Let_def)
  qed
qed

text \<open>A reader asks for the next page at the offset the last one gave; between two pages the capture may
  have grown.  The result is what was read and the offset reached.\<close>

fun read_pages :: "library \<Rightarrow> client \<Rightarrow> int \<Rightarrow> (serial_capture \<times> string) list \<Rightarrow> int \<Rightarrow> client_error + string \<times> int" where
  "read_pages lb c limit [] offset = Inr ([], offset)"
| "read_pages lb c limit ((sc, content) # later) offset =
     (case transcript_page lb c offset limit (Inr (transcript_answer sc content (offset, offset + limit - 1))) of
        Inl e \<Rightarrow> Inl e
      | Inr t \<Rightarrow> (case read_pages lb c limit later (tr_next t) of
          Inl e \<Rightarrow> Inl e
        | Inr (rest, next) \<Rightarrow> Inr (tr_data t @ rest, next)))"

lemma take_page: "take n xs @ take k (drop n xs) = take (n + length (take k (drop n xs))) xs"
  by (cases "length (drop n xs) \<le> k") (auto simp: take_add)

lemma read_pages_from:
  assumes "1 \<le> limit" and "0 \<le> offset"
    and "sorted_wrt prefix (map snd ((sc, content) # later))" and "offset \<le> int (length content)"
  shows "\<exists>data. read_pages lb c limit ((sc, content) # later) offset = Inr (data, offset + int (length data))
    \<and> take (nat offset) content @ data = take (nat offset + length data) (snd (last ((sc, content) # later)))
    \<and> min (int (length content)) (offset + limit * int (length ((sc, content) # later))) \<le> offset + int (length data)"
  using assms(2-)
proof (induction later arbitrary: sc content offset)
  case Nil
  then show ?case
    using transcript_read [OF Nil(1,3) assms(1), of lb c sc] assms(1)
    by (auto simp: take_add min_def nat_le_iff)
next
  case (Cons x later)
  obtain sc' content' where x: "x = (sc', content')" by (cases x)
  let ?page = "take (nat limit) (drop (nat offset) content)"
  have grown: "prefix content content'" using Cons.prems(2) x by simp
  have next_ok: "0 \<le> offset + int (length ?page)" "offset + int (length ?page) \<le> int (length content)"
    "offset + int (length ?page) \<le> int (length content')"
    using Cons.prems(1,3) prefix_length_le [OF grown] by auto
  have "sorted_wrt prefix (map snd ((sc', content') # later))" using Cons.prems(2) x by simp
  from Cons.IH [OF next_ok(1) this next_ok(3)] obtain rest where rest:
      "read_pages lb c limit ((sc', content') # later) (offset + int (length ?page))
         = Inr (rest, offset + int (length ?page) + int (length rest))"
      "take (nat (offset + int (length ?page))) content' @ rest
         = take (nat (offset + int (length ?page)) + length rest) (snd (last ((sc', content') # later)))"
      "min (int (length content')) (offset + int (length ?page) + limit * int (length ((sc', content') # later)))
         \<le> offset + int (length ?page) + int (length rest)"
    by blast
  have "read_pages lb c limit ((sc, content) # x # later) offset = Inr (?page @ rest, offset + int (length (?page @ rest)))"
    using rest(1) transcript_read [OF Cons.prems(1,3) assms(1), of lb c sc] by (simp add: x)
  moreover have "take (nat offset) content @ ?page = take (nat (offset + int (length ?page))) content'"
  proof -
    have "take (nat offset) content @ ?page = take (nat offset + length ?page) content"
      by (rule take_page)
    also have "\<dots> = take (nat offset + length ?page) content'"
      using grown next_ok(2) Cons.prems(1) by (auto simp: prefix_def nat_add_distrib)
    finally show ?thesis using Cons.prems(1) by (simp add: nat_add_distrib)
  qed
  then have "take (nat offset) content @ ?page @ rest = take (nat (offset + int (length ?page))) content' @ rest"
    by (metis append.assoc)
  note joined = this
  have final: "last ((sc', content') # later) = last ((sc, content) # x # later)" by (simp add: x)
  have whole: "take (nat offset) content @ ?page @ rest
      = take (nat (offset + int (length ?page)) + length rest) (snd (last ((sc, content) # x # later)))"
    by (rule trans [OF joined]) (simp only: final [symmetric] rest(2))
  have count: "nat (offset + int (length ?page)) + length rest = nat offset + length (?page @ rest)"
    using Cons.prems(1) by (simp add: nat_add_distrib)
  note whole [unfolded count]
  moreover have "min (int (length content)) (offset + limit * int (length ((sc, content) # x # later)))
      \<le> offset + int (length (?page @ rest))"
  proof (cases "length ?page = nat limit")
    case True
    with rest(3) prefix_length_le [OF grown] assms(1) show ?thesis by (simp add: x algebra_simps min_def split: if_splits)
  next
    case False
    then have "offset + int (length ?page) = int (length content)"
      using assms(1) Cons.prems(1,3) by (auto simp: min_def split: if_splits)
    then have "int (length content) \<le> offset + int (length (?page @ rest))" by simp
    then show ?thesis by (rule min.coboundedI1)
  qed
  ultimately show ?case by blast
qed

text \<open>C40: a client that reads a transcript page by page, each time from the offset the last page gave, gets
  every byte once: whatever the capture adds between two pages, no page is refused, what was read is a prefix of
  the file, the offset is its length, and of a file that no longer grows as many pages as its length needs give
  the whole.  Requests have a valid id and a page size the client accepts.\<close>

theorem transcript_pages_reassemble:
  assumes "transcript_request c key 0 limit = Inr q" and "snaps \<noteq> []" and "sorted_wrt prefix (map snd snaps)"
  shows "\<exists>data. read_pages lb c limit snaps 0 = Inr (data, int (length data)) \<and> prefix data (snd (last snaps))
    \<and> (int (length (snd (last snaps))) \<le> limit * int (length snaps) \<and> snd (hd snaps) = snd (last snaps)
        \<longrightarrow> data = snd (last snaps))"
proof -
  have limit: "1 \<le> limit" using assms(1) by (auto simp: transcript_request_def split: if_splits)
  obtain sc content later where s: "snaps = (sc, content) # later" using assms(2) by (cases snaps) auto
  let ?all = "snd (last snaps)"
  from read_pages_from [OF limit order_refl assms(3) [unfolded s], of lb c] obtain data where data:
      "read_pages lb c limit ((sc, content) # later) 0 = Inr (data, int (length data))"
      "take (length data) (snd (last ((sc, content) # later))) = data"
      "min (int (length content)) (limit * int (length ((sc, content) # later))) \<le> int (length data)"
    by (auto dest: sym)
  have part: "take (length data) ?all = data" unfolding s by (rule data(2))
  have "prefix data ?all" using take_is_prefix [of "length data" ?all] unfolding part .
  moreover have "data = ?all" if fits: "int (length ?all) \<le> limit * int (length snaps)" and same: "snd (hd snaps) = ?all"
  proof -
    have "int (length ?all) \<le> int (length data)"
      using data(3) fits same by (simp add: s)
    with part show ?thesis by simp
  qed
  ultimately show ?thesis using data(1) unfolding s by blast
qed

definition demo_client :: client where
  "demo_client = \<lparr>ct_origin = \<lparr>og_scheme = ''http'', og_host = ''127.0.0.1'', og_user = False, og_path = [], og_query = [],
     og_fragment = []\<rparr>, ct_token = [], ct_max = 100\<rparr>"

definition demo_capture :: serial_capture where
  "demo_capture = \<lparr>sc_state = ''active'', sc_received = 5, sc_retained = 5, sc_truncated = False, sc_started = 1, sc_finished = None\<rparr>"

definition demo_library :: library where
  "demo_library = \<lparr>lb_error = (\<lambda>_. ([], [])), lb_status = (\<lambda>_. [])\<rparr>"

text \<open>Pages of two bytes; the file grows from three to five bytes and the fourth read finds nothing new.\<close>

lemma transcript_pages_reassemble_witness:
  "\<exists>data. read_pages demo_library demo_client 2 [(demo_capture, ''abc''), (demo_capture, ''abc''), (demo_capture, ''abcde''),
       (demo_capture, ''abcde'')] 0 = Inr (data, int (length data)) \<and> prefix data ''abcde''"
proof -
  let ?key = "replicate 32 CHR ''a''"
  have "validID ?key 32" by code_simp
  then have "\<exists>q. transcript_request demo_client ?key 0 2 = Inr q"
    by (simp add: transcript_request_def MaxTranscriptBytes_def maxInt64_def)
  then obtain q where "transcript_request demo_client ?key 0 2 = Inr q" by blast
  from transcript_pages_reassemble [OF this, where snaps = "[(demo_capture, ''abc''), (demo_capture, ''abc''), (demo_capture, ''abcde''),
      (demo_capture, ''abcde'')]" and lb = demo_library]
  show ?thesis by simp
qed

end
