(* ===== verification/Tui.thy ===== *)
theory Tui
  imports Client
begin

text \<open>
  The interactive console of a station (\<open>internal/tui/model.go\<close>, \<open>internal/tui/layout.go\<close>): the model, what
  every message does to it and which commands it starts, the geometry that hit testing uses, the mouse, and the
  preparation of a request.  A command is what the program runs in the background; its result comes back as a
  message.  The widgets of the library (text inputs, viewers, the tree) are outside: an input is its text and
  whether it has the focus, \<open>ue_edit\<close> is what it does with a message, and what is only drawn is left out.
\<close>

subsection \<open>The model\<close>

definition artifactsTab :: int where "artifactsTab = 0"
definition targetsTab :: int where "targetsTab = 1"
definition provisionTab :: int where "provisionTab = 2"
definition jobsTab :: int where "jobsTab = 3"

record tui =
  ui_tab :: int
  ui_width :: int
  ui_height :: int
  ui_artifacts :: "stored_artifact list"
  ui_targets :: "(target \<times> association) list"
  ui_jobs :: "job list"
  ui_artifact :: int
  ui_target :: int
  ui_job :: int
  ui_fields :: "string list"
  ui_input :: "nat option" \<comment> \<open>the field that has the focus\<close>
  ui_path :: string
  ui_path_focused :: bool
  ui_importing :: bool
  ui_tree :: bool
  ui_raw :: bool
  ui_offset :: int
  ui_focus :: int
  ui_status :: string
  ui_busy :: bool
  ui_pending :: "request option"
  ui_attempted :: bool
  ui_selected :: string
  ui_after :: int
  ui_log :: string

datatype wheel = WheelUp | WheelDown | OtherButton

datatype msg =
    Key string
  | Click bool int int \<comment> \<open>with the left button\<close>
  | Wheel wheel int int
  | WindowSize int int
  | TickMsg
  | OtherMsg string
  | ArtifactsMsg "string + stored_artifact list"
  | TargetsMsg "string + (target \<times> association) list" string
  | JobsMsg "string + job list"
  | CapsMsg "string + string \<times> string" \<comment> \<open>preferred TFTP address, version\<close>
  | ImportedMsg "string + string"
  | SubmittedMsg "string + string"
  | ReconciledMsg "string + string"
  | CanceledMsg "string + string"
  | LogsMsg string "string + event list"

datatype cmd =
    LoadArtifacts
  | LoadTargets string
  | LoadJobs
  | LoadCapabilities
  | LoadLogs string int
  | Ticking
  | ImportFile string
  | SubmitJob request
  | ReconcileJob string
  | CancelOpened string
  | QuitProgram

record ui_env =
  ue_edit :: "bool \<Rightarrow> msg \<Rightarrow> string \<Rightarrow> string"
  ue_strip :: "string \<Rightarrow> string" \<comment> \<open>\<open>ansi.Strip\<close>\<close>
  ue_quote :: "string \<Rightarrow> string" \<comment> \<open>\<open>%q\<close>\<close>
  ue_plan :: "string \<Rightarrow> string + plan" \<comment> \<open>strict decoding of one JSON object\<close>
  ue_random :: "(nat \<Rightarrow> char) option"

definition new_tui :: tui where
  "new_tui = \<lparr>ui_tab = artifactsTab, ui_width = 100, ui_height = 30, ui_artifacts = [], ui_targets = [], ui_jobs = [],
     ui_artifact = 0, ui_target = 0, ui_job = 0,
     ui_fields = [''tcp:127.0.0.1:3121'', [], [], [], [], []], ui_input = None, ui_path = [], ui_path_focused = False,
     ui_importing = False, ui_tree = False, ui_raw = False, ui_offset = 0, ui_focus = 0, ui_status = ''Loading station'' @ [CHR 0xE2, CHR 0x80, CHR 0xA6],
     ui_busy = False, ui_pending = None, ui_attempted = False, ui_selected = [], ui_after = 0, ui_log = []\<rparr>"

definition init_commands :: "tui \<Rightarrow> cmd list" where
  "init_commands m = [LoadArtifacts, LoadTargets (ui_fields m ! 0), LoadJobs, LoadCapabilities, Ticking]"

subsection \<open>Text\<close>

fun keep_text :: "string \<Rightarrow> string" where
  "keep_text [] = []"
| "keep_text (c # cs) =
     (let k = rune_len (codes (c # cs)); n = (of_char c :: nat) in
      if k = 0 then [CHR 0xEF, CHR 0xBF, CHR 0xBD] @ keep_text cs
      else if k = 1 then (if n = 10 \<or> n = 9 \<or> 32 \<le> n \<and> n < 127 then c # keep_text cs else keep_text cs)
      else if k = 2 \<and> n = 194 \<and> (of_char (hd cs) :: nat) \<le> 159 then keep_text (drop 1 cs)
      else take k (c # cs) @ keep_text (drop (k - 1) cs))"

declare keep_text.simps [simp del]

definition cleanText :: "ui_env \<Rightarrow> string \<Rightarrow> string" where
  "cleanText ue s = keep_text (ue_strip ue s)"

definition cleanLine :: "ui_env \<Rightarrow> string \<Rightarrow> string" where
  "cleanLine ue s = map (\<lambda>c. if c = newline \<or> c = tab then CHR '' '' else c) (cleanText ue s)"

definition set_status :: "string \<Rightarrow> tui \<Rightarrow> tui" where
  "set_status s m = m\<lparr>ui_status := s\<rparr>"

definition setError :: "ui_env \<Rightarrow> string \<Rightarrow> tui \<Rightarrow> tui" where
  "setError ue text m = set_status (cleanLine ue text) m"

subsection \<open>Geometry\<close>

record rectangle =
  rc_x :: int
  rc_y :: int
  rc_w :: int
  rc_h :: int

definition rect :: "int \<Rightarrow> int \<Rightarrow> int \<Rightarrow> int \<Rightarrow> rectangle" where
  "rect x y w h = \<lparr>rc_x = x, rc_y = y, rc_w = w, rc_h = h\<rparr>"

definition contains :: "rectangle \<Rightarrow> int \<Rightarrow> int \<Rightarrow> bool" where
  "contains r x y \<longleftrightarrow> x \<ge> rc_x r \<and> x < rc_x r + rc_w r \<and> y \<ge> rc_y r \<and> y < rc_y r + rc_h r"

record ui_action =
  ac_rect :: rectangle
  ac_key :: string
  ac_value :: int

record screen_layout =
  sl_list :: rectangle
  sl_detail :: rectangle
  sl_actions :: "ui_action list"
  sl_start :: int

text \<open>Buttons side by side on a row; a button is its key, its value and its label, drawn between brackets.\<close>

fun place :: "int \<Rightarrow> int \<Rightarrow> (string \<times> string \<times> int) list \<Rightarrow> ui_action list" where
  "place x y [] = []"
| "place x y ((label, key, value) # bs) =
     (let w = int (length (''[ '' @ label @ '' ]'')) in
      \<lparr>ac_rect = rect x y w 1, ac_key = key, ac_value = value\<rparr> # place (x + w + 1) y bs)"

definition buttons :: "tui \<Rightarrow> (string \<times> string \<times> int) list" where
  "buttons m =
     (if ui_tab m = artifactsTab then
        (if ui_importing m then [(''Import'', ''import-submit'', 0), (''Close'', ''import-close'', 0)]
         else [(''Refresh'', ''r'', 0), (''Import'', ''i'', 0), (''Raw'', ''v'', 0), (''Tree'', ''t'', 0), (''Use image'', ''p'', 0)])
      else if ui_tab m = targetsTab then [(''Discover'', ''r'', 0), (''Provision'', ''enter'', 0)]
      else if ui_tab m = jobsTab then [(''Refresh'', ''r'', 0), (''Open logs'', ''enter'', 0), (''Cancel opened'', ''c'', 0)]
      else if ui_tab m = provisionTab then
        (if ui_pending m = None then [(''Prepare'', ''submit'', 0)]
         else [(''Submit retained'', ''submit'', 0), (''Reconcile'', ''r'', 0)])
      else [])"

definition layout :: "tui \<Rightarrow> screen_layout" where
  "layout m =
     (let h = max 1 (ui_height m - 9); w = ui_width m; split = w * 2 div 5; low = max 3 (h div 3);
          (list, detail) =
            (if ui_tab m = provisionTab then (rect 0 6 w h, rect 0 6 w h)
             else if w \<ge> 100 then (rect 0 6 (split - 2) h, rect split 6 (w - split) h)
             else (rect 0 6 w low, rect 0 (7 + low) w (max 1 (h - low - 1))));
          (index, count) =
            (if ui_tab m = targetsTab then (ui_target m, int (length (ui_targets m)))
             else if ui_tab m = jobsTab then (ui_job m, int (length (ui_jobs m)))
             else (ui_artifact m, int (length (ui_artifacts m))))
      in \<lparr>sl_list = list, sl_detail = detail,
          sl_actions = place 0 1 [(''Artifacts'', ''tab'', 0), (''Targets'', ''tab'', 1), (''Provision'', ''tab'', 2), (''Jobs'', ''tab'', 3)]
            @ place 0 3 (buttons m),
          sl_start = max 0 (min (index - rc_h list div 2) (count - rc_h list))\<rparr>)"

text \<open>The opened job has a heading above its log.\<close>

definition heading_lines :: "tui \<Rightarrow> int" where
  "heading_lines m = 1 + int (length (filter (\<lambda>j. jb_id j = ui_selected m \<and> \<not> jb_available j) (ui_jobs m)))
     + int (length (filter (\<lambda>j. jb_id j = ui_selected m \<and> jb_events_truncated j) (ui_jobs m)))"

definition logArea :: "tui \<Rightarrow> rectangle" where
  "logArea m = (let r = sl_detail (layout m) in
     if ui_selected m = [] then r
     else r\<lparr>rc_y := rc_y r + heading_lines m, rc_h := max 1 (rc_h r - heading_lines m)\<rparr>)"

subsection \<open>Small steps\<close>

definition updateArtifact :: "tui \<Rightarrow> tui" where
  "updateArtifact m = (if ui_artifacts m = [] then m
     else m\<lparr>ui_artifact := min (ui_artifact m) (int (length (ui_artifacts m)) - 1)\<rparr>)"

definition selectTab :: "int \<Rightarrow> tui \<Rightarrow> tui" where
  "selectTab t m = (let m' = m\<lparr>ui_tab := t, ui_offset := 0\<rparr> in if t = artifactsTab then updateArtifact m' else m')"

definition focusField :: "tui \<Rightarrow> tui" where
  "focusField m = m\<lparr>ui_input := (if 2 \<le> ui_focus m \<and> ui_focus m < 8 then Some (nat (ui_focus m - 2)) else None)\<rparr>"

definition move :: "int \<Rightarrow> int \<Rightarrow> int \<Rightarrow> int" where
  "move step n i = max 0 (min (max 0 (n - 1)) (i + step))"

definition updateField :: "ui_env \<Rightarrow> msg \<Rightarrow> tui \<Rightarrow> tui" where
  "updateField ue msg m = (let k = nat (ui_focus m - 2); before = ui_fields m ! k;
        now = ue_edit ue (ui_input m = Some k) msg before; m' = m\<lparr>ui_fields := (ui_fields m)[k := now]\<rparr> in
     if ui_focus m = 2 \<and> before \<noteq> now
     then m'\<lparr>ui_targets := [], ui_target := 0, ui_fields := (ui_fields m')[5 := []],
       ui_status := ''Hardware server changed; Ctrl+T discovers targets again''\<rparr>
     else m')"

subsection \<open>Preparing a request\<close>

definition phrase :: "string \<Rightarrow> string \<Rightarrow> string" where
  "phrase cable device = ''RESET '' @ cable @ ''/'' @ device"

definition resetPhrase :: "tui \<Rightarrow> string" where
  "resetPhrase m = (if ui_targets m = [] then ''RESET <cable>/<device-index>''
     else (let t = fst (ui_targets m ! nat (ui_target m)) in phrase (tg_serial t) (tg_index t)))"

definition serial_selection :: "association \<Rightarrow> string \<Rightarrow> serial_request" where
  "serial_selection a wanted = \<lparr>sr_port = wanted, sr_baud = 0, sr_selection =
     (case a of SerialMatched p \<Rightarrow> if pt_key p = wanted then ''matched'' else ''manual'' | _ \<Rightarrow> ''manual'')\<rparr>"

definition prepareRequest :: "ui_env \<Rightarrow> tui \<Rightarrow> string + request" where
  "prepareRequest ue m =
     (if ui_artifacts m = [] \<or> ui_targets m = [] then Inl ''select an imported artifact and discovered target''
      else (let (t, a) = ui_targets m ! nat (ui_target m) in
        if tg_key t = [] \<or> tg_serial t = [] \<or> tg_index t = [] then Inl ''selected target lacks explicit cable/device identity''
        else if ui_fields m ! 5 \<noteq> resetPhrase m
        then Inl (''type exactly '' @ ue_quote ue (resetPhrase m) @ '' to authorize resetting this physical target'')
        else if TrimSpace (ui_fields m ! 1) = [] then Inl ''TFTP server IPv4 is required''
        else (let wanted = TrimSpace (ui_fields m ! 3); raw = TrimSpace (ui_fields m ! 4);
                  q = zero_request\<lparr>rq_artifact := sa_id (ui_artifacts m ! nat (ui_artifact m)), rq_hw_server := ui_fields m ! 0,
                    rq_tftp_ip := ui_fields m ! 1, rq_board_ip := ui_fields m ! 2, rq_target := tg_key t,
                    rq_cable := tg_serial t, rq_device := tg_index t,
                    rq_serial := (if wanted = [] then None else Some (serial_selection a wanted))\<rparr> in
          case (if raw = [] then Inr None else map_sum id Some (ue_plan ue raw)) of
            Inl e \<Rightarrow> Inl e
          | Inr plan \<Rightarrow> (case NewRequestID (ue_random ue) of
              None \<Rightarrow> Inl ''random''
            | Some key \<Rightarrow> Inr (q\<lparr>rq_tasks := plan, rq_id := key\<rparr>)))))"

subsection \<open>Keys\<close>

definition submit_key :: "request \<Rightarrow> tui \<Rightarrow> tui \<times> cmd list" where
  "submit_key q m = (m\<lparr>ui_attempted := True, ui_busy := True, ui_status := ''Submitting retained request '' @ rq_id q\<rparr>, [SubmitJob q])"

definition frozen_text :: string where
  "frozen_text = ''Request frozen: Enter submits/retries the identical request; r reconciles; Esc discards only before first attempt''"

definition provisionKey :: "ui_env \<Rightarrow> string \<Rightarrow> tui \<Rightarrow> tui \<times> cmd list" where
  "provisionKey ue key m = (case ui_pending m of
       Some q \<Rightarrow>
         if key = ''r'' \<and> \<not> ui_busy m then (m\<lparr>ui_busy := True\<rparr>, [ReconcileJob (rq_id q)])
         else if key = ''enter'' \<and> \<not> ui_busy m then submit_key q m
         else (set_status frozen_text m, [])
     | None \<Rightarrow>
         if ui_focus m \<le> 1 then
           (let step = (if key = ''right'' \<or> key = ''down'' then 1 else if key = ''left'' \<or> key = ''up'' then - 1 else 0) in
            if ui_focus m = 0 then (m\<lparr>ui_artifact := move step (int (length (ui_artifacts m))) (ui_artifact m)\<rparr>, [])
            else (m\<lparr>ui_target := move step (int (length (ui_targets m))) (ui_target m)\<rparr>, []))
         else if ui_focus m < 8 then (updateField ue (Key key) m, [])
         else if ui_focus m = 8 \<and> key = ''enter'' \<and> \<not> ui_busy m then
           (case prepareRequest ue m of
              Inl e \<Rightarrow> (setError ue e m, [])
            | Inr q \<Rightarrow> (m\<lparr>ui_pending := Some q, ui_status := ''Prepared requestId '' @ rq_id q
                @ ''. Retained exact request; press Enter again to submit.''\<rparr>, []))
         else (m, []))"

definition import_key :: "ui_env \<Rightarrow> string \<Rightarrow> tui \<Rightarrow> tui \<times> cmd list" where
  "import_key ue key m =
     (if key = ''esc'' then (m\<lparr>ui_importing := False, ui_path_focused := False\<rparr>, [])
      else if key = ''enter'' \<and> \<not> ui_busy m then (m\<lparr>ui_busy := True\<rparr>, [ImportFile (ui_path m)])
      else (m\<lparr>ui_path := ue_edit ue (ui_path_focused m) (Key key) (ui_path m)\<rparr>, []))"

definition escape_key :: "tui \<Rightarrow> tui" where
  "escape_key m = (if ui_pending m \<noteq> None \<and> \<not> ui_attempted m
       then m\<lparr>ui_pending := None, ui_status := ''Prepared submission discarded''\<rparr> else m)\<lparr>ui_input := None, ui_focus := 0\<rparr>"

definition tab_key :: "bool \<Rightarrow> tui \<Rightarrow> tui" where
  "tab_key back m = (if ui_tab m = provisionTab then focusField (m\<lparr>ui_focus := (ui_focus m + (if back then 8 else 1)) mod 9\<rparr>)
     else (let m' = selectTab ((ui_tab m + 1) mod 4) m in
       if ui_tab m' = provisionTab then focusField m' else if ui_tab m' = artifactsTab then updateArtifact m' else m'))"

definition artifacts_key :: "string \<Rightarrow> tui \<Rightarrow> tui \<times> cmd list" where
  "artifacts_key key m =
     (if key = ''i'' then (m\<lparr>ui_importing := True, ui_path_focused := True\<rparr>, [])
      else if key = ''r'' then (m, [LoadArtifacts])
      else if key \<in> {''up'', ''k''} \<and> \<not> ui_tree m then (updateArtifact (m\<lparr>ui_artifact := max 0 (ui_artifact m - 1)\<rparr>), [])
      else if key \<in> {''down'', ''j''} \<and> \<not> ui_tree m then
        (updateArtifact (m\<lparr>ui_artifact := min (max 0 (int (length (ui_artifacts m)) - 1)) (ui_artifact m + 1)\<rparr>), [])
      else if key = ''v'' then (updateArtifact (m\<lparr>ui_raw := \<not> ui_raw m, ui_tree := False\<rparr>), [])
      else if key = ''t'' then (m\<lparr>ui_tree := \<not> ui_tree m\<rparr>, [])
      else if key = ''p'' then (focusField ((selectTab provisionTab m)\<lparr>ui_focus := 1\<rparr>), [])
      else (m, []))"

definition targets_key :: "string \<Rightarrow> tui \<Rightarrow> tui \<times> cmd list" where
  "targets_key key m =
     (if key = ''r'' then (m, [LoadTargets (ui_fields m ! 0)])
      else if key \<in> {''up'', ''k''} then (m\<lparr>ui_target := max 0 (ui_target m - 1)\<rparr>, [])
      else if key \<in> {''down'', ''j''} then (m\<lparr>ui_target := min (max 0 (int (length (ui_targets m)) - 1)) (ui_target m + 1)\<rparr>, [])
      else if key \<in> {''enter'', ''p''} then (focusField ((selectTab provisionTab m)\<lparr>ui_focus := 2\<rparr>), [])
      else (m, []))"

definition jobs_key :: "string \<Rightarrow> tui \<Rightarrow> tui \<times> cmd list" where
  "jobs_key key m =
     (if key = ''r'' then (m, [LoadJobs])
      else if key \<in> {''up'', ''k''} then (m\<lparr>ui_job := max 0 (ui_job m - 1)\<rparr>, [])
      else if key \<in> {''down'', ''j''} then (m\<lparr>ui_job := min (max 0 (int (length (ui_jobs m)) - 1)) (ui_job m + 1)\<rparr>, [])
      else if key = ''enter'' \<and> ui_jobs m \<noteq> [] then
        (let m' = m\<lparr>ui_selected := jb_id (ui_jobs m ! nat (ui_job m)), ui_after := 0, ui_log := []\<rparr> in
         (m', [LoadLogs (ui_selected m') 0]))
      else if key = ''c'' \<and> \<not> ui_busy m \<and> ui_selected m \<noteq> [] then (m\<lparr>ui_busy := True\<rparr>, [CancelOpened (ui_selected m)])
      else (m, []))"

definition key_update :: "ui_env \<Rightarrow> string \<Rightarrow> tui \<Rightarrow> tui \<times> cmd list" where
  "key_update ue key m =
     (if key = ''ctrl+c'' then (m, [QuitProgram])
      else if ui_importing m then import_key ue key m
      else if key = ''esc'' then (escape_key m, [])
      else if key \<in> {''tab'', ''shift+tab''} then (tab_key (key = ''shift+tab'') m, [])
      else if key = ''ctrl+a'' then (updateArtifact (selectTab artifactsTab m), [])
      else if key = ''ctrl+t'' then (selectTab targetsTab m, [LoadTargets (ui_fields m ! 0)])
      else if key = ''ctrl+p'' then (focusField (selectTab provisionTab m), [])
      else if key = ''ctrl+j'' then (selectTab jobsTab m, [])
      else if ui_tab m = provisionTab then provisionKey ue key m
      else if key = ''q'' then (m, [QuitProgram])
      else if ui_tab m = artifactsTab then artifacts_key key m
      else if ui_tab m = targetsTab then targets_key key m
      else jobs_key key m)"

subsection \<open>The mouse\<close>

definition too_small :: "tui \<Rightarrow> bool" where
  "too_small m \<longleftrightarrow> ui_width m < 70 \<or> ui_height m < 24"

definition keyMessage :: "string \<Rightarrow> string" where
  "keyMessage key = (if key = ''enter'' then ''enter'' else take 1 key)"

definition press :: "ui_env \<Rightarrow> ui_action \<Rightarrow> tui \<Rightarrow> tui \<times> cmd list" where
  "press ue a m =
     (if ac_key a = ''tab'' then (if ui_importing m then (m, []) else (focusField (selectTab (ac_value a) m), []))
      else if ui_busy m then (m, [])
      else if ac_key a = ''import-close'' then key_update ue ''esc'' m
      else if ac_key a = ''import-submit'' then key_update ue ''enter'' m
      else if ui_importing m then (m, [])
      else if ac_key a = ''submit'' then provisionKey ue ''enter'' (m\<lparr>ui_focus := 8\<rparr>)
      else key_update ue (keyMessage (ac_key a)) m)"

definition click_row :: "int \<Rightarrow> tui \<Rightarrow> tui" where
  "click_row i m =
     (if ui_tab m = artifactsTab then (if i < int (length (ui_artifacts m)) then updateArtifact (m\<lparr>ui_artifact := i\<rparr>) else m)
      else if ui_tab m = targetsTab then (if i < int (length (ui_targets m)) then m\<lparr>ui_target := i, ui_offset := 0\<rparr> else m)
      else if ui_tab m = jobsTab then (if i < int (length (ui_jobs m)) then m\<lparr>ui_job := i\<rparr> else m)
      else m)"

definition mouseClick :: "ui_env \<Rightarrow> bool \<Rightarrow> int \<Rightarrow> int \<Rightarrow> tui \<Rightarrow> tui \<times> cmd list" where
  "mouseClick ue left x y m = (if \<not> left \<or> too_small m then (m, [])
     else (let l = layout m in
       case find (\<lambda>a. x < ui_width m \<and> contains (ac_rect a) x y) (sl_actions l) of
         Some a \<Rightarrow> press ue a m
       | None \<Rightarrow>
           if ui_tab m = provisionTab \<and> ui_pending m = None \<and> contains (sl_detail l) x y then
             (let row = y - rc_y (sl_detail l) in
              if row < 8 then (focusField (m\<lparr>ui_focus := row\<rparr>), []) else (m, []))
           else if ui_tab m \<noteq> provisionTab \<and> contains (sl_list l) x y \<and> \<not> ui_importing m
           then (click_row (sl_start l + y - rc_y (sl_list l)) m, [])
           else (m, [])))"

definition wheel_step :: "int \<Rightarrow> int \<Rightarrow> int \<Rightarrow> int" where
  "wheel_step step n i = max 0 (min (n - 1) (i + step))"

text \<open>Scrolling in a viewer changes nothing that is modelled.\<close>

definition mouseWheel :: "wheel \<Rightarrow> int \<Rightarrow> int \<Rightarrow> tui \<Rightarrow> tui" where
  "mouseWheel w x y m = (if too_small m \<or> ui_importing m \<or> w = OtherButton then m
     else (let step = (if w = WheelUp then - 1 else 1); l = layout m in
       if ui_tab m \<noteq> provisionTab \<and> contains (sl_list l) x y then
         (if ui_tab m = artifactsTab
            then updateArtifact (m\<lparr>ui_artifact := wheel_step step (int (length (ui_artifacts m))) (ui_artifact m)\<rparr>)
          else if ui_tab m = targetsTab
            then m\<lparr>ui_target := wheel_step step (int (length (ui_targets m))) (ui_target m), ui_offset := 0\<rparr>
          else m\<lparr>ui_job := wheel_step step (int (length (ui_jobs m))) (ui_job m)\<rparr>)
       else if contains (sl_detail l) x y \<and> ui_tab m = targetsTab then m\<lparr>ui_offset := max 0 (min 4 (ui_offset m + step))\<rparr>
       else m))"

subsection \<open>Messages\<close>

definition add_event :: "ui_env \<Rightarrow> event \<Rightarrow> tui \<Rightarrow> tui" where
  "add_event ue e m = (if ev_sequence e \<le> ui_after m then m
     else m\<lparr>ui_log := ui_log m @ itoa (ev_sequence e) @ '' '' @ cleanLine ue (ev_level e) @ '' '' @ cleanText ue (ev_message e) @ [newline],
            ui_after := ev_sequence e\<rparr>)"

definition log_limit :: nat where "log_limit = 2 ^ 20"

definition add_events :: "ui_env \<Rightarrow> event list \<Rightarrow> tui \<Rightarrow> tui" where
  "add_events ue es m = (let m' = fold (add_event ue) es m in
     if length (ui_log m') > log_limit then m'\<lparr>ui_log := drop (length (ui_log m') - log_limit) (ui_log m')\<rparr> else m')"

text \<open>The request is settled: it was accepted, or found accepted.\<close>

definition settled :: "string \<Rightarrow> string \<Rightarrow> tui \<Rightarrow> tui \<times> cmd list" where
  "settled text key m = (set_status (text @ key) (selectTab jobsTab (m\<lparr>ui_pending := None, ui_attempted := False,
       ui_fields := (ui_fields m)[5 := []], ui_selected := key, ui_after := 0, ui_log := []\<rparr>)), [LoadJobs, LoadLogs key 0])"

definition other_update :: "ui_env \<Rightarrow> string \<Rightarrow> tui \<Rightarrow> tui" where
  "other_update ue x m =
     (if ui_importing m \<and> \<not> ui_busy m then m\<lparr>ui_path := ue_edit ue (ui_path_focused m) (OtherMsg x) (ui_path m)\<rparr>
      else if ui_tab m = provisionTab \<and> ui_pending m = None \<and> ui_focus m \<ge> 2 \<and> ui_focus m < 8
      then updateField ue (OtherMsg x) m else m)"

fun Update :: "ui_env \<Rightarrow> msg \<Rightarrow> tui \<Rightarrow> tui \<times> cmd list" where
  "Update ue (Key key) m = key_update ue key m"
| "Update ue (Click left x y) m = mouseClick ue left x y m"
| "Update ue (Wheel w x y) m = (mouseWheel w x y m, [])"
| "Update ue (WindowSize w h) m = (m\<lparr>ui_width := w, ui_height := h\<rparr>, [])"
| "Update ue TickMsg m = (if ui_tab m = jobsTab
     then (if ui_selected m \<noteq> [] then (m, [Ticking, LoadJobs, LoadLogs (ui_selected m) (ui_after m)]) else (m, [Ticking, LoadJobs]))
     else (m, [Ticking]))"
| "Update ue (OtherMsg x) m = (other_update ue x m, [])"
| "Update ue (ArtifactsMsg r) m = (case r of
       Inl e \<Rightarrow> (setError ue e m, [])
     | Inr xs \<Rightarrow> (set_status ''Artifacts loaded'' (updateArtifact (m\<lparr>ui_artifacts := xs\<rparr>)), []))"
| "Update ue (TargetsMsg r url) m = (if url \<noteq> ui_fields m ! 0 then (m, [])
     else (case r of
         Inl e \<Rightarrow> (setError ue e m, [])
       | Inr xs \<Rightarrow> (m\<lparr>ui_targets := xs, ui_target := 0, ui_status := itoa (int (length xs)) @ '' targets discovered''\<rparr>, [])))"
| "Update ue (JobsMsg r) m = (case r of
       Inl e \<Rightarrow> (setError ue e m, [])
     | Inr xs \<Rightarrow> (m\<lparr>ui_jobs := xs, ui_job := min (ui_job m) (max 0 (int (length xs) - 1))\<rparr>, []))"
| "Update ue (CapsMsg r) m = (case r of
       Inl e \<Rightarrow> (setError ue e m, [])
     | Inr (address, version) \<Rightarrow> (set_status (''Connected to station '' @ version)
         (if ui_fields m ! 1 = [] then m\<lparr>ui_fields := (ui_fields m)[1 := address]\<rparr> else m), []))"
| "Update ue (ImportedMsg r) m = (let m' = m\<lparr>ui_busy := False\<rparr> in case r of
       Inl e \<Rightarrow> (setError ue e m', [])
     | Inr key \<Rightarrow> (m'\<lparr>ui_importing := False, ui_status := ''Artifact imported: '' @ key\<rparr>, [LoadArtifacts]))"
| "Update ue (SubmittedMsg r) m = (let m' = m\<lparr>ui_busy := False\<rparr> in case r of
       Inl e \<Rightarrow> (set_status (cleanLine ue e @ ''; request retained: retry Submit or press r to reconcile'') m', [])
     | Inr key \<Rightarrow> settled ''Accepted job '' key m')"
| "Update ue (ReconciledMsg r) m = (let m' = m\<lparr>ui_busy := False\<rparr> in case r of
       Inl e \<Rightarrow> (setError ue e m', [])
     | Inr key \<Rightarrow> settled ''Recovered accepted job '' key m')"
| "Update ue (CanceledMsg r) m = (let m' = m\<lparr>ui_busy := False\<rparr> in
     (case r of Inl e \<Rightarrow> setError ue e m' | Inr key \<Rightarrow> set_status (''Cancel requested for '' @ key) m', [LoadJobs]))"
| "Update ue (LogsMsg key r) m = (if key \<noteq> ui_selected m then (m, [])
     else (case r of Inl e \<Rightarrow> (setError ue e m, []) | Inr es \<Rightarrow> (add_events ue es m, [])))"

subsection \<open>The shape of the model\<close>

definition index_ok :: "int \<Rightarrow> 'a list \<Rightarrow> bool" where
  "index_ok i xs \<longleftrightarrow> 0 \<le> i \<and> (xs \<noteq> [] \<longrightarrow> i < int (length xs))"

definition shape_ok :: "tui \<Rightarrow> bool" where
  "shape_ok m \<longleftrightarrow> length (ui_fields m) = 6 \<and> index_ok (ui_artifact m) (ui_artifacts m)
     \<and> index_ok (ui_target m) (ui_targets m) \<and> index_ok (ui_job m) (ui_jobs m) \<and> 0 \<le> ui_focus m \<and> ui_focus m \<le> 8"

lemma index_moved [simp]: "index_ok (move step (int (length xs)) i) xs" "index_ok (wheel_step step (int (length xs)) i) xs"
  by (auto simp: index_ok_def move_def wheel_step_def min_def max_def)

lemma index_steps [simp]: "index_ok i xs \<Longrightarrow> index_ok (max 0 (i - 1)) xs"
  "index_ok i xs \<Longrightarrow> index_ok (min (max 0 (int (length xs) - 1)) (i + 1)) xs"
  by (auto simp: index_ok_def min_def max_def)

lemma shape_fields:
  "shape_ok (m\<lparr>ui_status := a\<rparr>) = shape_ok m" "shape_ok (m\<lparr>ui_tab := t\<rparr>) = shape_ok m" "shape_ok (m\<lparr>ui_offset := i\<rparr>) = shape_ok m"
  "shape_ok (m\<lparr>ui_input := f\<rparr>) = shape_ok m" "shape_ok (m\<lparr>ui_path := a\<rparr>) = shape_ok m" "shape_ok (m\<lparr>ui_path_focused := b\<rparr>) = shape_ok m"
  "shape_ok (m\<lparr>ui_importing := b\<rparr>) = shape_ok m" "shape_ok (m\<lparr>ui_tree := b\<rparr>) = shape_ok m" "shape_ok (m\<lparr>ui_raw := b\<rparr>) = shape_ok m"
  "shape_ok (m\<lparr>ui_busy := b\<rparr>) = shape_ok m" "shape_ok (m\<lparr>ui_pending := q\<rparr>) = shape_ok m" "shape_ok (m\<lparr>ui_attempted := b\<rparr>) = shape_ok m"
  "shape_ok (m\<lparr>ui_selected := a\<rparr>) = shape_ok m" "shape_ok (m\<lparr>ui_after := i\<rparr>) = shape_ok m" "shape_ok (m\<lparr>ui_log := a\<rparr>) = shape_ok m"
  "shape_ok (m\<lparr>ui_width := i\<rparr>) = shape_ok m" "shape_ok (m\<lparr>ui_height := i\<rparr>) = shape_ok m"
  by (simp_all add: shape_ok_def)

lemmas shape_simps = shape_fields set_status_def setError_def

lemma shape_if: "shape_ok (fst x) \<Longrightarrow> shape_ok (fst y) \<Longrightarrow> shape_ok (fst (if b then x else y))"
  by simp

lemma shape_updateArtifact: "shape_ok m \<Longrightarrow> shape_ok (updateArtifact m)"
  by (auto simp: updateArtifact_def shape_ok_def index_ok_def min_def)

lemma shape_clamped:
  assumes "shape_ok m" "0 \<le> i"
  shows "shape_ok (updateArtifact (m\<lparr>ui_artifact := i\<rparr>))" "shape_ok (updateArtifact (m\<lparr>ui_artifacts := xs\<rparr>))"
  using assms by (auto simp: updateArtifact_def shape_ok_def index_ok_def min_def neq_Nil_conv)

lemma shape_selectTab: "shape_ok m \<Longrightarrow> shape_ok (selectTab t m)"
  by (simp add: selectTab_def Let_def shape_updateArtifact shape_simps)

lemma shape_focus: "shape_ok m \<Longrightarrow> 0 \<le> i \<Longrightarrow> i \<le> 8 \<Longrightarrow> shape_ok (m\<lparr>ui_focus := i\<rparr>)"
  by (simp add: shape_ok_def)

lemma shape_focusField: "shape_ok (focusField m) = shape_ok m"
  by (simp add: focusField_def shape_simps)

lemma shape_updateField: "shape_ok m \<Longrightarrow> shape_ok (updateField ue msg m)"
  by (simp add: updateField_def Let_def shape_ok_def index_ok_def)

lemma shape_provisionKey: "shape_ok m \<Longrightarrow> shape_ok (fst (provisionKey ue key m))"
proof -
  assume ok: "shape_ok m"
  have "shape_ok (m\<lparr>ui_artifact := move step (int (length (ui_artifacts m))) i\<rparr>)"
      "shape_ok (m\<lparr>ui_target := move step (int (length (ui_targets m))) i\<rparr>)" for step i
    using ok by (simp_all add: shape_ok_def)
  then show ?thesis
    using ok by (simp add: provisionKey_def submit_key_def shape_simps shape_updateField Let_def split: option.split sum.split)
qed

lemma shape_keys:
  assumes "shape_ok m"
  shows "shape_ok (fst (import_key ue key m))" "shape_ok (escape_key m)" "shape_ok (tab_key back m)"
    "shape_ok (fst (artifacts_key key m))" "shape_ok (fst (targets_key key m))" "shape_ok (fst (jobs_key key m))"
proof -
  show "shape_ok (fst (import_key ue key m))" using assms by (simp add: import_key_def shape_simps)
  show "shape_ok (escape_key m)" using assms by (simp add: escape_key_def shape_simps shape_focus)
  have "0 \<le> (ui_focus m + k) mod 9 \<and> (ui_focus m + k) mod 9 \<le> 8" for k
    using pos_mod_bound [of 9 "ui_focus m + k"] by simp
  then show "shape_ok (tab_key back m)"
    using assms by (simp add: tab_key_def Let_def shape_focusField shape_focus shape_selectTab shape_updateArtifact)
  have "0 \<le> min (max 0 (int (length (ui_artifacts m)) - 1)) (ui_artifact m + 1)"
    using assms by (auto simp: shape_ok_def index_ok_def)
  then show "shape_ok (fst (artifacts_key key m))"
    using assms unfolding artifacts_key_def
    by (intro shape_if) (simp_all add: shape_simps shape_focusField shape_focus shape_selectTab shape_updateArtifact shape_clamped)
  have "shape_ok (m\<lparr>ui_target := max 0 (ui_target m - 1)\<rparr>)" "shape_ok (m\<lparr>ui_job := max 0 (ui_job m - 1)\<rparr>)"
    "shape_ok (m\<lparr>ui_target := min (max 0 (int (length (ui_targets m)) - 1)) (ui_target m + 1)\<rparr>)"
    "shape_ok (m\<lparr>ui_job := min (max 0 (int (length (ui_jobs m)) - 1)) (ui_job m + 1)\<rparr>)"
    using assms by (simp_all add: shape_ok_def)
  then show "shape_ok (fst (targets_key key m))" "shape_ok (fst (jobs_key key m))"
    using assms unfolding targets_key_def jobs_key_def Let_def
    by (intro shape_if; simp add: shape_simps shape_focusField shape_focus shape_selectTab)+
qed

lemma shape_key_update: "shape_ok m \<Longrightarrow> shape_ok (fst (key_update ue key m))"
  unfolding key_update_def
  by (intro shape_if) (simp_all add: shape_keys shape_provisionKey shape_selectTab shape_focusField shape_updateArtifact)

lemma shape_press: "shape_ok m \<Longrightarrow> shape_ok (fst (press ue a m))"
  unfolding press_def
  by (intro shape_if) (simp_all add: shape_focusField shape_selectTab shape_key_update shape_provisionKey shape_focus)

lemma shape_click_row: "shape_ok m \<Longrightarrow> 0 \<le> i \<Longrightarrow> shape_ok (click_row i m)"
  by (auto simp: click_row_def shape_clamped) (auto simp: shape_ok_def index_ok_def)

lemma start_not_negative: "0 \<le> sl_start (layout m)"
  by (simp only: layout_def Let_def case_prod_beta screen_layout.select_convs max.cobounded1)

text \<open>A click presses a button, chooses a field of the form or chooses a row of the list, or does nothing.\<close>

lemma mouseClick_cases:
  obtains "mouseClick ue left x y m = (m, [])"
  | a where "mouseClick ue left x y m = press ue a m"
  | i where "0 \<le> i" "i < 8" "ui_pending m = None" "mouseClick ue left x y m = (focusField (m\<lparr>ui_focus := i\<rparr>), [])"
  | i where "0 \<le> i" "mouseClick ue left x y m = (click_row i m, [])"
proof -
  obtain l where l: "layout m = l" by simp
  have start: "0 \<le> sl_start l" using start_not_negative [of m] l by simp
  consider "\<not> left \<or> too_small m"
    | a where "left" "\<not> too_small m" "find (\<lambda>a. x < ui_width m \<and> contains (ac_rect a) x y) (sl_actions l) = Some a"
    | "left" "\<not> too_small m" "find (\<lambda>a. x < ui_width m \<and> contains (ac_rect a) x y) (sl_actions l) = None"
    by (cases "find (\<lambda>a. x < ui_width m \<and> contains (ac_rect a) x y) (sl_actions l)") auto
  then show thesis
  proof cases
    case 1
    then have "mouseClick ue left x y m = (m, [])" by (auto simp only: mouseClick_def if_True)
    then show ?thesis by (rule that(1))
  next
    case (2 a)
    then have "mouseClick ue left x y m = press ue a m"
      unfolding mouseClick_def l Let_def by (simp only: simp_thms if_False option.case)
    then show ?thesis by (rule that(2))
  next
    case 3
    let ?field = "ui_tab m = provisionTab \<and> ui_pending m = None \<and> contains (sl_detail l) x y"
    let ?list = "ui_tab m \<noteq> provisionTab \<and> contains (sl_list l) x y \<and> \<not> ui_importing m"
    have e: "mouseClick ue left x y m =
      (if ?field then (if y - rc_y (sl_detail l) < 8 then (focusField (m\<lparr>ui_focus := y - rc_y (sl_detail l)\<rparr>), []) else (m, []))
       else if ?list then (click_row (sl_start l + y - rc_y (sl_list l)) m, []) else (m, []))"
      using 3 unfolding mouseClick_def l Let_def by (simp only: simp_thms if_False option.case)
    consider "?field" "y - rc_y (sl_detail l) < 8" | "\<not> ?field" "?list"
      | "mouseClick ue left x y m = (m, [])"
      unfolding e by metis
    then show ?thesis
    proof cases
      case 1
      then have "0 \<le> y - rc_y (sl_detail l)" by (simp add: contains_def)
      with 1 show ?thesis using that(3) [of "y - rc_y (sl_detail l)"] e by metis
    next
      case 2
      then have "0 \<le> sl_start l + y - rc_y (sl_list l)" using start by (simp add: contains_def)
      with 2 show ?thesis using that(4) e by metis
    qed (rule that(1))
  qed
qed

lemma shape_mouseClick: "shape_ok m \<Longrightarrow> shape_ok (fst (mouseClick ue left x y m))"
  by (rule mouseClick_cases [of ue left x y m]) (simp_all add: shape_press shape_focusField shape_focus shape_click_row)

lemma shape_mouseWheel: "shape_ok m \<Longrightarrow> shape_ok (mouseWheel w x y m)"
proof -
  assume ok: "shape_ok m"
  have "shape_ok (m\<lparr>ui_target := wheel_step step (int (length (ui_targets m))) i\<rparr>)"
      "shape_ok (m\<lparr>ui_job := wheel_step step (int (length (ui_jobs m))) i\<rparr>)"
      "shape_ok (m\<lparr>ui_artifact := wheel_step step (int (length (ui_artifacts m))) i\<rparr>)" for step i
    using ok by (simp_all add: shape_ok_def)
  with ok show ?thesis by (simp add: mouseWheel_def Let_def shape_simps shape_updateArtifact)
qed

lemma shape_add_events: "shape_ok m \<Longrightarrow> shape_ok (add_events ue es m)"
proof -
  have "shape_ok m \<Longrightarrow> shape_ok (fold (add_event ue) es m)" for m
    by (induction es arbitrary: m) (simp_all add: add_event_def shape_simps)
  then show "shape_ok m \<Longrightarrow> shape_ok (add_events ue es m)" by (simp add: add_events_def Let_def shape_simps)
qed

lemma shape_settled: "shape_ok m \<Longrightarrow> shape_ok (fst (settled text key m))"
proof -
  assume "shape_ok m"
  then have "shape_ok (m\<lparr>ui_fields := (ui_fields m)[5 := []]\<rparr>)" by (simp add: shape_ok_def)
  then have "shape_ok (m\<lparr>ui_pending := None, ui_attempted := False, ui_fields := (ui_fields m)[5 := []],
      ui_selected := key, ui_after := 0, ui_log := []\<rparr>)"
    by (simp add: shape_ok_def)
  then show ?thesis by (simp add: settled_def shape_simps shape_selectTab)
qed

lemma shape_Update: "shape_ok m \<Longrightarrow> shape_ok (fst (Update ue msg m))"
proof (cases msg)
  case (TargetsMsg r url)
  assume ok: "shape_ok m"
  then have "shape_ok (m\<lparr>ui_targets := xs, ui_target := 0, ui_status := t\<rparr>)" for xs t
    by (auto simp: shape_ok_def index_ok_def)
  with ok TargetsMsg show ?thesis by (simp add: shape_simps split: sum.split)
next
  case (JobsMsg r)
  assume ok: "shape_ok m"
  then have "shape_ok (m\<lparr>ui_jobs := xs, ui_job := min (ui_job m) (max 0 (int (length xs) - 1))\<rparr>)" for xs
    by (auto simp: shape_ok_def index_ok_def min_def max_def neq_Nil_conv)
  with ok JobsMsg show ?thesis by (simp add: shape_simps split: sum.split)
next
  case (CapsMsg r)
  assume ok: "shape_ok m"
  then have "shape_ok (m\<lparr>ui_fields := (ui_fields m)[1 := a]\<rparr>)" for a by (simp add: shape_ok_def)
  with ok CapsMsg show ?thesis by (simp add: shape_simps split: sum.split prod.split)
next
  case (ArtifactsMsg r)
  assume ok: "shape_ok m"
  then have "0 \<le> ui_artifact m" by (simp add: shape_ok_def index_ok_def)
  with ok ArtifactsMsg show ?thesis by (simp add: shape_simps shape_clamped split: sum.split)
next
  case (SubmittedMsg r)
  assume ok: "shape_ok m"
  with SubmittedMsg show ?thesis by (simp add: shape_simps shape_settled Let_def split: sum.split)
qed (simp_all add: shape_simps shape_key_update shape_mouseClick shape_mouseWheel shape_add_events shape_settled
    shape_updateField other_update_def Let_def split: sum.split)

subsection \<open>The running program\<close>

text \<open>
  Between two messages the program holds a model and the commands in the background.  A command that works on the
  station for the operator is marked by \<open>busy\<close>; it ends by its own message.  The history says which requests were
  prepared, with the confirmation typed at that moment, and which were submitted since the last one was settled.
\<close>

record console_run =
  cr_model :: tui
  cr_flight :: "cmd list"
  cr_prepared :: "(string \<times> request) list"
  cr_sent :: "request list"

definition submits :: "cmd list \<Rightarrow> request list" where
  "submits cs = List.map_filter (\<lambda>c. case c of SubmitJob q \<Rightarrow> Some q | _ \<Rightarrow> None) cs"

definition busy_command :: "cmd \<Rightarrow> bool" where
  "busy_command c \<longleftrightarrow> (case c of ImportFile _ \<Rightarrow> True | SubmitJob _ \<Rightarrow> True | ReconcileJob _ \<Rightarrow> True | CancelOpened _ \<Rightarrow> True | _ \<Rightarrow> False)"

definition answers :: "cmd \<Rightarrow> msg \<Rightarrow> bool" where
  "answers c msg \<longleftrightarrow> (case (c, msg) of (ImportFile _, ImportedMsg _) \<Rightarrow> True | (SubmitJob _, SubmittedMsg _) \<Rightarrow> True
     | (ReconcileJob _, ReconciledMsg _) \<Rightarrow> True | (CancelOpened _, CanceledMsg _) \<Rightarrow> True | _ \<Rightarrow> False)"

definition free_message :: "msg \<Rightarrow> bool" where
  "free_message msg \<longleftrightarrow> (case msg of ImportedMsg _ \<Rightarrow> False | SubmittedMsg _ \<Rightarrow> False | ReconciledMsg _ \<Rightarrow> False | CanceledMsg _ \<Rightarrow> False | _ \<Rightarrow> True)"

definition settles :: "msg \<Rightarrow> bool" where
  "settles msg \<longleftrightarrow> (case msg of SubmittedMsg (Inr _) \<Rightarrow> True | ReconciledMsg (Inr _) \<Rightarrow> True | _ \<Rightarrow> False)"

definition deliver :: "ui_env \<Rightarrow> msg \<Rightarrow> console_run \<Rightarrow> console_run" where
  "deliver ue msg s = (let (m, cs) = Update ue msg (cr_model s) in
     \<lparr>cr_model = m, cr_flight = cr_flight s @ filter busy_command cs,
      cr_prepared = (case (ui_pending (cr_model s), ui_pending m) of
          (None, Some q) \<Rightarrow> (ui_fields (cr_model s) ! 5, q) # cr_prepared s | _ \<Rightarrow> cr_prepared s),
      cr_sent = submits cs @ (if settles msg then [] else cr_sent s)\<rparr>)"

inductive run_step :: "console_run \<Rightarrow> console_run \<Rightarrow> bool" where
  message: "free_message msg \<Longrightarrow> run_step s (deliver ue msg s)"
| result: "c \<in> set (cr_flight s) \<Longrightarrow> answers c msg \<Longrightarrow> run_step s (deliver ue msg (s\<lparr>cr_flight := remove1 c (cr_flight s)\<rparr>))"

inductive running :: "console_run \<Rightarrow> bool" where
  started: "running \<lparr>cr_model = new_tui, cr_flight = [], cr_prepared = [], cr_sent = []\<rparr>"
| stepped: "running s \<Longrightarrow> run_step s s' \<Longrightarrow> running s'"

subsection \<open>What a message does to the request\<close>

definition calm :: "tui \<Rightarrow> tui \<times> cmd list \<Rightarrow> bool" where
  "calm m r \<longleftrightarrow> ui_pending (fst r) = ui_pending m \<and> ui_attempted (fst r) = ui_attempted m \<and> ui_busy (fst r) = ui_busy m
     \<and> filter busy_command (snd r) = []"

definition discards :: "tui \<Rightarrow> tui \<times> cmd list \<Rightarrow> bool" where
  "discards m r \<longleftrightarrow> ui_pending m \<noteq> None \<and> \<not> ui_attempted m \<and> ui_pending (fst r) = None \<and> \<not> ui_attempted (fst r)
     \<and> ui_busy (fst r) = ui_busy m \<and> snd r = []"

definition typed_request :: "tui \<Rightarrow> request \<Rightarrow> bool" where
  "typed_request m q \<longleftrightarrow> ui_fields m ! 5 = phrase (rq_cable q) (rq_device q) \<and> requestIDPattern (rq_id q)"

definition prepares :: "tui \<Rightarrow> tui \<times> cmd list \<Rightarrow> bool" where
  "prepares m r \<longleftrightarrow> ui_pending m = None \<and> (\<exists>q. ui_pending (fst r) = Some q \<and> typed_request m q)
     \<and> ui_attempted (fst r) = ui_attempted m \<and> ui_busy (fst r) = ui_busy m \<and> snd r = []"

definition starts :: "tui \<Rightarrow> tui \<times> cmd list \<Rightarrow> bool" where
  "starts m r \<longleftrightarrow> \<not> ui_busy m \<and> ui_busy (fst r) \<and> ui_pending (fst r) = ui_pending m \<and>
     (\<exists>c. snd r = [c] \<and> busy_command c \<and> (case c of SubmitJob q \<Rightarrow> ui_pending m = Some q \<and> ui_attempted (fst r)
        | _ \<Rightarrow> ui_attempted (fst r) = ui_attempted m))"

definition effect :: "tui \<Rightarrow> tui \<times> cmd list \<Rightarrow> bool" where
  "effect m r \<longleftrightarrow> calm m r \<or> discards m r \<or> prepares m r \<or> starts m r"

lemma keeps [simp]:
  "ui_pending (updateArtifact m) = ui_pending m" "ui_attempted (updateArtifact m) = ui_attempted m" "ui_busy (updateArtifact m) = ui_busy m"
  "ui_pending (selectTab t m) = ui_pending m" "ui_attempted (selectTab t m) = ui_attempted m" "ui_busy (selectTab t m) = ui_busy m"
  "ui_pending (focusField m) = ui_pending m" "ui_attempted (focusField m) = ui_attempted m" "ui_busy (focusField m) = ui_busy m"
  "ui_pending (updateField ue msg m) = ui_pending m" "ui_attempted (updateField ue msg m) = ui_attempted m" "ui_busy (updateField ue msg m) = ui_busy m"
  "ui_pending (set_status t' m) = ui_pending m" "ui_attempted (set_status t' m) = ui_attempted m" "ui_busy (set_status t' m) = ui_busy m"
  "ui_pending (setError ue t' m) = ui_pending m" "ui_attempted (setError ue t' m) = ui_attempted m" "ui_busy (setError ue t' m) = ui_busy m"
  by (simp_all add: updateArtifact_def selectTab_def focusField_def updateField_def set_status_def setError_def Let_def)

lemma busy_command_simps [simp]:
  "busy_command (ImportFile path)" "busy_command (SubmitJob q)" "busy_command (ReconcileJob key)" "busy_command (CancelOpened key)"
  "\<not> busy_command LoadArtifacts" "\<not> busy_command (LoadTargets url)" "\<not> busy_command LoadJobs" "\<not> busy_command LoadCapabilities"
  "\<not> busy_command (LoadLogs key i)" "\<not> busy_command Ticking" "\<not> busy_command QuitProgram"
  by (simp_all add: busy_command_def)

lemma effect_if: "(b \<Longrightarrow> effect m x) \<Longrightarrow> (\<not> b \<Longrightarrow> effect m y) \<Longrightarrow> effect m (if b then x else y)"
  by simp

lemma effect_calm: "calm m r \<Longrightarrow> effect m r"
  by (simp add: effect_def)

lemma effect_start: "starts m r \<Longrightarrow> effect m r"
  by (simp add: effect_def)

text \<open>A prepared request carries the confirmation that was typed for its cable and device, and a fresh identifier.\<close>

lemma prepareRequest_ok:
  assumes "prepareRequest ue m = Inr q"
  shows "typed_request m q" "ui_artifacts m \<noteq> []" "ui_targets m \<noteq> []"
    "rq_target q = tg_key (fst (ui_targets m ! nat (ui_target m)))" "rq_target q \<noteq> []" "rq_cable q \<noteq> []" "rq_device q \<noteq> []"
    "rq_artifact q = sa_id (ui_artifacts m ! nat (ui_artifact m))"
proof -
  obtain t a where ta: "ui_targets m ! nat (ui_target m) = (t, a)" by fastforce
  from assms ta have ne: "ui_artifacts m \<noteq> []" "ui_targets m \<noteq> []" "tg_key t \<noteq> []" "tg_serial t \<noteq> []" "tg_index t \<noteq> []"
    "ui_fields m ! 5 = resetPhrase m"
    by (auto simp: prepareRequest_def split: if_splits)
  with assms ta obtain plan key where "NewRequestID (ue_random ue) = Some key" "rq_id q = key"
    and f: "rq_target q = tg_key t" "rq_cable q = tg_serial t" "rq_device q = tg_index t"
      "rq_artifact q = sa_id (ui_artifacts m ! nat (ui_artifact m))"
    by (auto simp: prepareRequest_def Let_def split: if_splits sum.splits option.splits)
  then show "typed_request m q"
    using new_request_id_is_accepted(2) ne ta by (auto simp: typed_request_def resetPhrase_def)
  show "ui_artifacts m \<noteq> []" "ui_targets m \<noteq> []" "rq_target q = tg_key (fst (ui_targets m ! nat (ui_target m)))"
    "rq_target q \<noteq> []" "rq_cable q \<noteq> []" "rq_device q \<noteq> []" "rq_artifact q = sa_id (ui_artifacts m ! nat (ui_artifact m))"
    using ne f ta by simp_all
qed

lemma effect_focus: "effect (m\<lparr>ui_focus := i\<rparr>) r = effect m r"
  by (simp add: effect_def calm_def discards_def prepares_def starts_def typed_request_def cong: cmd.case_cong)

lemma effect_provisionKey: "effect m (provisionKey ue key m)"
proof (cases "ui_pending m")
  case (Some q)
  have "effect m (submit_key q m)" if "\<not> ui_busy m"
    using that Some by (intro effect_start) (simp add: starts_def submit_key_def)
  moreover have "effect m (m\<lparr>ui_busy := True\<rparr>, [ReconcileJob (rq_id q)])" if "\<not> ui_busy m"
    using that by (intro effect_start) (simp add: starts_def)
  moreover have "effect m (set_status frozen_text m, [])"
    by (intro effect_calm) (simp add: calm_def)
  ultimately show ?thesis
    unfolding provisionKey_def Some option.case by (intro effect_if) blast+
next
  case None
  have "effect m (case prepareRequest ue m of Inl e \<Rightarrow> (setError ue e m, [])
      | Inr q \<Rightarrow> (m\<lparr>ui_pending := Some q, ui_status := ''Prepared requestId '' @ rq_id q
          @ ''. Retained exact request; press Enter again to submit.''\<rparr>, []))"
  proof (cases "prepareRequest ue m")
    case (Inr q)
    then have "typed_request m q" by (rule prepareRequest_ok(1))
    with None Inr show ?thesis by (auto simp: effect_def prepares_def)
  qed (simp add: effect_calm calm_def)
  moreover have "effect m (m\<lparr>ui_artifact := k\<rparr>, [])" "effect m (m\<lparr>ui_target := k\<rparr>, [])"
      "effect m (updateField ue msg m, [])" "effect m (m, [])" for k msg
    by (simp_all add: effect_calm calm_def)
  ultimately show ?thesis
    unfolding provisionKey_def None option.case Let_def by (intro effect_if) blast+
qed

lemma effect_keys:
  "effect m (import_key ue key m)" "effect m (escape_key m, [])" "effect m (tab_key back m, [])"
  "effect m (artifacts_key key m)" "effect m (targets_key key m)" "effect m (jobs_key key m)"
proof -
  show "effect m (import_key ue key m)" unfolding import_key_def
    by (intro effect_if) (simp_all add: effect_def calm_def starts_def)
  show "effect m (escape_key m, [])"
    by (auto simp: effect_def calm_def discards_def escape_key_def)
  show "effect m (tab_key back m, [])"
    by (intro effect_calm) (simp add: calm_def tab_key_def Let_def)
  show "effect m (artifacts_key key m)" unfolding artifacts_key_def
    by (intro effect_if effect_calm) (simp_all add: calm_def)
  show "effect m (targets_key key m)" unfolding targets_key_def
    by (intro effect_if effect_calm) (simp_all add: calm_def)
  show "effect m (jobs_key key m)" unfolding jobs_key_def Let_def
    by (intro effect_if) (simp_all add: effect_def calm_def starts_def)
qed

lemma effect_key_update: "effect m (key_update ue key m)"
  unfolding key_update_def
  by (intro effect_if) (simp_all add: effect_keys effect_provisionKey effect_calm calm_def)

lemma effect_press: "effect m (press ue a m)"
  unfolding press_def using effect_provisionKey [of "m\<lparr>ui_focus := 8\<rparr>" ue "''enter''"]
  by (intro effect_if) (simp_all add: effect_key_update effect_focus effect_calm calm_def)

lemma effect_mouse: "effect m (mouseClick ue left x y m)" "effect m (mouseWheel w x y m, [])"
proof -
  show "effect m (mouseClick ue left x y m)"
    by (rule mouseClick_cases [of ue left x y m])
      (simp_all add: effect_press effect_calm calm_def click_row_def)
  show "effect m (mouseWheel w x y m, [])"
    by (intro effect_calm) (simp add: calm_def mouseWheel_def Let_def)
qed

lemma calm_add_events:
  "ui_pending (add_events ue es m) = ui_pending m" "ui_attempted (add_events ue es m) = ui_attempted m"
  "ui_busy (add_events ue es m) = ui_busy m"
proof -
  have "ui_pending (fold (add_event ue) es m) = ui_pending m \<and> ui_attempted (fold (add_event ue) es m) = ui_attempted m
      \<and> ui_busy (fold (add_event ue) es m) = ui_busy m"
    by (induction es arbitrary: m) (simp_all add: add_event_def)
  then show "ui_pending (add_events ue es m) = ui_pending m" "ui_attempted (add_events ue es m) = ui_attempted m"
    "ui_busy (add_events ue es m) = ui_busy m" by (simp_all add: add_events_def Let_def)
qed

lemma effect_message: "free_message msg \<Longrightarrow> effect m (Update ue msg m)"
  by (cases msg)
    (simp_all add: free_message_def effect_key_update effect_mouse effect_calm calm_def calm_add_events other_update_def
      split: sum.split prod.split)

subsection \<open>The request that is submitted\<close>

lemma submits_simps [simp]:
  "submits [] = []" "submits (SubmitJob q # cs) = q # submits cs"
  by (simp_all add: submits_def map_filter_def)

lemma submits_busy: "submits cs = submits (filter busy_command cs)"
proof -
  have "submits (c # cs) = (if busy_command c then submits [c] @ submits cs else submits cs)" for c cs
    by (cases c) (simp_all add: submits_def map_filter_def)
  then show ?thesis by (induction cs) (metis filter.simps)+
qed

lemma result_ends:
  assumes "answers c msg"
  shows "\<not> ui_busy (fst (Update ue msg m))" "filter busy_command (snd (Update ue msg m)) = []"
    "if settles msg then ui_pending (fst (Update ue msg m)) = None \<and> \<not> ui_attempted (fst (Update ue msg m))
     else ui_pending (fst (Update ue msg m)) = ui_pending m \<and> ui_attempted (fst (Update ue msg m)) = ui_attempted m"
proof -
  from assms consider r where "msg = ImportedMsg r" | r where "msg = SubmittedMsg r" | r where "msg = ReconciledMsg r"
    | r where "msg = CanceledMsg r"
    by (auto simp: answers_def split: cmd.splits msg.splits)
  then have "\<not> ui_busy (fst (Update ue msg m)) \<and> filter busy_command (snd (Update ue msg m)) = [] \<and>
    (if settles msg then ui_pending (fst (Update ue msg m)) = None \<and> \<not> ui_attempted (fst (Update ue msg m))
     else ui_pending (fst (Update ue msg m)) = ui_pending m \<and> ui_attempted (fst (Update ue msg m)) = ui_attempted m)"
    by cases (simp_all add: settles_def settled_def Let_def split: sum.split)
  then show "\<not> ui_busy (fst (Update ue msg m))" "filter busy_command (snd (Update ue msg m)) = []"
    "if settles msg then ui_pending (fst (Update ue msg m)) = None \<and> \<not> ui_attempted (fst (Update ue msg m))
     else ui_pending (fst (Update ue msg m)) = ui_pending m \<and> ui_attempted (fst (Update ue msg m)) = ui_attempted m"
    by blast+
qed

definition flight_ok :: "console_run \<Rightarrow> bool" where
  "flight_ok s \<longleftrightarrow> (if ui_busy (cr_model s) then \<exists>c. cr_flight s = [c] else cr_flight s = [])"

definition request_ok :: "console_run \<Rightarrow> bool" where
  "request_ok s \<longleftrightarrow> (ui_attempted (cr_model s) \<longrightarrow> ui_pending (cr_model s) \<noteq> None)
     \<and> (\<forall>q\<in>set (cr_sent s). ui_pending (cr_model s) = Some q \<and> ui_attempted (cr_model s))
     \<and> (\<forall>q. ui_pending (cr_model s) = Some q \<longrightarrow> q \<in> snd ` set (cr_prepared s))
     \<and> (\<forall>(t, q)\<in>set (cr_prepared s). t = phrase (rq_cable q) (rq_device q) \<and> requestIDPattern (rq_id q))"

definition run_ok :: "console_run \<Rightarrow> bool" where
  "run_ok s \<longleftrightarrow> shape_ok (cr_model s) \<and> flight_ok s \<and> request_ok s"

lemma deliver_parts:
  "cr_model (deliver ue msg s) = fst (Update ue msg (cr_model s))"
  "cr_flight (deliver ue msg s) = cr_flight s @ filter busy_command (snd (Update ue msg (cr_model s)))"
  "cr_prepared (deliver ue msg s) = (case (ui_pending (cr_model s), ui_pending (fst (Update ue msg (cr_model s)))) of
          (None, Some q) \<Rightarrow> (ui_fields (cr_model s) ! 5, q) # cr_prepared s | _ \<Rightarrow> cr_prepared s)"
  "cr_sent (deliver ue msg s) = submits (filter busy_command (snd (Update ue msg (cr_model s)))) @ (if settles msg then [] else cr_sent s)"
  by (simp_all add: deliver_def Let_def case_prod_beta submits_busy [symmetric])

lemma run_ok_message:
  assumes ok: "run_ok s" and free: "free_message msg"
  shows "run_ok (deliver ue msg s)"
proof -
  let ?m = "cr_model s" and ?r = "Update ue msg (cr_model s)"
  have ns: "\<not> settles msg" using free by (cases msg) (simp_all add: free_message_def settles_def)
  have sh: "shape_ok (fst ?r)" using ok shape_Update by (simp add: run_ok_def)
  from effect_message [OF free] consider "calm ?m ?r" | "discards ?m ?r" | "prepares ?m ?r" | "starts ?m ?r"
    unfolding effect_def by blast
  then have "flight_ok (deliver ue msg s) \<and> request_ok (deliver ue msg s)"
  proof cases
    case 1
    with ok ns show ?thesis
      by (simp add: run_ok_def flight_ok_def request_ok_def deliver_parts calm_def split: option.split)
  next
    case 2
    with ok ns show ?thesis
      by (auto simp: run_ok_def flight_ok_def request_ok_def deliver_parts discards_def split: option.split)
  next
    case 3
    then obtain q where q: "ui_pending ?m = None" "ui_pending (fst ?r) = Some q" "typed_request ?m q" by (auto simp: prepares_def)
    with 3 have "flight_ok (deliver ue msg s)" using ok by (simp add: run_ok_def flight_ok_def deliver_parts prepares_def)
    moreover have "request_ok (deliver ue msg s)"
      using ok ns 3 q by (auto simp: run_ok_def request_ok_def deliver_parts prepares_def typed_request_def)
    ultimately show ?thesis ..
  next
    case 4
    then obtain c where c: "snd ?r = [c]" "busy_command c" by (auto simp: starts_def)
    have "cr_flight s = []" using ok 4 by (auto simp: run_ok_def flight_ok_def starts_def split: if_splits)
    with 4 c have "flight_ok (deliver ue msg s)" by (simp add: flight_ok_def deliver_parts starts_def)
    moreover have "request_ok (deliver ue msg s)"
      using ok ns 4 c by (cases c)
        (auto simp: run_ok_def request_ok_def deliver_parts starts_def submits_def map_filter_def split: option.split)
    ultimately show ?thesis ..
  qed
  with sh show ?thesis by (simp add: run_ok_def deliver_parts)
qed

lemma run_ok_result:
  assumes ok: "run_ok s" and c: "c \<in> set (cr_flight s)" "answers c msg"
  shows "run_ok (deliver ue msg (s\<lparr>cr_flight := remove1 c (cr_flight s)\<rparr>))"
proof -
  have "cr_flight s = [c]" using ok c(1) by (auto simp: run_ok_def flight_ok_def split: if_splits)
  moreover have "shape_ok (fst (Update ue msg (cr_model s)))" using ok shape_Update by (simp add: run_ok_def)
  moreover have "request_ok (deliver ue msg (s\<lparr>cr_flight := remove1 c (cr_flight s)\<rparr>))"
    using ok result_ends [OF c(2), of ue "cr_model s"]
    by (cases "settles msg") (auto simp: run_ok_def request_ok_def deliver_parts split: option.split)
  ultimately show ?thesis
    using result_ends [OF c(2), of ue "cr_model s"] by (simp add: run_ok_def flight_ok_def deliver_parts)
qed

lemma run_ok_reachable: "running s \<Longrightarrow> run_ok s"
proof (induction rule: running.induct)
  case started
  show ?case by (simp add: run_ok_def shape_ok_def index_ok_def flight_ok_def request_ok_def new_tui_def)
next
  case (stepped s s')
  from stepped(2,3) show ?case by (auto elim!: run_step.cases intro: run_ok_message run_ok_result)
qed

text \<open>C9: A request that is submitted to the station has been prepared before, and at that moment the operator had
  typed the reset confirmation that names exactly its cable and its device; its identifier is one that the station
  accepts.  Until the station answers that it was accepted, every further submission is of the very same request,
  which stays frozen in the model, and no two commands of the operator work at the same time.  So a retry after a
  lost answer cannot start a second deployment under another identifier.
\<close>

theorem console_submits_what_was_confirmed:
  assumes "running s" "q \<in> set (cr_sent s)"
  shows "set (cr_sent s) = {q} \<and> ui_pending (cr_model s) = Some q \<and> ui_attempted (cr_model s)
    \<and> (phrase (rq_cable q) (rq_device q), q) \<in> set (cr_prepared s) \<and> requestIDPattern (rq_id q)
    \<and> length (cr_flight s) \<le> 1"
proof -
  have fl: "flight_ok s" and rq: "request_ok s" using run_ok_reachable [OF assms(1)] by (simp_all add: run_ok_def)
  have p: "ui_pending (cr_model s) = Some q" "ui_attempted (cr_model s)" using rq assms(2) by (auto simp: request_ok_def)
  have "q' = q" if "q' \<in> set (cr_sent s)" for q' using rq that p(1) by (auto simp: request_ok_def)
  then have one: "set (cr_sent s) = {q}" using assms(2) by blast
  from rq p(1) obtain t where t: "(t, q) \<in> set (cr_prepared s)" by (force simp: request_ok_def)
  with rq have "t = phrase (rq_cable q) (rq_device q)" "requestIDPattern (rq_id q)" by (auto simp: request_ok_def)
  moreover have "length (cr_flight s) \<le> 1" using fl by (auto simp: flight_ok_def split: if_splits)
  ultimately show ?thesis using one p t by simp
qed

definition sample_env :: ui_env where
  "sample_env = \<lparr>ue_edit = (\<lambda>focused msg s. if focused then ''RESET A/0'' else s), ue_strip = id, ue_quote = id,
     ue_plan = Inl, ue_random = Some (\<lambda>i. CHR ''a'')\<rparr>"

definition sample_target :: "target \<times> association" where
  "sample_target = (\<lparr>tg_key = ''4'', tg_name = [], tg_index = ''0'', tg_device = [], tg_cable = [], tg_serial = ''A''\<rparr>, SerialNotFound)"

definition sample_model :: "int \<Rightarrow> int \<Rightarrow> nat option \<Rightarrow> string \<Rightarrow> tui" where
  "sample_model t i inp reset = new_tui\<lparr>ui_tab := t, ui_artifacts := [zero_artifact], ui_targets := [sample_target],
     ui_fields := [''tcp:127.0.0.1:3121'', ''10.0.0.1'', [], [], [], reset], ui_focus := i, ui_input := inp,
     ui_status := ''Connected to station 1''\<rparr>"

definition idle :: "tui \<Rightarrow> console_run" where
  "idle m = \<lparr>cr_model = m, cr_flight = [], cr_prepared = [], cr_sent = []\<rparr>"

lemma idle_step:
  assumes "running (idle m)" "Update ue msg m = (m', [])" "free_message msg" "ui_pending m' = None"
  shows "running (idle m')"
proof -
  have "\<not> settles msg" using assms(3) by (cases msg) (simp_all add: free_message_def settles_def)
  then have "deliver ue msg (idle m) = idle m'"
    using assms(2,4) by (simp add: deliver_def idle_def split: option.split)
  then show ?thesis using running.stepped [OF assms(1) run_step.message [OF assms(3)], of ue] by simp
qed

lemma sample_loaded: "running (idle (sample_model 0 0 None []))"
proof -
  let ?a = "new_tui\<lparr>ui_artifacts := [zero_artifact], ui_status := ''Artifacts loaded''\<rparr>"
  let ?b = "?a\<lparr>ui_targets := [sample_target], ui_status := ''1 targets discovered''\<rparr>"
  have "running (idle new_tui)" unfolding idle_def by (rule running.started)
  moreover have "Update sample_env (ArtifactsMsg (Inr [zero_artifact])) new_tui = (?a, [])" by code_simp
  ultimately have "running (idle ?a)" by (rule idle_step) (simp_all add: free_message_def new_tui_def)
  moreover have "Update sample_env (TargetsMsg (Inr [sample_target]) ''tcp:127.0.0.1:3121'') ?a = (?b, [])" by code_simp
  ultimately have "running (idle ?b)" by (rule idle_step) (simp_all add: free_message_def new_tui_def)
  moreover have "Update sample_env (CapsMsg (Inr (''10.0.0.1'', ''1''))) ?b = (sample_model 0 0 None [], [])" by code_simp
  ultimately show ?thesis by (rule idle_step) (simp_all add: free_message_def sample_model_def new_tui_def)
qed

lemma sample_typed: "running (idle (sample_model 2 8 None ''RESET A/0''))"
proof -
  have p: "ui_pending (sample_model t i inp reset) = None" for t i inp reset by (simp add: sample_model_def new_tui_def)
  have k: "free_message (Key key)" for key by (simp add: free_message_def)
  note go = idle_step [OF _ _ k p]
  have "Update sample_env (Key ''ctrl+p'') (sample_model 0 0 None []) = (sample_model 2 0 None [], [])" by code_simp
  from go [OF sample_loaded this] have "running (idle (sample_model 2 0 None []))" .
  moreover have "Update sample_env (Key ''shift+tab'') (sample_model 2 0 None []) = (sample_model 2 8 None [], [])" by code_simp
  ultimately have "running (idle (sample_model 2 8 None []))" by (rule go)
  moreover have "Update sample_env (Key ''shift+tab'') (sample_model 2 8 None []) = (sample_model 2 7 (Some 5) [], [])" by code_simp
  ultimately have "running (idle (sample_model 2 7 (Some 5) []))" by (rule go)
  moreover have "Update sample_env (Key ''x'') (sample_model 2 7 (Some 5) []) = (sample_model 2 7 (Some 5) ''RESET A/0'', [])" by code_simp
  ultimately have "running (idle (sample_model 2 7 (Some 5) ''RESET A/0''))" by (rule go)
  moreover have "Update sample_env (Key ''tab'') (sample_model 2 7 (Some 5) ''RESET A/0'') = (sample_model 2 8 None ''RESET A/0'', [])" by code_simp
  ultimately show ?thesis by (rule go)
qed

lemma prepareRequest_plain:
  assumes "ui_artifacts m \<noteq> []" "ui_targets m \<noteq> []" "ui_targets m ! nat (ui_target m) = (t, a)"
    "tg_key t \<noteq> []" "tg_serial t \<noteq> []" "tg_index t \<noteq> []" "ui_fields m ! 5 = resetPhrase m"
    "TrimSpace (ui_fields m ! 1) \<noteq> []" "TrimSpace (ui_fields m ! 4) = []" "NewRequestID (ue_random ue) = Some key"
  shows "\<exists>q. prepareRequest ue m = Inr q"
  using assms by (simp add: prepareRequest_def Let_def)

lemma sample_prepared: "\<exists>q. prepareRequest sample_env (sample_model 2 8 None ''RESET A/0'') = Inr q"
proof (rule prepareRequest_plain [where t = "fst sample_target" and a = "snd sample_target"])
  show "ui_fields (sample_model 2 8 None ''RESET A/0'') ! 5 = resetPhrase (sample_model 2 8 None ''RESET A/0'')" by code_simp
  show "TrimSpace (ui_fields (sample_model 2 8 None ''RESET A/0'') ! 1) \<noteq> []" by code_simp
  show "TrimSpace (ui_fields (sample_model 2 8 None ''RESET A/0'') ! 4) = []" by code_simp
  show "NewRequestID (ue_random sample_env) = Some (hex_encode (map (\<lambda>i. CHR ''a'') [0..<16]))"
    by (simp add: NewRequestID_def sample_env_def)
qed (simp_all add: sample_model_def new_tui_def sample_target_def)

lemma enter_key: "\<not> ui_importing m \<Longrightarrow> ui_tab m = provisionTab \<Longrightarrow> Update ue (Key ''enter'') m = provisionKey ue ''enter'' m"
  by (simp add: key_update_def)

lemma console_submits_what_was_confirmed_witness:
  "\<exists>s q. running s \<and> cr_sent s = [q] \<and> set (cr_sent s) = {q} \<and> ui_pending (cr_model s) = Some q
     \<and> (phrase (rq_cable q) (rq_device q), q) \<in> set (cr_prepared s)"
proof -
  let ?m = "sample_model 2 8 None ''RESET A/0''"
  obtain q where q: "prepareRequest sample_env ?m = Inr q" using sample_prepared by blast
  have m: "\<not> ui_importing ?m" "ui_tab ?m = provisionTab" "ui_pending ?m = None" "ui_focus ?m = 8" "\<not> ui_busy ?m"
    by (simp_all add: sample_model_def new_tui_def provisionTab_def)
  define s1 where "s1 = deliver sample_env (Key ''enter'') (idle ?m)"
  define s2 where "s2 = deliver sample_env (Key ''enter'') s1"
  have k: "free_message (Key ''enter'')" by (simp add: free_message_def)
  have "running s1" unfolding s1_def by (rule running.stepped [OF sample_typed run_step.message [OF k]])
  then have run: "running s2" unfolding s2_def by (rule running.stepped [OF _ run_step.message [OF k]])
  obtain st where 1: "Update sample_env (Key ''enter'') ?m = (?m\<lparr>ui_pending := Some q, ui_status := st\<rparr>, [])"
    using m q enter_key [OF m(1,2)] by (simp add: provisionKey_def)
  then have s1: "cr_model s1 = ?m\<lparr>ui_pending := Some q, ui_status := st\<rparr>" "cr_sent s1 = []"
    by (simp_all add: s1_def deliver_def idle_def settles_def)
  have "snd (Update sample_env (Key ''enter'') (cr_model s1)) = [SubmitJob q]"
    using m enter_key [of "cr_model s1" sample_env] by (simp add: s1(1) provisionKey_def submit_key_def)
  then have "cr_sent s2 = [q]"
    by (simp add: s2_def deliver_parts s1(2) settles_def)
  then show ?thesis using run console_submits_what_was_confirmed [OF run, of q] by auto
qed

end
