(* ===== verification/Spec2Isabelle.thy ===== *)
theory Spec2Isabelle
  imports Tftp Archive StorageBudget Store Tasks JobModel Retention SerialModel Jobs JobRun JobProperties SerialCapture SerialSessions Runner HttpApi Daemon Client Tui
begin

text \<open>Skeleton.\<close>

end
